(* ===== verification/Prelude.thy ===== *)
theory Prelude
  imports Complex_Main "HOL-Library.Word"
begin

text \<open>
  Shared vocabulary of the development.

  \<^item> The integer types of the Go sources: \<open>u64\<close> for \<^verbatim>\<open>uint64\<close>, \<^verbatim>\<open>gas.Gas\<close> and
    \<^verbatim>\<open>gas.Price\<close>, \<open>u256\<close> for \<^verbatim>\<open>uint256.Int\<close>, both wrapping around; \<open>int\<close> for
    \<^verbatim>\<open>big.Int\<close>.
  \<^item> Errors as values: \<open>go_error\<close> has one constructor per sentinel error of the sources
    plus \<open>Panic\<close> for a run-time panic and \<open>Blocked\<close> for a call that does not return before another
    goroutine acts, and \<open>'a res\<close> is what a function returning
    \<^verbatim>\<open>(T, error)\<close> yields.
  \<^item> The arithmetic of \<^verbatim>\<open>math/bits\<close> that the sources call (\<open>Mul64\<close>, \<open>Add64\<close>,
    \<open>Div64\<close>) with its panics.
  \<^item> Word-to-number lemmas collected in \<open>u64_nat\<close>, used by every component.
\<close>

section \<open>Types\<close>

type_synonym u64 = "64 word"
type_synonym u256 = "256 word"
type_synonym gas = u64
type_synonym price = u64
type_synonym hash = nat
type_synonym address = nat

abbreviation MaxUint64 :: u64 where
  "MaxUint64 \<equiv> - 1"

text \<open>
  \<^verbatim>\<open>time.Time\<close> and \<^verbatim>\<open>time.Duration\<close> as whole nanoseconds, the former since the Unix epoch;
  \<^verbatim>\<open>Unix()\<close> rounds down and \<^verbatim>\<open>Nanosecond()\<close> is in \<open>[0, 10^9)\<close>, also before the epoch.
\<close>

type_synonym gotime = int
type_synonym duration = int

definition time_Second :: duration where
  "time_Second = 1000000000"

definition time_Unix :: "int \<Rightarrow> int \<Rightarrow> gotime" where
  "time_Unix sec nsec = sec * time_Second + nsec"

definition Time_Unix :: "gotime \<Rightarrow> int" where
  "Time_Unix t = t div time_Second"

definition Time_Nanosecond :: "gotime \<Rightarrow> int" where
  "Time_Nanosecond t = t mod time_Second"

section \<open>Errors\<close>

datatype go_error =
    Panic string
  | ErrOverflow
  | ErrTargetToExcessScalingZero
  | ErrMinPriceZero
  | ErrInvalidGasPriceConfig go_error
  | ErrMinBalanceBelowAmount
  | ErrInsufficientFunds
  | ErrSettledBlockNotExecuted
  | ErrNonConsecutiveBlocks
  | ErrQueueFull
  | ErrCostOverflow
  | ErrSenderNoEOA
  | ErrFeeCapVeryHigh
  | ErrInsufficientFundsForTransfer
  | ErrTipVeryHigh
  | ErrGasLimitReached
  | ErrFeeCapTooLow
  | ErrNonceTooLow
  | ErrNonceTooHigh
  | ErrNonceMax
  | ErrParentHashMismatch
  | ErrBlockHeightNotIncrementing
  | ErrHashMismatch
  | ErrMarkBlockExecutedAgain
  | ErrBlockResettled
  | ErrBlockAncestryChanged
  | ErrIncompleteBlockHistory
  | ErrNotFound
  | ErrFutureBlockNotResolved
  | ErrNonCanonicalBlock
  | ErrNeitherNumberNorHash
  | ErrBothNumberAndHash
  | ErrBlockTimeUnderMinimum
  | ErrBlockTimeBeforeParent
  | ErrBlockTimeAfterMaximum
  | ErrExecutionLagging
  | ErrBlockHeightNotUint64
  | ErrBlockTooFarInFuture
  | ErrUnknownParent
  | ErrBlockHeightTooLow
  | ErrSettledRootMismatch
  | ErrSettledHeightMismatch
  | ErrDatabaseNotFound
  | ErrExecutorClosed
  | ErrFatal
  | ErrContextDone
  | Blocked
  | Wrap "go_error list"
  | ErrOther string

text \<open>
  \<open>Wrap es\<close> is \<^verbatim>\<open>fmt.Errorf\<close> with a \<^verbatim>\<open>%w\<close> verb for each of \<open>es\<close>; an error built with other
  verbs only is an \<open>ErrOther\<close>. \<open>errors_Is\<close> is \<^verbatim>\<open>errors.Is\<close>: the wrapped sentinels of
  \<^verbatim>\<open>src/blocks/access.go\<close> are part of it.
\<close>

fun errors_Is :: "go_error \<Rightarrow> go_error \<Rightarrow> bool" where
  "errors_Is (Wrap es) t \<longleftrightarrow> Wrap es = t \<or> list_ex (\<lambda>e. errors_Is e t) es"
| "errors_Is (ErrInvalidGasPriceConfig e) t \<longleftrightarrow> ErrInvalidGasPriceConfig e = t \<or> errors_Is e t"
| "errors_Is ErrFutureBlockNotResolved t \<longleftrightarrow> t = ErrFutureBlockNotResolved \<or> t = ErrNotFound"
| "errors_Is ErrNonCanonicalBlock t \<longleftrightarrow>
     t = ErrNonCanonicalBlock \<or> t = ErrFutureBlockNotResolved \<or> t = ErrNotFound"
| "errors_Is e t \<longleftrightarrow> e = t"

text \<open>\<^verbatim>\<open>fmt.Errorf\<close> around an error; a panic or a blocked call is not an error value.\<close>

definition Errorf :: "(go_error \<Rightarrow> go_error) \<Rightarrow> go_error \<Rightarrow> go_error" where
  "Errorf g e = (case e of Panic s \<Rightarrow> Panic s | Blocked \<Rightarrow> Blocked | _ \<Rightarrow> g e)"

type_synonym 'a res = "go_error + 'a"

definition res_bind :: "'a res \<Rightarrow> ('a \<Rightarrow> 'b res) \<Rightarrow> 'b res" where
  "res_bind m f = (case m of Inl e \<Rightarrow> Inl e | Inr x \<Rightarrow> f x)"

lemma res_bind_Inl [simp]: "res_bind (Inl e) f = Inl e"
  by (simp add: res_bind_def)

lemma res_bind_Inr [simp]: "res_bind (Inr x) f = f x"
  by (simp add: res_bind_def)

lemma res_bind_eq_Inr:
  "res_bind m f = Inr y \<longleftrightarrow> (\<exists>x. m = Inr x \<and> f x = Inr y)"
  by (cases m) simp_all

section \<open>The functions of package math/bits\<close>

definition Mul64 :: "u64 \<Rightarrow> u64 \<Rightarrow> u64 \<times> u64" where
  "Mul64 x y = (word_of_nat (unat x * unat y div 2 ^ 64), x * y)"

definition Add64 :: "u64 \<Rightarrow> u64 \<Rightarrow> u64 \<Rightarrow> u64 \<times> u64" where
  "Add64 x y carry =
     (x + y + carry, word_of_nat ((unat x + unat y + unat carry) div 2 ^ 64))"

definition Div64 :: "u64 \<Rightarrow> u64 \<Rightarrow> u64 \<Rightarrow> (u64 \<times> u64) res" where
  "Div64 hi lo y =
     (if y = 0 then Inl (Panic ''divide by zero'')
      else if y \<le> hi then Inl (Panic ''integer overflow'')
      else let n = unat hi * 2 ^ 64 + unat lo
           in Inr (word_of_nat (n div unat y), word_of_nat (n mod unat y)))"

text \<open>
  Go's \<^verbatim>\<open>/\<close> and \<^verbatim>\<open>%\<close> on unsigned integers panic on a zero divisor. A division whose
  divisor is a non-zero constant of the sources is written with \<open>div\<close> and \<open>mod\<close>
  directly.
\<close>

definition go_div :: "u64 \<Rightarrow> u64 \<Rightarrow> u64 res" where
  "go_div x y = (if y = 0 then Inl (Panic ''divide by zero'') else Inr (x div y))"

definition go_mod :: "u64 \<Rightarrow> u64 \<Rightarrow> u64 res" where
  "go_mod x y = (if y = 0 then Inl (Panic ''divide by zero'') else Inr (x mod y))"

text \<open>\<^verbatim>\<open>cmp.Compare\<close>, as \<open>-1\<close>, \<open>0\<close> or \<open>1\<close>.\<close>

definition go_cmp :: "'a::linorder \<Rightarrow> 'a \<Rightarrow> int" where
  "go_cmp x y = (if x < y then - 1 else if x = y then 0 else 1)"

section \<open>Numbers behind words\<close>

declare of_nat_unat [simp del]

named_theorems u64_nat \<open>rules that move comparisons and arithmetic on 64-bit words to nat\<close>

lemma unat_lt_2_64: "unat (x :: u64) < 18446744073709551616"
  using unsigned_less [of x] by simp

lemma unat_le_max: "unat (x :: u64) \<le> 18446744073709551615"
  using unat_lt_2_64 [of x] by linarith

lemma unat_MaxUint64 [simp, u64_nat]: "unat MaxUint64 = 18446744073709551615"
  by (simp add: unsigned_minus_1_eq_mask mask_eq_exp_minus_1)

lemma u64_le_iff [u64_nat]: "x \<le> y \<longleftrightarrow> unat x \<le> unat y" for x y :: u64
  by (rule word_le_nat_alt)

lemma u64_less_iff [u64_nat]: "x < y \<longleftrightarrow> unat x < unat y" for x y :: u64
  by (rule word_less_nat_alt)

lemma u64_eq_iff: "x = y \<longleftrightarrow> unat x = unat y" for x y :: u64
  by (simp add: word_unat_eq_iff)

lemma u64_eq_0_iff [u64_nat]: "x = 0 \<longleftrightarrow> unat x = 0" for x :: u64
  by (simp add: unat_eq_zero)

lemma unat_div_u64 [u64_nat]: "unat (x div y) = unat x div unat y" for x y :: u64
  by (rule unat_div_distrib)

lemma unat_mod_u64 [u64_nat]: "unat (x mod y) = unat x mod unat y" for x y :: u64
  by (rule unat_mod_distrib)

lemma unat_add_u64:
  "unat x + unat y < 18446744073709551616 \<Longrightarrow> unat (x + y) = unat x + unat y" for x y :: u64
  by (simp add: unat_word_ariths)

lemma unat_sub_u64: "y \<le> x \<Longrightarrow> unat (x - y) = unat x - unat y" for x y :: u64
  by (simp add: unat_sub)

lemma unat_mult_u64:
  "unat x * unat y < 18446744073709551616 \<Longrightarrow> unat (x * y) = unat x * unat y" for x y :: u64
  by (simp add: unat_word_ariths)

lemma unat_word_of_nat_u64:
  "n < 18446744073709551616 \<Longrightarrow> unat (word_of_nat n :: u64) = n"
  by (simp add: unat_of_nat)

lemma unat_pos_iff: "0 < unat x \<longleftrightarrow> x \<noteq> 0" for x :: u64
  by (simp add: unat_gt_0)

lemma sint_u64_small: "unat x < 2 ^ 63 \<Longrightarrow> sint x = int (unat x)" for x :: u64
  using signed_take_bit_int_eq_self [of 63 "uint x"] by (simp add: sint_uint uint_nat)

lemma unat_word_of_int_u64:
  "0 \<le> k \<Longrightarrow> k < 2 ^ 64 \<Longrightarrow> unat (word_of_int k :: u64) = nat k"
  by (simp add: unat_eq_nat_uint uint_word_of_int)

lemma div_lt_2_64: "(x :: nat) < n \<Longrightarrow> x div y < n"
  using div_le_dividend le_less_trans by blast

subsection \<open>The double-width operations\<close>

lemma mult_u64_bound:
  "unat (x :: u64) * unat (y :: u64) \<le> 18446744073709551615 * 18446744073709551615"
  by (intro mult_le_mono unat_le_max)

lemma Mul64_value:
  assumes "Mul64 x y = (hi, lo)"
  shows "unat hi * 18446744073709551616 + unat lo = unat x * unat y"
proof -
  have "unat x * unat y div 18446744073709551616 < 18446744073709551616"
    using mult_u64_bound [of x y] by simp
  then have "unat hi = unat x * unat y div 18446744073709551616"
    using assms by (auto simp: Mul64_def unat_word_of_nat_u64)
  moreover have "unat lo = unat x * unat y mod 18446744073709551616"
    using assms by (auto simp: Mul64_def unat_word_ariths)
  ultimately show ?thesis by simp
qed

lemma Add64_value:
  assumes "Add64 x y c = (s, carry)"
  shows "unat carry * 18446744073709551616 + unat s = unat x + unat y + unat c"
proof -
  have "unat x + unat y + unat c \<le> 3 * 18446744073709551615"
    using unat_le_max [of x] unat_le_max [of y] unat_le_max [of c] by linarith
  then have "(unat x + unat y + unat c) div 18446744073709551616 < 18446744073709551616"
    by simp
  then have "unat carry = (unat x + unat y + unat c) div 18446744073709551616"
    using assms by (auto simp: Add64_def unat_word_of_nat_u64)
  moreover have "unat s = (unat x + unat y + unat c) mod 18446744073709551616"
    using assms by (auto simp: Add64_def unat_word_ariths mod_add_left_eq)
  ultimately show ?thesis by simp
qed

lemma Div64_value:
  assumes n: "unat hi * 18446744073709551616 + unat lo = n" and "unat hi < unat y"
  obtains q r where "Div64 hi lo y = Inr (q, r)"
    and "unat q = n div unat y" and "unat r = n mod unat y"
proof -
  have y: "0 < unat y" "\<not> y \<le> hi" "y \<noteq> 0" using assms(2) by (auto simp: u64_nat)
  have "n < (unat hi + 1) * 18446744073709551616"
    using n unat_lt_2_64 [of lo] by (simp add: add_mult_distrib)
  also have "\<dots> \<le> unat y * 18446744073709551616"
    using assms(2) by (intro mult_le_mono1) simp
  finally have q: "n div unat y < 18446744073709551616"
    using y(1) by (simp add: div_less_iff_less_mult mult.commute)
  have "n mod unat y < unat y" using y(1) by simp
  then have r: "n mod unat y < 18446744073709551616"
    using unat_lt_2_64 [of y] by linarith
  show thesis
  proof (rule that)
    show "Div64 hi lo y = Inr (word_of_nat (n div unat y), word_of_nat (n mod unat y))"
      using y n by (simp add: Div64_def)
  qed (use q r in \<open>simp_all add: unat_word_of_nat_u64\<close>)
qed

lemma Div64_defined_iff: "(\<exists>qr. Div64 hi lo y = Inr qr) \<longleftrightarrow> hi < y"
  by (auto simp: Div64_def Let_def not_le u64_nat)

section \<open>Generic arithmetic\<close>

definition ceil_div :: "nat \<Rightarrow> nat \<Rightarrow> nat" where
  "ceil_div n d = (n + (d - 1)) div d"

lemma ceil_div_le_iff: "0 < d \<Longrightarrow> ceil_div n d \<le> q \<longleftrightarrow> n \<le> q * d"
proof -
  assume d: "0 < d"
  have "ceil_div n d \<le> q \<longleftrightarrow> n + (d - 1) < (q + 1) * d"
    using d by (simp add: ceil_div_def div_less_iff_less_mult flip: less_Suc_eq_le)
  also have "\<dots> \<longleftrightarrow> n \<le> q * d" using d by auto
  finally show ?thesis .
qed

lemma ceil_div_mono: "m \<le> n \<Longrightarrow> ceil_div m d \<le> ceil_div n d"
  by (simp add: ceil_div_def div_le_mono)

lemma ceil_div_mult_ge: "0 < d \<Longrightarrow> n \<le> ceil_div n d * d"
  using ceil_div_le_iff by blast

lemma ceil_div_mult_lt: "0 < d \<Longrightarrow> ceil_div n d * d < n + d"
  using div_times_less_eq_dividend [of "n + (d - 1)" d] 
  unfolding ceil_div_def by linarith

lemma ceil_div_exact [simp]: "0 < d \<Longrightarrow> ceil_div (q * d) d = q"
  by (metis ceil_div_le_iff ceil_div_mult_ge le_antisym mult_le_cancel2 order_refl)

lemma ceil_div_0 [simp]: "0 < d \<Longrightarrow> ceil_div 0 d = 0"
  by (simp add: ceil_div_def)

lemma ceil_div_add_mult: "0 < d \<Longrightarrow> ceil_div (q * d + n) d = q + ceil_div n d"
  using div_mult_self3 [of d q "n + (d - 1)"] by (simp only: ceil_div_def add.assoc)

lemma ceil_div_le: "0 < d \<Longrightarrow> n \<le> q * d \<Longrightarrow> ceil_div n d \<le> q"
  by (simp add: ceil_div_le_iff)

lemma ceil_div_scale:
  assumes "0 < k" and "0 < d"
  shows "ceil_div (k * n) (k * d) = ceil_div n d"
proof -
  have "ceil_div (k * n) (k * d) \<le> q \<longleftrightarrow> ceil_div n d \<le> q" for q
    using assms by (simp add: ceil_div_le_iff mult.left_commute [of q])
  then show ?thesis by (meson order_refl le_antisym)
qed

lemma in_fst_image: "(a, b) \<in> S \<Longrightarrow> a \<in> fst ` S"
  by force

lemma go_cmp_simps [simp]:
  "go_cmp x y = 0 \<longleftrightarrow> x = y"
  "go_cmp x y < 0 \<longleftrightarrow> x < y"
  "0 < go_cmp x y \<longleftrightarrow> y < x"
  "go_cmp x y \<le> 0 \<longleftrightarrow> x \<le> y"
  "0 \<le> go_cmp x y \<longleftrightarrow> y \<le> x"
  by (auto simp: go_cmp_def)

section \<open>Runs of a clock over a sequence of blocks\<close>

text \<open>
  A clock is prepared for a block (\<open>before\<close>), read, and advanced by the block's gas
  (\<open>after\<close>). The run collects the clock as read at every block, and the final clock. The
  actual executor and the worst-case predictor run the same clock with different gas.
\<close>

fun clock_run :: "('h \<Rightarrow> 'c \<Rightarrow> 'c res) \<Rightarrow> ('h \<Rightarrow> gas \<Rightarrow> 'c \<Rightarrow> 'c res) \<Rightarrow> 'c \<Rightarrow> ('h \<times> gas) list
    \<Rightarrow> ('c list \<times> 'c) res" where
  "clock_run before after c [] = Inr ([], c)"
| "clock_run before after c ((h, g) # rest) =
     res_bind (before h c) (\<lambda>b.
     res_bind (after h g b) (\<lambda>c'.
     res_bind (clock_run before after c' rest) (\<lambda>(bs, c''). Inr (b # bs, c''))))"

text \<open>The interface of a clock whose runs are monotone in the gas consumed.\<close>

locale clock_dominance =
  fixes le :: "'c \<Rightarrow> 'c \<Rightarrow> bool"
    and before :: "'h \<Rightarrow> 'c \<Rightarrow> 'c res"
    and after :: "'h \<Rightarrow> gas \<Rightarrow> 'c \<Rightarrow> 'c res"
    and room :: "'c \<Rightarrow> bool"
    and hdr_ok :: "'h \<Rightarrow> bool"
    and fee :: "'c \<Rightarrow> u256"
  assumes before_mono: "le t u \<Longrightarrow> hdr_ok h \<Longrightarrow> before h u = Inr u' \<Longrightarrow>
      \<exists>t'. before h t = Inr t' \<and> le t' u'"
    and after_mono: "le t u \<Longrightarrow> room u \<Longrightarrow> g \<le> g' \<Longrightarrow> after h g' u = Inr u' \<Longrightarrow>
      \<exists>t'. after h g t = Inr t' \<and> le t' u'"
    and fee_mono: "le t u \<Longrightarrow> fee t \<le> fee u"
begin

lemma run_dominated:
  assumes "list_all2 (\<lambda>(h, g) (h', g'). h = h' \<and> g \<le> g') bs bs'"
    and "le t u" and "list_all (\<lambda>(h, _). hdr_ok h) bs'"
    and "clock_run before after u bs' = Inr (us, u')" and "list_all room us"
  shows "\<exists>ts t'. clock_run before after t bs = Inr (ts, t') \<and> list_all2 le ts us \<and> le t' u'"
  using assms
proof (induction arbitrary: t u us u' rule: list_all2_induct)
  case Nil
  then show ?case by simp
next
  case (Cons b bs b' bs')
  obtain h g g' where b: "b = (h, g)" "b' = (h, g')" "g \<le> g'" using Cons.hyps(1) by auto
  obtain u1 u2 us1 where u: "before h u = Inr u1" "after h g' u1 = Inr u2"
    "clock_run before after u2 bs' = Inr (us1, u')" "us = u1 # us1"
    using Cons.prems(3) b by (auto simp: res_bind_eq_Inr)
  obtain t1 where t1: "before h t = Inr t1" "le t1 u1"
    using before_mono [OF Cons.prems(1) _ u(1)] Cons.prems(2) b by auto
  obtain t2 where t2: "after h g t1 = Inr t2" "le t2 u2"
    using after_mono [OF t1(2) _ b(3) u(2)] Cons.prems(4) u(4) by auto
  have "\<exists>ts t'. clock_run before after t2 bs = Inr (ts, t') \<and> list_all2 le ts us1 \<and> le t' u'"
    by (rule Cons.IH [OF t2(2) _ u(3)]) (use Cons.prems u(4) in simp_all)
  then show ?case using t1 t2 u b by auto
qed

lemma fees_dominated:
  assumes "list_all2 (\<lambda>(h, g) (h', g'). h = h' \<and> g \<le> g') bs bs'"
    and "le t u" and "list_all (\<lambda>(h, _). hdr_ok h) bs'"
    and "clock_run before after u bs' = Inr (us, u')" and "list_all room us"
  shows "\<exists>ts t'. clock_run before after t bs = Inr (ts, t')
    \<and> list_all2 (\<lambda>a w. fee a \<le> fee w) ts us \<and> fee t' \<le> fee u'"
proof -
  obtain ts t' where r: "clock_run before after t bs = Inr (ts, t')" "list_all2 le ts us" "le t' u'"
    using run_dominated [OF assms] by blast
  have "list_all2 (\<lambda>a w. fee a \<le> fee w) ts us"
    using r(2) by (rule list_all2_mono) (rule fee_mono)
  then show ?thesis using r fee_mono by blast
qed

end

end
