(* ===== verification/Intmath.thy ===== *)
theory Intmath
  imports Prelude
begin

text \<open>
  Package \<^verbatim>\<open>intmath\<close> (\<^verbatim>\<open>src/intmath/intmath.go\<close>): bounded addition, subtraction and
  multiplication, 128-bit multiply-then-divide in its rounding-down and rounding-up
  forms, and ceiling division. The generic \<^verbatim>\<open>constraints.Unsigned\<close> functions are over
  words of any width; those over \<^verbatim>\<open>~uint64\<close> are over \<open>u64\<close>. A function that returns
  \<^verbatim>\<open>(quo, rem, err)\<close> returns all three, because some callers use the quotient without
  looking at the error.
\<close>

section \<open>Operations\<close>

definition BoundedSubtract :: "'a::len word \<Rightarrow> 'a word \<Rightarrow> 'a word \<Rightarrow> 'a word" where
  "BoundedSubtract a b bound =
     (let minA = bound + b; overflow = (minA < b)
      in if overflow \<or> a \<le> minA then bound else a - b)"

definition BoundedAdd :: "'a::len word \<Rightarrow> 'a word \<Rightarrow> 'a word \<Rightarrow> 'a word" where
  "BoundedAdd a b ceil = (if b \<ge> ceil \<or> a \<ge> ceil - b then ceil else a + b)"

definition BoundedMultiply :: "'a::len word \<Rightarrow> 'a word \<Rightarrow> 'a word \<Rightarrow> 'a word" where
  "BoundedMultiply a b ceil = (if b \<noteq> 0 \<and> a > ceil div b then ceil else a * b)"

definition mulDiv :: "u64 \<Rightarrow> u64 \<Rightarrow> u64 \<Rightarrow> bool \<Rightarrow> (u64 \<times> u64 \<times> go_error option) res" where
  "mulDiv a b den ceil =
     (let (hi, lo) = Mul64 a b;
          (hi, lo) = (if ceil then (case Add64 lo (den - 1) 0 of (lo, carry) \<Rightarrow> (hi + carry, lo))
                      else (hi, lo))
      in if den \<le> hi then Inr (0, 0, Some ErrOverflow)
         else res_bind (Div64 hi lo den) (\<lambda>(q, r). Inr (q, r, None)))"

definition MulDiv :: "u64 \<Rightarrow> u64 \<Rightarrow> u64 \<Rightarrow> (u64 \<times> u64 \<times> go_error option) res" where
  "MulDiv a b den = mulDiv a b den False"

definition MulDivCeil :: "u64 \<Rightarrow> u64 \<Rightarrow> u64 \<Rightarrow> (u64 \<times> u64 \<times> go_error option) res" where
  "MulDivCeil a b den =
     res_bind (mulDiv a b den True) (\<lambda>(q, r, err). Inr (q, den - r - 1, err))"

definition CeilDiv :: "u64 \<Rightarrow> u64 \<Rightarrow> u64 res" where
  "CeilDiv num den =
     (let (lo, hi) = Add64 num (den - 1) 0
      in res_bind (Div64 hi lo den) (\<lambda>(quo, _). Inr quo))"

section \<open>Bounded operations\<close>

lemma uint_add_no_wrap:
  "uint x + uint y < 2 ^ LENGTH('a) \<Longrightarrow> uint (x + y) = uint x + uint y"
  for x y :: "'a::len word"
  by (simp add: uint_word_ariths)

lemma word_add_wraps_iff: "x + y < y \<longleftrightarrow> 2 ^ LENGTH('a) \<le> uint x + uint y"
  for x y :: "'a::len word"
  using uint_plus_if' [of x y] uint_lt2p [of x] uint_lt2p [of y] uint_ge_0 [of x]
  by (auto simp: word_less_def split: if_splits)

lemma uint_BoundedSubtract:
  "uint (BoundedSubtract a b bound) = max (uint a - uint b) (uint bound)"
  for a b bound :: "'a::len word"
proof (cases "2 ^ LENGTH('a) \<le> uint bound + uint b")
  case True
  then have "uint a - uint b \<le> uint bound" using uint_lt2p [of a] by linarith
  with True show ?thesis by (simp add: BoundedSubtract_def Let_def word_add_wraps_iff)
next
  case False
  then have f: "uint (bound + b) = uint bound + uint b" by (simp add: uint_add_no_wrap)
  show ?thesis
  proof (cases "a \<le> bound + b")
    case True
    then show ?thesis using f by (simp add: BoundedSubtract_def Let_def word_le_def)
  next
    case gt: False
    then have "uint bound + uint b < uint a" using f by (simp add: word_le_def)
    moreover from this have "uint b \<le> uint a" using uint_ge_0 [of bound] by linarith
    then have "uint (a - b) = uint a - uint b" by (simp add: uint_sub_if')
    ultimately show ?thesis
      using gt False by (simp add: BoundedSubtract_def Let_def word_add_wraps_iff)
  qed
qed

text \<open>\<open>BoundedSubtract\<close> computes the mathematical \<open>max (a - b) bound\<close> at every width,
  for every argument, including those for which \<open>bound + b\<close> wraps around.\<close>

theorem BoundedSubtract_spec:
  "uint (BoundedSubtract a b bound) = max (uint a - uint b) (uint bound)"
  for a b bound :: "'a::len word"
  by (rule uint_BoundedSubtract)

lemma uint_BoundedAdd: "uint (BoundedAdd a b ceil) = min (uint a + uint b) (uint ceil)"
  for a b ceil :: "'a::len word"
proof (cases "ceil \<le> b")
  case True
  then have "uint ceil \<le> uint a + uint b"
    using uint_ge_0 [of a] unfolding word_le_def by linarith
  with True show ?thesis by (simp add: BoundedAdd_def)
next
  case False
  then have s: "uint (ceil - b) = uint ceil - uint b"
    by (simp add: uint_sub_if' word_le_def)
  show ?thesis
  proof (cases "ceil - b \<le> a")
    case True
    then show ?thesis using s by (simp add: BoundedAdd_def word_le_def)
  next
    case lt: False
    then have "uint a + uint b < uint ceil" using s by (simp add: word_le_def)
    moreover from this have "uint (a + b) = uint a + uint b"
      using uint_lt2p [of ceil] by (intro uint_add_no_wrap) linarith
    ultimately show ?thesis using lt False by (simp add: BoundedAdd_def)
  qed
qed

text \<open>\<open>BoundedAdd\<close> computes the mathematical \<open>min (a + b) ceil\<close>, for every argument.\<close>

theorem BoundedAdd_spec: "uint (BoundedAdd a b ceil) = min (uint a + uint b) (uint ceil)"
  for a b ceil :: "'a::len word"
  by (rule uint_BoundedAdd)

lemma uint_BoundedMultiply:
  "uint (BoundedMultiply a b ceil) = min (uint a * uint b) (uint ceil)"
  for a b ceil :: "'a::len word"
proof (cases "b = 0")
  case True
  then show ?thesis by (simp add: BoundedMultiply_def)
next
  case False
  then have "a > ceil div b \<longleftrightarrow> unat ceil < unat a * unat b"
    by (simp add: word_less_nat_alt unat_div_distrib div_less_iff_less_mult unat_gt_0)
  then have gt: "a > ceil div b \<longleftrightarrow> uint ceil < uint a * uint b"
    unfolding uint_nat of_nat_mult [symmetric] of_nat_less_iff .
  show ?thesis
  proof (cases "a > ceil div b")
    case True
    then show ?thesis using False gt by (simp add: BoundedMultiply_def)
  next
    case le: False
    then have "uint a * uint b \<le> uint ceil" using gt by simp
    moreover from this have "uint a * uint b < 2 ^ LENGTH('a)"
      using uint_lt2p [of ceil] by linarith
    then have "uint (a * b) = uint a * uint b" by (simp add: uint_word_ariths)
    ultimately show ?thesis using le by (simp add: BoundedMultiply_def)
  qed
qed

text \<open>\<open>BoundedMultiply\<close> computes the mathematical \<open>min (a * b) ceil\<close>, for every argument.\<close>

theorem BoundedMultiply_spec:
  "uint (BoundedMultiply a b ceil) = min (uint a * uint b) (uint ceil)"
  for a b ceil :: "'a::len word"
  by (rule uint_BoundedMultiply)

section \<open>Multiply, then divide\<close>

lemma unat_minus_1_u64: "d \<noteq> 0 \<Longrightarrow> unat (d - 1) = unat d - 1" for d :: u64
  by (simp add: unat_minus_one)

lemma Mul64_hi_bound:
  assumes "Mul64 a b = (hi, lo)"
  shows "unat hi \<le> 18446744073709551614"
proof -
  have "unat hi * 18446744073709551616 \<le> 18446744073709551615 * 18446744073709551615"
    using Mul64_value [OF assms] mult_u64_bound [of a b] by linarith
  then show ?thesis by simp
qed

text \<open>
  The numerator that \<open>mulDiv\<close> hands to \<open>Div64\<close> as two words: the product, plus
  \<open>den - 1\<close> when rounding up. The carry of the addition cannot overflow the high word.
\<close>

lemma mulDiv_numerator:
  assumes "den \<noteq> 0"
  obtains hi lo where "unat hi * 18446744073709551616 + unat lo =
      unat a * unat b + (if ceil then unat den - 1 else 0)"
    and "mulDiv a b den ceil =
      (if den \<le> hi then Inr (0, 0, Some ErrOverflow)
       else res_bind (Div64 hi lo den) (\<lambda>(q, r). Inr (q, r, None)))"
proof -
  obtain hi lo where m: "Mul64 a b = (hi, lo)" by fastforce
  obtain lo' c where c: "Add64 lo (den - 1) 0 = (lo', c)" by fastforce
  have "unat c * 18446744073709551616 + unat lo' = unat lo + (unat den - 1)"
    using Add64_value [OF c] assms by (simp add: unat_minus_1_u64)
  moreover from this have "unat c \<le> 1"
    using unat_le_max [of lo] unat_le_max [of den] by linarith
  then have "unat (hi + c) = unat hi + unat c"
    using Mul64_hi_bound [OF m] by (intro unat_add_u64) linarith
  ultimately have "unat (hi + c) * 18446744073709551616 + unat lo' =
      unat a * unat b + (unat den - 1)"
    using Mul64_value [OF m] by (simp add: add_mult_distrib)
  then show thesis
    using that [of "if ceil then hi + c else hi" "if ceil then lo' else lo"] m c
      Mul64_value [OF m]
    by (simp add: mulDiv_def)
qed

lemma mulDiv_spec:
  assumes "den \<noteq> 0" and "n = unat a * unat b + (if ceil then unat den - 1 else 0)"
  shows "if n div unat den < 18446744073709551616
    then \<exists>q r. mulDiv a b den ceil = Inr (q, r, None)
           \<and> unat q = n div unat den \<and> unat r = n mod unat den
    else mulDiv a b den ceil = Inr (0, 0, Some ErrOverflow)"
proof -
  obtain hi lo where n: "unat hi * 18446744073709551616 + unat lo = n"
    and eq: "mulDiv a b den ceil = (if den \<le> hi then Inr (0, 0, Some ErrOverflow)
       else res_bind (Div64 hi lo den) (\<lambda>(q, r). Inr (q, r, None)))"
    using mulDiv_numerator [OF assms(1), where a = a and b = b and ceil = ceil, folded assms(2)]
    by blast
  have d: "0 < unat den" using assms(1) by (simp add: unat_pos_iff)
  have "n div unat den < 18446744073709551616 \<longleftrightarrow> unat hi < unat den"
  proof -
    have "n div unat den < 18446744073709551616 \<longleftrightarrow> n < unat den * 18446744073709551616"
      using d by (simp add: div_less_iff_less_mult mult.commute)
    also have "\<dots> \<longleftrightarrow> unat hi < unat den"
      using n unat_lt_2_64 [of lo] by linarith
    finally show ?thesis .
  qed
  moreover have "\<exists>q r. mulDiv a b den ceil = Inr (q, r, None)
      \<and> unat q = n div unat den \<and> unat r = n mod unat den" if lt: "unat hi < unat den"
  proof -
    obtain q r where "Div64 hi lo den = Inr (q, r)"
      and "unat q = n div unat den" and "unat r = n mod unat den"
      using Div64_value [OF n lt] .
    then show ?thesis using lt eq by (simp add: u64_nat)
  qed
  ultimately show ?thesis using eq by (auto simp: u64_nat)
qed

lemma mulDiv_den_zero: "mulDiv a b 0 ceil = Inr (0, 0, Some ErrOverflow)"
  by (simp add: mulDiv_def Mul64_def Add64_def Let_def)

text \<open>\<open>MulDiv\<close> never panics; it returns the exact quotient and remainder of the 128-bit
  product \<open>a * b\<close> by \<open>den\<close>, and \<open>ErrOverflow\<close> exactly when the divisor is zero or the
  quotient needs more than 64 bits.\<close>

theorem MulDiv_spec:
  "if den \<noteq> 0 \<and> unat a * unat b div unat den < 2 ^ 64
   then \<exists>q r. MulDiv a b den = Inr (q, r, None) \<and> unat q = unat a * unat b div unat den
          \<and> unat r = unat a * unat b mod unat den
   else MulDiv a b den = Inr (0, 0, Some ErrOverflow)"
  using mulDiv_spec [of den "unat a * unat b" a b False] mulDiv_den_zero [of a b False]
  by (cases "den = 0") (auto simp: MulDiv_def)

lemma MulDivCeil_spec':
  "if den \<noteq> 0 \<and> ceil_div (unat a * unat b) (unat den) < 2 ^ 64
   then \<exists>q extra. MulDivCeil a b den = Inr (q, extra, None)
          \<and> unat q = ceil_div (unat a * unat b) (unat den)
          \<and> unat q * unat den = unat a * unat b + unat extra \<and> unat extra < unat den
   else \<exists>extra. MulDivCeil a b den = Inr (0, extra, Some ErrOverflow)"
proof (cases "den \<noteq> 0 \<and> ceil_div (unat a * unat b) (unat den) < 2 ^ 64")
  case True
  then have d: "0 < unat den" by (simp add: unat_pos_iff)
  define n where "n = unat a * unat b + (unat den - 1)"
  obtain q r where m: "mulDiv a b den True = Inr (q, r, None)"
    and q: "unat q = n div unat den" and r: "unat r = n mod unat den"
    using mulDiv_spec [of den n a b True] True by (auto simp: n_def ceil_div_def)
  have rd: "unat r < unat den" using r d by simp
  then have "unat (den - r - 1) = unat den - unat r - 1"
    by (simp add: unat_sub_u64 u64_nat unat_minus_1_u64)
  moreover have "unat q * unat den + unat r = n" using q r by simp
  ultimately show ?thesis using True m q rd by (auto simp: MulDivCeil_def ceil_div_def n_def)
next
  case False
  then have "mulDiv a b den True = Inr (0, 0, Some ErrOverflow)"
    using mulDiv_spec [of den _ a b True] mulDiv_den_zero [of a b True]
    by (cases "den = 0") (auto simp: ceil_div_def split: if_splits)
  then show ?thesis using False by (auto simp: MulDivCeil_def)
qed

text \<open>\<open>MulDivCeil\<close> never panics; it returns the rounded-up quotient \<open>q\<close> of \<open>a * b\<close> by
  \<open>den\<close> and exactly the amount that has to be added to \<open>a * b\<close> to make the division
  exact, \<open>q * den = a * b + extra\<close> with \<open>extra < den\<close>; the error is \<open>ErrOverflow\<close> exactly
  when the divisor is zero or the rounded-up quotient needs more than 64 bits.\<close>

theorem MulDivCeil_spec:
  "if den \<noteq> 0 \<and> ceil_div (unat a * unat b) (unat den) < 2 ^ 64
   then \<exists>q extra. MulDivCeil a b den = Inr (q, extra, None)
          \<and> unat q = ceil_div (unat a * unat b) (unat den)
          \<and> unat q * unat den = unat a * unat b + unat extra \<and> unat extra < unat den
   else \<exists>extra. MulDivCeil a b den = Inr (0, extra, Some ErrOverflow)"
  by (rule MulDivCeil_spec')

lemma MulDiv_defined:
  assumes "den \<noteq> 0" and "unat a * unat b div unat den < 18446744073709551616"
  obtains q r where "MulDiv a b den = Inr (q, r, None)"
    and "unat q = unat a * unat b div unat den" and "unat r = unat a * unat b mod unat den"
  using mulDiv_spec [OF assms(1), of "unat a * unat b" a b False] assms(2)
  by (auto simp: MulDiv_def)

lemma CeilDiv_spec':
  "if den = 0 then CeilDiv num den = Inl (Panic ''divide by zero'')
   else \<exists>q. CeilDiv num den = Inr q \<and> unat q = ceil_div (unat num) (unat den)"
proof (cases "den = 0")
  case True
  then show ?thesis by (simp add: CeilDiv_def Div64_def Add64_def Let_def)
next
  case False
  then have d: "0 < unat den" by (simp add: unat_pos_iff)
  obtain lo hi where a: "Add64 num (den - 1) 0 = (lo, hi)" by fastforce
  have v: "unat hi * 18446744073709551616 + unat lo = unat num + (unat den - 1)"
    using Add64_value [OF a] False by (simp add: unat_minus_1_u64)
  then have "unat hi < unat den"
    using d unat_le_max [of num] unat_le_max [of den] by linarith
  then obtain q r where "Div64 hi lo den = Inr (q, r)"
    and "unat q = (unat num + (unat den - 1)) div unat den"
    using Div64_value [OF v] by blast
  then show ?thesis using False a by (simp add: CeilDiv_def ceil_div_def)
qed

text \<open>\<open>CeilDiv\<close> returns the rounded-up quotient for every non-zero divisor, and panics
  exactly on a zero divisor; the other panic of \<open>Div64\<close> is unreachable.\<close>

theorem CeilDiv_spec:
  "if den = 0 then CeilDiv num den = Inl (Panic ''divide by zero'')
   else \<exists>q. CeilDiv num den = Inr q \<and> unat q = ceil_div (unat num) (unat den)"
  by (rule CeilDiv_spec')

end
