(* ===== verification/Proxytime.thy ===== *)
theory Proxytime
  imports Intmath
begin

text \<open>
  Package \<^verbatim>\<open>proxytime\<close> (\<^verbatim>\<open>src/proxytime/proxytime.go\<close>): time measured in units of a
  proxy resource, \<open>hertz\<close> units to the second. \<open>Time[D]\<close> is the record \<open>ptime\<close> (its
  \<^verbatim>\<open>canotoData\<close> field, a cached encoding size, carries no information); a method with a
  pointer receiver returns the updated record, inside \<open>res\<close> where the Go code can panic.

  The abstract view of a clock is the number of units since the epoch, \<open>ticks\<close>, and the
  exact rational instant \<open>instant\<close>. Under the documented invariant
  \<^verbatim>\<open>fraction < hertz\<close> every operation is shown to be the corresponding operation on those.
\<close>

section \<open>State and operations\<close>

record ptime =
  seconds :: u64
  fraction :: u64
  hertz :: u64

record frac_sec =
  Numerator :: u64
  Denominator :: u64

definition proxytime_Clone :: "ptime \<Rightarrow> ptime" where
  "proxytime_Clone tm = \<lparr>seconds = seconds tm, fraction = fraction tm, hertz = hertz tm\<rparr>"

definition proxytime_New :: "u64 \<Rightarrow> u64 \<Rightarrow> ptime" where
  "proxytime_New unixSeconds hz = \<lparr>seconds = unixSeconds, fraction = 0, hertz = hz\<rparr>"

definition proxytime_Unix :: "ptime \<Rightarrow> u64" where
  "proxytime_Unix tm = seconds tm"

definition proxytime_Fraction :: "ptime \<Rightarrow> frac_sec" where
  "proxytime_Fraction tm = \<lparr>Numerator = fraction tm, Denominator = hertz tm\<rparr>"

definition FractionalSecond_Compare :: "frac_sec \<Rightarrow> frac_sec \<Rightarrow> int" where
  "FractionalSecond_Compare f g =
     (let (fHi, fLo) = Mul64 (Numerator f) (Denominator g);
          (gHi, gLo) = Mul64 (Numerator g) (Denominator f);
          c = go_cmp fHi gHi
      in if c \<noteq> 0 then c else go_cmp fLo gLo)"

definition proxytime_Rate :: "ptime \<Rightarrow> u64" where
  "proxytime_Rate tm = hertz tm"

definition proxytime_Tick :: "ptime \<Rightarrow> u64 \<Rightarrow> ptime res" where
  "proxytime_Tick tm d =
     (let (frac, carry) = Add64 (fraction tm) d 0
      in res_bind (Div64 carry frac (hertz tm))
           (\<lambda>(quo, rem). Inr (tm\<lparr>seconds := seconds tm + quo, fraction := rem\<rparr>)))"

definition proxytime_Of :: "gotime \<Rightarrow> ptime res" where
  "proxytime_Of t =
     (let hz = 1000000000; tm = proxytime_New (word_of_int (Time_Unix t)) hz
      in proxytime_Tick tm (word_of_int (Time_Nanosecond t)))"

definition proxytime_isFuture :: "ptime \<Rightarrow> u64 \<Rightarrow> u64 \<Rightarrow> bool" where
  "proxytime_isFuture tm sec num =
     (if sec \<noteq> seconds tm then sec > seconds tm else num > fraction tm)"

definition proxytime_FastForwardTo :: "ptime \<Rightarrow> u64 \<Rightarrow> u64 \<Rightarrow> (u64 \<times> frac_sec \<times> ptime) res" where
  "proxytime_FastForwardTo tm to0 toFrac0 =
     res_bind (go_div toFrac0 (hertz tm)) (\<lambda>extra.
     res_bind (go_mod toFrac0 (hertz tm)) (\<lambda>toFrac.
     let to = to0 + extra
     in if \<not> proxytime_isFuture tm to toFrac
        then Inr (0, \<lparr>Numerator = 0, Denominator = hertz tm\<rparr>, tm)
        else
          let ffSec = to - seconds tm;
              (ffSec, num) =
                (if fraction tm > toFrac
                 then (ffSec - 1, hertz tm - (fraction tm - toFrac))
                 else (ffSec, toFrac - fraction tm))
          in Inr (ffSec, \<lparr>Numerator = num, Denominator = hertz tm\<rparr>,
                  tm\<lparr>seconds := to, fraction := toFrac\<rparr>)))"

definition ConvertMilliseconds :: "u64 \<Rightarrow> u64 \<Rightarrow> (u64 \<times> frac_sec) res" where
  "ConvertMilliseconds rate ms =
     (let sec = ms div 1000; ms' = ms mod 1000
      in res_bind (MulDiv ms' rate 1000) (\<lambda>(num, _, _).
           Inr (sec, \<lparr>Numerator = num, Denominator = rate\<rparr>)))"

definition proxytime_Scale :: "ptime \<Rightarrow> u64 \<Rightarrow> u64 \<Rightarrow> (u64 \<times> go_error option) res" where
  "proxytime_Scale tm val newRate =
     res_bind (MulDivCeil val newRate (hertz tm)) (\<lambda>(scaled, _, err).
       Inr (case err of Some e \<Rightarrow> (0, Some e) | None \<Rightarrow> (scaled, None)))"

definition proxytime_scaleFraction :: "ptime \<Rightarrow> u64 \<Rightarrow> u64 res" where
  "proxytime_scaleFraction tm newRate =
     res_bind (proxytime_Scale tm (fraction tm) newRate) (\<lambda>(f, err).
       case err of Some e \<Rightarrow> Inl (Panic ''broken invariant'') | None \<Rightarrow> Inr f)"

definition proxytime_SetRate :: "ptime \<Rightarrow> u64 \<Rightarrow> ptime res" where
  "proxytime_SetRate tm hz =
     res_bind (proxytime_scaleFraction tm hz) (\<lambda>frac.
       let (frac, secs) = (if frac \<ge> hz then (frac - hz, seconds tm + 1) else (frac, seconds tm))
       in Inr (tm\<lparr>seconds := secs, fraction := frac, hertz := hz\<rparr>))"

definition proxytime_Sub :: "ptime \<Rightarrow> u64 \<Rightarrow> ptime" where
  "proxytime_Sub tm s = \<lparr>seconds = seconds tm - s, fraction = fraction tm, hertz = hertz tm\<rparr>"

definition proxytime_Compare :: "ptime \<Rightarrow> ptime \<Rightarrow> int" where
  "proxytime_Compare tm u =
     (let c = go_cmp (seconds tm) (seconds u)
      in if c \<noteq> 0 then c
         else FractionalSecond_Compare (proxytime_Fraction tm) (proxytime_Fraction u))"

definition proxytime_CompareUnix :: "ptime \<Rightarrow> u64 \<Rightarrow> int" where
  "proxytime_CompareUnix tm sec =
     proxytime_Compare tm \<lparr>seconds = sec, fraction = 0, hertz = hertz tm\<rparr>"

definition proxytime_AsTime :: "ptime \<Rightarrow> gotime res" where
  "proxytime_AsTime tm =
     (if unat (seconds tm) > 2 ^ 63 - 1 then Inr (time_Unix (2 ^ 63 - 1) (2 ^ 63 - 1))
      else res_bind (proxytime_scaleFraction tm 1000000000) (\<lambda>f.
             Inr (time_Unix (sint (seconds tm)) (sint f))))"

section \<open>Abstract view\<close>

definition ptime_inv :: "ptime \<Rightarrow> bool" where
  "ptime_inv tm \<longleftrightarrow> fraction tm < hertz tm"

definition ticks :: "ptime \<Rightarrow> nat" where
  "ticks tm = unat (seconds tm) * unat (hertz tm) + unat (fraction tm)"

definition instant :: "ptime \<Rightarrow> rat" where
  "instant tm = rat_of_nat (ticks tm) / rat_of_nat (unat (hertz tm))"

named_theorems ptime_defs \<open>unfolding rules for the accessors of a proxy time\<close>
declare proxytime_Clone_def [ptime_defs] proxytime_New_def [ptime_defs]
  proxytime_Unix_def [ptime_defs] proxytime_Fraction_def [ptime_defs]
  proxytime_Rate_def [ptime_defs]

lemma ptime_inv_hertz: "ptime_inv tm \<Longrightarrow> 0 < unat (hertz tm)"
  by (simp add: ptime_inv_def u64_nat)

lemma ptime_inv_unat: "ptime_inv tm \<longleftrightarrow> unat (fraction tm) < unat (hertz tm)"
  by (simp add: ptime_inv_def u64_nat)

lemma ticks_seconds: "ptime_inv tm \<Longrightarrow> ticks tm div unat (hertz tm) = unat (seconds tm)"
  by (simp add: ticks_def ptime_inv_unat)

lemma ticks_fraction: "ptime_inv tm \<Longrightarrow> ticks tm mod unat (hertz tm) = unat (fraction tm)"
  by (simp add: ticks_def ptime_inv_unat)

lemma ptime_eq_ticks:
  "ptime_inv t \<Longrightarrow> ptime_inv u \<Longrightarrow> hertz t = hertz u \<Longrightarrow> ticks t = ticks u \<Longrightarrow> t = (u :: ptime)"
  using ticks_seconds [of t] ticks_seconds [of u] ticks_fraction [of t] ticks_fraction [of u]
  by (simp add: u64_eq_iff)

lemma lex_ticks_less:
  fixes h s s' f f' :: nat
  assumes "f < h"
  shows "s < s' \<Longrightarrow> s * h + f < s' * h + f'"
proof -
  assume "s < s'"
  then have "(s + 1) * h \<le> s' * h" by (intro mult_le_mono1) simp
  then show ?thesis using assms by (simp add: add_mult_distrib)
qed

lemma lex_ticks_less_iff:
  fixes h s s' f f' :: nat
  assumes "f < h" and "f' < h"
  shows "s * h + f < s' * h + f' \<longleftrightarrow> s < s' \<or> s = s' \<and> f < f'"
  using lex_ticks_less [OF assms(1), of s s' f'] lex_ticks_less [OF assms(2), of s' s f]
  by (metis add_less_cancel_left less_asym' linorder_neqE_nat)

section \<open>Advancing a clock\<close>

lemma Tick_value:
  assumes "ptime_inv tm"
  obtains q where "proxytime_Tick tm d = Inr (tm\<lparr>seconds := seconds tm + q,
        fraction := (word_of_nat ((unat (fraction tm) + unat d) mod unat (hertz tm)))\<rparr>)"
    and "unat q = (unat (fraction tm) + unat d) div unat (hertz tm)"
proof -
  obtain frac c where a: "Add64 (fraction tm) d 0 = (frac, c)" by fastforce
  have v: "unat c * 18446744073709551616 + unat frac = unat (fraction tm) + unat d"
    using Add64_value [OF a] by simp
  then have lt: "unat c < unat (hertz tm)"
    using assms unat_le_max [of d] unat_le_max [of "hertz tm"]
    unfolding ptime_inv_unat by linarith
  obtain q r where "Div64 c frac (hertz tm) = Inr (q, r)"
    and q: "unat q = (unat (fraction tm) + unat d) div unat (hertz tm)"
    and "unat r = (unat (fraction tm) + unat d) mod unat (hertz tm)"
    using Div64_value [OF v lt] .
  moreover from this have "r = word_of_nat ((unat (fraction tm) + unat d) mod unat (hertz tm))"
    by (metis of_nat_unat ucast_id)
  ultimately show thesis using that [of q] a q by (simp add: proxytime_Tick_def)
qed

lemma unat_word_of_nat_mod: "0 < unat h \<Longrightarrow> unat (word_of_nat (n mod unat h) :: u64) = n mod unat h"
  for h :: u64
  by (rule unat_word_of_nat_u64) (metis less_trans mod_less_divisor unat_lt_2_64)

lemma Tick_ticks:
  assumes "ptime_inv tm" and "(ticks tm + unat d) div unat (hertz tm) < 2 ^ 64"
  obtains tm' where "proxytime_Tick tm d = Inr tm'" and "ptime_inv tm'"
    and "hertz tm' = hertz tm" and "ticks tm' = ticks tm + unat d"
proof -
  define n where "n = unat (fraction tm) + unat d"
  have h: "0 < unat (hertz tm)" using assms(1) by (rule ptime_inv_hertz)
  obtain q where t: "proxytime_Tick tm d = Inr (tm\<lparr>seconds := seconds tm + q,
        fraction := (word_of_nat (n mod unat (hertz tm)))\<rparr>)"
    and q: "unat q = n div unat (hertz tm)"
    using Tick_value [OF assms(1), of d] unfolding n_def .
  have "(ticks tm + unat d) div unat (hertz tm) = unat (seconds tm) + unat q"
    using h q by (simp add: ticks_def n_def add.assoc)
  then have s: "unat (seconds tm + q) = unat (seconds tm) + unat q"
    using assms(2) by (intro unat_add_u64) simp
  have f: "unat (word_of_nat (n mod unat (hertz tm)) :: u64) = n mod unat (hertz tm)"
    using h by (rule unat_word_of_nat_mod)
  show thesis
  proof (rule that [OF t])
    show "ptime_inv (tm\<lparr>seconds := seconds tm + q,
        fraction := word_of_nat (n mod unat (hertz tm))\<rparr>)"
      using f h by (simp add: ptime_inv_unat)
    have "unat q * unat (hertz tm) + n mod unat (hertz tm) = n" using q by simp
    then show "ticks (tm\<lparr>seconds := seconds tm + q,
        fraction := word_of_nat (n mod unat (hertz tm))\<rparr>) = ticks tm + unat d"
      using f s by (simp add: ticks_def n_def add_mult_distrib)
  qed simp
qed

text \<open>\<open>Tick\<close> keeps the invariant, never panics under it, leaves the rate alone and advances
  the exact instant by precisely \<open>d / rate\<close> seconds: no unit is lost to rounding. The
  hypothesis excludes a clock past the year 584 billion, where the seconds wrap.\<close>

theorem Tick_instant:
  assumes "ptime_inv tm" and "(ticks tm + unat d) div unat (hertz tm) < 2 ^ 64"
  shows "\<exists>tm'. proxytime_Tick tm d = Inr tm' \<and> ptime_inv tm' \<and> hertz tm' = hertz tm
    \<and> instant tm' = instant tm + of_nat (unat d) / of_nat (unat (hertz tm))"
proof -
  obtain tm' where "proxytime_Tick tm d = Inr tm'" "ptime_inv tm'" "hertz tm' = hertz tm"
    "ticks tm' = ticks tm + unat d"
    using Tick_ticks [OF assms] .
  then show ?thesis by (simp add: instant_def add_divide_distrib)
qed

theorem Tick_instant_witness:
  "\<exists>tm'. proxytime_Tick \<lparr>seconds = 7, fraction = 9, hertz = 10\<rparr> 25 = Inr tm' \<and> ptime_inv tm'
    \<and> hertz tm' = 10 \<and> instant tm' = instant \<lparr>seconds = 7, fraction = 9, hertz = 10\<rparr> + 5 / 2"
  using Tick_instant [of "\<lparr>seconds = 7, fraction = 9, hertz = 10\<rparr>" 25]
  by (simp add: ptime_inv_def ticks_def)

lemma Tick_never_panics: "ptime_inv tm \<Longrightarrow> \<exists>tm'. proxytime_Tick tm d = Inr tm' \<and> ptime_inv tm'
    \<and> hertz tm' = hertz tm"
proof -
  assume inv: "ptime_inv tm"
  then obtain q where t: "proxytime_Tick tm d = Inr (tm\<lparr>seconds := seconds tm + q,
        fraction := (word_of_nat ((unat (fraction tm) + unat d) mod unat (hertz tm)))\<rparr>)"
    using Tick_value by blast
  show ?thesis
    using t inv by (simp add: ptime_inv_unat unat_word_of_nat_mod)
qed

section \<open>Comparing clocks\<close>

lemma Mul64_compare:
  assumes "Mul64 a b = (h, l)" and "Mul64 c d = (h', l')"
  shows "(if go_cmp h h' \<noteq> 0 then go_cmp h h' else go_cmp l l') =
    go_cmp (unat a * unat b) (unat c * unat d)"
  using lex_ticks_less_iff [OF unat_lt_2_64 [of l] unat_lt_2_64 [of l'], of "unat h" "unat h'"]
    lex_ticks_less_iff [OF unat_lt_2_64 [of l'] unat_lt_2_64 [of l], of "unat h'" "unat h"]
    Mul64_value [OF assms(1)] Mul64_value [OF assms(2)]
  by (auto simp: go_cmp_def u64_less_iff u64_eq_iff split: if_splits)

lemma FractionalSecond_Compare_cross:
  "FractionalSecond_Compare f g =
     go_cmp (unat (Numerator f) * unat (Denominator g)) (unat (Numerator g) * unat (Denominator f))"
proof -
  obtain h l h' l' where "Mul64 (Numerator f) (Denominator g) = (h, l)"
    and "Mul64 (Numerator g) (Denominator f) = (h', l')" by fastforce
  then show ?thesis using Mul64_compare by (simp add: FractionalSecond_Compare_def)
qed

lemma go_cmp_cong:
  "(a < b \<longleftrightarrow> c < d) \<Longrightarrow> (a = b \<longleftrightarrow> c = d) \<Longrightarrow> go_cmp a b = go_cmp c d"
  by (simp add: go_cmp_def)

text \<open>Scaling both clocks to the common rate \<open>hertz t * hertz u\<close> makes them comparable.\<close>

lemma Compare_ticks:
  assumes "ptime_inv t" and "ptime_inv u"
  shows "proxytime_Compare t u =
    go_cmp (ticks t * unat (hertz u)) (ticks u * unat (hertz t))"
proof -
  define h where "h = unat (hertz t) * unat (hertz u)"
  define f where "f = unat (fraction t) * unat (hertz u)"
  define g where "g = unat (fraction u) * unat (hertz t)"
  have lt: "f < h" "g < h"
    using assms ptime_inv_hertz [of t] ptime_inv_hertz [of u]
    by (simp_all add: f_def g_def h_def ptime_inv_unat mult.commute)
  have e: "ticks t * unat (hertz u) = unat (seconds t) * h + f"
    "ticks u * unat (hertz t) = unat (seconds u) * h + g"
    by (simp_all add: ticks_def f_def g_def h_def algebra_simps)
  have "proxytime_Compare t u =
      (if seconds t \<noteq> seconds u then go_cmp (seconds t) (seconds u) else go_cmp f g)"
    by (simp add: proxytime_Compare_def FractionalSecond_Compare_cross f_def g_def ptime_defs Let_def)
  also have "\<dots> = go_cmp (unat (seconds t) * h + f) (unat (seconds u) * h + g)"
    using lex_ticks_less_iff [OF lt, of "unat (seconds t)" "unat (seconds u)"]
      lex_ticks_less_iff [OF lt(2,1), of "unat (seconds u)" "unat (seconds t)"]
    by (auto simp: go_cmp_def u64_less_iff u64_eq_iff split: if_splits)
  finally show ?thesis by (simp add: e)
qed

lemma rat_quotient_less_iff:
  fixes a b c d :: nat
  assumes "0 < b" and "0 < d"
  shows "rat_of_nat a / rat_of_nat b < rat_of_nat c / rat_of_nat d \<longleftrightarrow> a * d < c * b"
proof -
  have "rat_of_nat a / rat_of_nat b < rat_of_nat c / rat_of_nat d \<longleftrightarrow>
      rat_of_nat a * rat_of_nat d < rat_of_nat c * rat_of_nat b"
    using assms by (simp add: divide_simps)
  then show ?thesis unfolding of_nat_mult [symmetric] of_nat_less_iff .
qed

lemma instant_less_iff:
  assumes "ptime_inv t" and "ptime_inv u"
  shows "instant t < instant u \<longleftrightarrow> ticks t * unat (hertz u) < ticks u * unat (hertz t)"
  unfolding instant_def
  by (rule rat_quotient_less_iff) (use assms in \<open>simp_all only: ptime_inv_hertz\<close>)

lemma instant_eq_iff:
  assumes "ptime_inv t" and "ptime_inv u"
  shows "instant t = instant u \<longleftrightarrow> ticks t * unat (hertz u) = ticks u * unat (hertz t)"
  using instant_less_iff [OF assms] instant_less_iff [OF assms(2,1)]
  by (metis linorder_neqE less_irrefl)

text \<open>\<open>Compare\<close> orders two clocks exactly as their rational instants are ordered, whatever
  their rates: cross-multiplication in 128 bits loses nothing.\<close>

theorem Compare_instant:
  assumes "ptime_inv t" and "ptime_inv u"
  shows "proxytime_Compare t u = go_cmp (instant t) (instant u)"
  unfolding Compare_ticks [OF assms]
  by (rule go_cmp_cong) (simp_all add: instant_less_iff instant_eq_iff assms)

theorem Compare_instant_witness:
  "proxytime_Compare \<lparr>seconds = 3, fraction = 1, hertz = 3\<rparr> \<lparr>seconds = 3, fraction = 2, hertz = 5\<rparr>
    = go_cmp (instant \<lparr>seconds = 3, fraction = 1, hertz = 3\<rparr>)
        (instant \<lparr>seconds = 3, fraction = 2, hertz = 5\<rparr>)"
  by (rule Compare_instant) (simp_all add: ptime_inv_def)

section \<open>Fast-forwarding\<close>

lemma isFuture_ticks:
  assumes "ptime_inv tm" and "unat num < unat (hertz tm)"
  shows "proxytime_isFuture tm sec num \<longleftrightarrow>
    ticks tm < unat sec * unat (hertz tm) + unat num"
  using lex_ticks_less_iff [of "unat (fraction tm)" "unat (hertz tm)" "unat num"
      "unat (seconds tm)" "unat sec"] assms
  by (auto simp: proxytime_isFuture_def ptime_inv_unat ticks_def u64_less_iff u64_eq_iff)

text \<open>The borrow of a second in \<open>FastForwardTo\<close>, on numbers.\<close>

lemma elapsed_split:
  fixes s f h to tf :: nat
  assumes "f < h" and "tf < h" and "s * h + f < to * h + tf"
  shows "f > tf \<Longrightarrow> s < to \<and> (to - s - 1) * h + (h - (f - tf)) + (s * h + f) = to * h + tf"
    and "\<not> f > tf \<Longrightarrow> s \<le> to \<and> (to - s) * h + (tf - f) + (s * h + f) = to * h + tf"
proof -
  have le: "s < to \<or> s = to \<and> f < tf" using assms lex_ticks_less_iff by blast
  show "s < to \<and> (to - s - 1) * h + (h - (f - tf)) + (s * h + f) = to * h + tf" if "f > tf"
  proof
    show "s < to" using le that by simp
    then obtain k where k: "to = s + Suc k" using less_imp_add_positive [of s to] by (metis Suc_pred)
    show "(to - s - 1) * h + (h - (f - tf)) + (s * h + f) = to * h + tf"
      using that assms(1,2) by (simp add: k add_mult_distrib)
  qed
  show "s \<le> to \<and> (to - s) * h + (tf - f) + (s * h + f) = to * h + tf" if "\<not> f > tf"
  proof
    show "s \<le> to" using le by auto
    then obtain k where k: "to = s + k" using le_Suc_ex by blast
    show "(to - s) * h + (tf - f) + (s * h + f) = to * h + tf"
      using that by (simp add: k add_mult_distrib)
  qed
qed

lemma FastForwardTo_ticks:
  assumes inv: "ptime_inv tm" and nowrap: "unat to + unat toFrac div unat (hertz tm) < 2 ^ 64"
  obtains sec num tm' where
    "proxytime_FastForwardTo tm to toFrac =
       Inr (sec, \<lparr>Numerator = num, Denominator = hertz tm\<rparr>, tm')"
    and "ptime_inv tm'" and "hertz tm' = hertz tm"
    and "ticks tm' = max (ticks tm) (unat to * unat (hertz tm) + unat toFrac)"
    and "ticks tm + (unat sec * unat (hertz tm) + unat num) = ticks tm'"
    and "unat num < unat (hertz tm)"
proof -
  let ?h = "unat (hertz tm)"
  define to' tf where "to' = to + toFrac div hertz tm" and "tf = toFrac mod hertz tm"
  have h: "0 < ?h" "hertz tm \<noteq> 0" using ptime_inv_hertz [OF inv] by (auto simp: unat_pos_iff)
  have to': "unat to' = unat to + unat toFrac div ?h"
    using nowrap by (simp add: to'_def unat_add_u64 unat_div_u64)
  have tf: "unat tf = unat toFrac mod ?h" "unat tf < ?h"
    using h by (simp_all add: tf_def unat_mod_u64)
  have target: "unat to' * ?h + unat tf = unat to * ?h + unat toFrac"
    by (simp add: to' tf add_mult_distrib)
  have f: "unat (fraction tm) < ?h" using inv by (simp add: ptime_inv_unat)
  show thesis
  proof (cases "proxytime_isFuture tm to' tf")
    case False
    then have "\<not> ticks tm < unat to' * ?h + unat tf" using isFuture_ticks [OF inv tf(2)] by simp
    moreover have "proxytime_FastForwardTo tm to toFrac =
        Inr (0, \<lparr>Numerator = 0, Denominator = hertz tm\<rparr>, tm)"
      using False h by (simp add: proxytime_FastForwardTo_def go_div_def go_mod_def flip: to'_def tf_def)
    ultimately show thesis using that inv h target by simp
  next
    case True
    then have lt: "unat (seconds tm) * ?h + unat (fraction tm) < unat to' * ?h + unat tf"
      using isFuture_ticks [OF inv tf(2)] by (simp add: ticks_def)
    define new where "new = tm\<lparr>seconds := to', fraction := tf\<rparr>"
    have new: "ptime_inv new" "hertz new = hertz tm" "ticks new = unat to' * ?h + unat tf"
      using tf(2) by (simp_all add: new_def ptime_inv_unat ticks_def)
    define sec where "sec = (if fraction tm > tf then to' - seconds tm - 1 else to' - seconds tm)"
    define num where "num = (if fraction tm > tf then hertz tm - (fraction tm - tf)
      else tf - fraction tm)"
    have eq: "proxytime_FastForwardTo tm to toFrac =
        Inr (sec, \<lparr>Numerator = num, Denominator = hertz tm\<rparr>, new)"
      using True h
      by (simp add: proxytime_FastForwardTo_def go_div_def go_mod_def sec_def num_def new_def Let_def
          flip: to'_def tf_def)
    have el: "ticks tm + (unat sec * ?h + unat num) = ticks new \<and> unat num < ?h"
    proof (cases "fraction tm > tf")
      case gt: True
      note e = elapsed_split(1) [OF f tf(2) lt, unfolded u64_less_iff [symmetric], OF gt]
      have "unat sec = unat to' - unat (seconds tm) - 1"
        using gt e by (simp add: sec_def unat_sub_u64 u64_nat unat_minus_1_u64)
      moreover have "unat num = ?h - (unat (fraction tm) - unat tf)"
        using gt f by (simp add: num_def unat_sub_u64 u64_nat)
      moreover have "unat tf < unat (fraction tm)" using gt by (simp add: u64_nat)
      ultimately show ?thesis
        using conjunct2 [OF e] f unfolding new(3) unfolding ticks_def by simp
    next
      case le: False
      note e = elapsed_split(2) [OF f tf(2) lt, unfolded u64_less_iff [symmetric], OF le]
      have "unat sec = unat to' - unat (seconds tm)"
        using le e by (simp add: sec_def unat_sub_u64 u64_nat)
      moreover have "unat num = unat tf - unat (fraction tm)"
        using le by (simp add: num_def unat_sub_u64 u64_nat)
      ultimately show ?thesis
        using conjunct2 [OF e] tf(2) unfolding new(3) unfolding ticks_def by simp
    qed
    show thesis
      using that [OF eq new(1,2)] el new(3) lt target by (simp add: ticks_def)
  qed
qed

text \<open>C25: \<open>FastForwardTo\<close> keeps the invariant, never panics under it, moves the clock to the
  later of its own and the requested instant (never back), and returns exactly the seconds
  and the fraction of a second by which it moved.\<close>

theorem FastForwardTo_instant:
  assumes "ptime_inv tm" and "unat to + unat toFrac div unat (hertz tm) < 2 ^ 64"
  shows "\<exists>sec frac tm'. proxytime_FastForwardTo tm to toFrac = Inr (sec, frac, tm')
    \<and> ptime_inv tm' \<and> hertz tm' = hertz tm
    \<and> instant tm' = max (instant tm)
         (of_nat (unat to) + of_nat (unat toFrac) / of_nat (unat (hertz tm)))
    \<and> instant tm' - instant tm = of_nat (unat sec)
         + of_nat (unat (Numerator frac)) / of_nat (unat (Denominator frac))
    \<and> Denominator frac = hertz tm \<and> Numerator frac < Denominator frac"
proof -
  let ?h = "rat_of_nat (unat (hertz tm))"
  obtain sec num tm' where r: "proxytime_FastForwardTo tm to toFrac =
       Inr (sec, \<lparr>Numerator = num, Denominator = hertz tm\<rparr>, tm')"
    and i: "ptime_inv tm'" "hertz tm' = hertz tm"
    and m: "ticks tm' = max (ticks tm) (unat to * unat (hertz tm) + unat toFrac)"
    and e: "ticks tm + (unat sec * unat (hertz tm) + unat num) = ticks tm'"
    and n: "unat num < unat (hertz tm)"
    using FastForwardTo_ticks [OF assms] .
  have h: "0 < ?h" using ptime_inv_hertz [OF assms(1)] by simp
  have "instant tm' = max (instant tm) (rat_of_nat (unat to * unat (hertz tm) + unat toFrac) / ?h)"
    using h by (simp only: instant_def i m of_nat_max max_divide_distrib_right) simp
  moreover have "rat_of_nat (unat to * unat (hertz tm) + unat toFrac) / ?h =
      of_nat (unat to) + of_nat (unat toFrac) / ?h"
    using h by (simp only: of_nat_add of_nat_mult add_divide_distrib) simp
  moreover have "rat_of_nat (ticks tm') =
      rat_of_nat (ticks tm) + rat_of_nat (unat sec) * ?h + rat_of_nat (unat num)"
    by (simp only: e [symmetric] of_nat_add of_nat_mult add.assoc)
  then have "instant tm' - instant tm = of_nat (unat sec) + of_nat (unat num) / ?h"
    using h by (simp only: instant_def i add_divide_distrib) simp
  ultimately show ?thesis using r i n by (simp add: u64_less_iff)
qed

theorem FastForwardTo_instant_witness:
  "\<exists>sec frac tm'. proxytime_FastForwardTo \<lparr>seconds = 7, fraction = 9, hertz = 10\<rparr> 9 3 =
      Inr (sec, frac, tm') \<and> ptime_inv tm' \<and> hertz tm' = 10
    \<and> instant tm' = max (instant \<lparr>seconds = 7, fraction = 9, hertz = 10\<rparr>) (93 / 10)"
  using FastForwardTo_instant [of "\<lparr>seconds = 7, fraction = 9, hertz = 10\<rparr>" 9 3]
  by (auto simp: ptime_inv_def)

section \<open>Changing the rate\<close>

lemma Scale_defined:
  assumes "ptime_inv tm" and "ceil_div (unat v * unat r) (unat (hertz tm)) < 2 ^ 64"
  obtains x where "proxytime_Scale tm v r = Inr (x, None)"
    and "unat x = ceil_div (unat v * unat r) (unat (hertz tm))"
  using MulDivCeil_spec' [of "hertz tm" v r] assms ptime_inv_hertz [OF assms(1)]
  by (auto simp: proxytime_Scale_def unat_pos_iff)

lemma Scale_overflow:
  assumes "\<not> ceil_div (unat v * unat r) (unat (hertz tm)) < 2 ^ 64"
  shows "proxytime_Scale tm v r = Inr (0, Some ErrOverflow)"
  using MulDivCeil_spec' [of "hertz tm" v r] assms by (auto simp: proxytime_Scale_def)

lemma scaled_fraction_le:
  assumes "ptime_inv tm"
  shows "ceil_div (unat (fraction tm) * n) (unat (hertz tm)) \<le> n"
  using assms ptime_inv_hertz [OF assms]
  by (intro ceil_div_le) (simp_all add: ptime_inv_unat mult.commute)

lemma scaleFraction_value:
  assumes "ptime_inv tm"
  obtains f where "proxytime_scaleFraction tm r = Inr f"
    and "unat f = ceil_div (unat (fraction tm) * unat r) (unat (hertz tm))"
proof -
  have lt: "ceil_div (unat (fraction tm) * unat r) (unat (hertz tm)) < 2 ^ 64"
    using scaled_fraction_le [OF assms, of "unat r"] unat_lt_2_64 [of r] by simp
  obtain x where "proxytime_Scale tm (fraction tm) r = Inr (x, None)"
    and "unat x = ceil_div (unat (fraction tm) * unat r) (unat (hertz tm))"
    using Scale_defined [OF assms lt] .
  then show thesis using that by (simp add: proxytime_scaleFraction_def)
qed

lemma ticks_rescaled:
  "ptime_inv tm \<Longrightarrow> ceil_div (ticks tm * r) (unat (hertz tm)) =
     unat (seconds tm) * r + ceil_div (unat (fraction tm) * r) (unat (hertz tm))"
  using ceil_div_add_mult [of "unat (hertz tm)" "unat (seconds tm) * r" "unat (fraction tm) * r"]
    ptime_inv_hertz [of tm]
  by (simp add: ticks_def algebra_simps)

lemma SetRate_ticks:
  assumes inv: "ptime_inv tm" and hz: "hz \<noteq> 0" and nowrap: "seconds tm \<noteq> MaxUint64"
  obtains tm' where "proxytime_SetRate tm hz = Inr tm'" and "ptime_inv tm'" and "hertz tm' = hz"
    and "ticks tm' = ceil_div (ticks tm * unat hz) (unat (hertz tm))"
proof -
  obtain f where f: "proxytime_scaleFraction tm hz = Inr f"
    and uf: "unat f = ceil_div (unat (fraction tm) * unat hz) (unat (hertz tm))"
    using scaleFraction_value [OF inv] .
  have le: "unat f \<le> unat hz" using uf scaled_fraction_le [OF inv] by simp
  have t: "ceil_div (ticks tm * unat hz) (unat (hertz tm)) =
      unat (seconds tm) * unat hz + unat f" using ticks_rescaled [OF inv] uf by simp
  show thesis
  proof (cases "f \<ge> hz")
    case True
    then have e: "unat f = unat hz" "f = hz" using le by (simp_all add: u64_le_iff u64_eq_iff)
    have "unat (seconds tm) + 1 < 2 ^ 64"
      using nowrap unat_lt_2_64 [of "seconds tm"] by (simp add: u64_eq_iff)
    then have "unat (seconds tm + 1) = unat (seconds tm) + 1" by (simp add: unat_add_u64)
    then show thesis
      using that [of "tm\<lparr>seconds := seconds tm + 1, fraction := 0, hertz := hz\<rparr>"] f e hz t
      by (simp add: proxytime_SetRate_def ptime_inv_def ticks_def word_neq_0_conv)
  next
    case False
    then show thesis
      using that [of "tm\<lparr>fraction := f, hertz := hz\<rparr>"] f t
      by (simp add: proxytime_SetRate_def ptime_inv_def ticks_def)
  qed
qed

lemma SetRate_instant':
  assumes "ptime_inv tm" and "hz \<noteq> 0" and "seconds tm \<noteq> MaxUint64"
  shows "\<exists>tm'. proxytime_SetRate tm hz = Inr tm' \<and> ptime_inv tm' \<and> hertz tm' = hz
    \<and> instant tm \<le> instant tm' \<and> instant tm' < instant tm + 1 / of_nat (unat hz)"
proof -
  obtain tm' where r: "proxytime_SetRate tm hz = Inr tm'" "ptime_inv tm'" "hertz tm' = hz"
    and t: "ticks tm' = ceil_div (ticks tm * unat hz) (unat (hertz tm))"
    using SetRate_ticks [OF assms] .
  have h: "0 < unat (hertz tm)" "0 < unat hz"
    using ptime_inv_hertz [OF assms(1)] assms(2) by (simp_all add: unat_pos_iff)
  have "\<not> instant tm' < instant tm"
    using instant_less_iff [OF r(2) assms(1)] ceil_div_mult_ge [OF h(1), of "ticks tm * unat hz"]
    by (simp add: t r not_less)
  moreover have "instant tm' < instant tm + 1 / of_nat (unat hz)"
  proof -
    have "rat_of_nat (ticks tm' * unat (hertz tm)) < rat_of_nat (ticks tm * unat hz + unat (hertz tm))"
      unfolding of_nat_less_iff t by (rule ceil_div_mult_lt [OF h(1)])
    then show ?thesis using h by (simp add: instant_def r field_simps)
  qed
  ultimately show ?thesis using r by (auto simp: not_less)
qed

text \<open>\<open>SetRate\<close> never panics under the invariant (the scaling overflow it guards against
  cannot happen), keeps the invariant at the new rate, never moves the clock back, and moves
  it forward by less than one unit of the new rate.\<close>

theorem SetRate_instant:
  assumes "ptime_inv tm" and "hz \<noteq> 0" and "seconds tm \<noteq> MaxUint64"
  shows "\<exists>tm'. proxytime_SetRate tm hz = Inr tm' \<and> ptime_inv tm' \<and> hertz tm' = hz
    \<and> instant tm \<le> instant tm' \<and> instant tm' < instant tm + 1 / of_nat (unat hz)"
  using assms by (rule SetRate_instant')

theorem SetRate_instant_witness:
  "\<exists>tm'. proxytime_SetRate \<lparr>seconds = 7, fraction = 9, hertz = 10\<rparr> 2 = Inr tm' \<and> ptime_inv tm'
    \<and> hertz tm' = 2 \<and> instant \<lparr>seconds = 7, fraction = 9, hertz = 10\<rparr> \<le> instant tm'"
  using SetRate_instant [of "\<lparr>seconds = 7, fraction = 9, hertz = 10\<rparr>" 2]
  by (auto simp: ptime_inv_def)

text \<open>The scaled fraction can reach the new rate, so the carry in \<open>SetRate\<close> is live code.\<close>

lemma scaleFraction_reaches_rate:
  "ptime_inv \<lparr>seconds = 7, fraction = 9, hertz = 10\<rparr>
   \<and> proxytime_scaleFraction \<lparr>seconds = 7, fraction = 9, hertz = 10\<rparr> 2 = Inr 2"
proof -
  obtain f where "proxytime_scaleFraction \<lparr>seconds = 7, fraction = 9, hertz = 10\<rparr> 2 = Inr f"
    and "unat f = ceil_div 18 10"
    using scaleFraction_value [of "\<lparr>seconds = 7, fraction = 9, hertz = 10\<rparr>" 2]
    by (auto simp: ptime_inv_def)
  then show ?thesis by (simp add: ptime_inv_def ceil_div_def u64_eq_iff)
qed

section \<open>Conversions\<close>

lemma Of_ticks:
  assumes "0 \<le> t" and "Time_Unix t < 2 ^ 64"
  obtains tm where "proxytime_Of t = Inr tm" and "ptime_inv tm" and "hertz tm = 1000000000"
    and "int (ticks tm) = t"
proof -
  define tm where "tm = proxytime_New (word_of_int (Time_Unix t)) 1000000000"
  have s: "unat (seconds tm) = nat (t div 1000000000)"
    using assms by (simp add: tm_def ptime_defs Time_Unix_def time_Second_def unat_word_of_int_u64)
  have n: "unat (word_of_int (Time_Nanosecond t) :: u64) = nat (t mod 1000000000)"
    by (subst unat_word_of_int_u64)
      (simp_all add: Time_Nanosecond_def time_Second_def order_less_trans [of _ 1000000000])
  have inv: "ptime_inv tm" by (simp add: tm_def ptime_defs ptime_inv_def)
  have h: "hertz tm = 1000000000" "fraction tm = 0" by (simp_all add: tm_def ptime_defs)
  have "int (ticks tm + unat (word_of_int (Time_Nanosecond t) :: u64)) = t"
    using assms(1) by (simp add: ticks_def s n h pos_imp_zdiv_nonneg_iff)
  then have tot: "ticks tm + unat (word_of_int (Time_Nanosecond t) :: u64) = nat t" by linarith
  have "nat t div 1000000000 = nat (t div 1000000000)"
    using assms(1) by (simp add: nat_div_distrib)
  then have "nat t div 1000000000 < 2 ^ 64"
    using assms by (simp add: Time_Unix_def time_Second_def)
  then obtain tm' where "proxytime_Tick tm (word_of_int (Time_Nanosecond t)) = Inr tm'"
    "ptime_inv tm'" "hertz tm' = hertz tm" "ticks tm' = nat t"
    using Tick_ticks [OF inv, of "word_of_int (Time_Nanosecond t)"] tot h by (auto simp: tot)
  then show thesis
    using that [of tm'] assms(1) h by (simp add: proxytime_Of_def Let_def flip: tm_def)
qed

lemma AsTime_value:
  assumes "ptime_inv tm" and "unat (seconds tm) < 2 ^ 63"
  shows "proxytime_AsTime tm = Inr (int (ceil_div (ticks tm * 1000000000) (unat (hertz tm))))"
proof -
  obtain f where f: "proxytime_scaleFraction tm 1000000000 = Inr f"
    and u: "unat f = ceil_div (unat (fraction tm) * 1000000000) (unat (hertz tm))"
    using scaleFraction_value [OF assms(1), of 1000000000] by auto
  have "unat f \<le> 1000000000" using u scaled_fraction_le [OF assms(1)] by simp
  then have "sint f = int (unat f)" by (intro sint_u64_small) simp
  then show ?thesis
    using f u assms(2) ticks_rescaled [OF assms(1), of 1000000000]
    by (simp add: proxytime_AsTime_def time_Unix_def time_Second_def sint_u64_small)
qed

text \<open>Converting a wall-clock time to a proxy time and back is the identity for every time
  from the epoch up to the \<^verbatim>\<open>int64\<close> seconds limit: nanosecond resolution loses nothing.\<close>

theorem Of_AsTime_roundtrip:
  assumes "0 \<le> t" and "Time_Unix t < 2 ^ 63"
  shows "\<exists>tm. proxytime_Of t = Inr tm \<and> ptime_inv tm \<and> proxytime_AsTime tm = Inr t"
proof -
  obtain tm where tm: "proxytime_Of t = Inr tm" "ptime_inv tm" "hertz tm = 1000000000"
    "int (ticks tm) = t"
    using Of_ticks [of t] assms by auto
  have "int (unat (seconds tm)) = t div 1000000000"
    using ticks_seconds [OF tm(2)] tm(3,4) by (auto simp: zdiv_int)
  then have "unat (seconds tm) < 2 ^ 63"
    using assms by (simp add: Time_Unix_def time_Second_def)
  then show ?thesis using AsTime_value [OF tm(2)] tm by simp
qed

theorem Of_AsTime_roundtrip_witness:
  "\<exists>tm. proxytime_Of 1234567890123456789 = Inr tm \<and> ptime_inv tm
    \<and> proxytime_AsTime tm = Inr 1234567890123456789"
  by (rule Of_AsTime_roundtrip) (simp_all add: Time_Unix_def time_Second_def)

text \<open>\<open>ConvertMilliseconds\<close> never panics and splits the duration exactly into whole seconds
  and a fraction in \<open>[0, 1)\<close> of the given rate, rounded down by less than one unit.\<close>

theorem ConvertMilliseconds_spec:
  "\<exists>sec frac. ConvertMilliseconds rate ms = Inr (sec, frac)
     \<and> unat sec = unat ms div 1000 \<and> Denominator frac = rate
     \<and> unat (Numerator frac) = unat ms mod 1000 * unat rate div 1000
     \<and> (rate \<noteq> 0 \<longrightarrow> Numerator frac < rate)"
proof -
  have "unat ms mod 1000 * unat rate \<le> 1000 * unat rate" by (intro mult_le_mono1) simp
  then have "unat ms mod 1000 * unat rate div 1000 \<le> unat rate" by linarith
  then have lt: "unat (ms mod 1000) * unat rate div unat (1000 :: u64) < 18446744073709551616"
    using unat_lt_2_64 [of rate] by (simp add: unat_mod_u64)
  have "(1000 :: u64) \<noteq> 0" by simp
  then obtain q r where "MulDiv (ms mod 1000) rate 1000 = Inr (q, r, None)"
    and q: "unat q = unat (ms mod 1000) * unat rate div unat (1000 :: u64)"
    using MulDiv_defined [OF _ lt] by blast
  moreover have "unat q < unat rate" if "rate \<noteq> 0"
  proof -
    have "unat ms mod 1000 * unat rate < unat rate * 1000"
      using that by (simp add: unat_pos_iff mult.commute)
    then show ?thesis using q by (simp add: unat_mod_u64 less_mult_imp_div_less)
  qed
  ultimately show ?thesis
    by (simp add: ConvertMilliseconds_def unat_div_u64 unat_mod_u64 u64_less_iff)
qed

theorem ConvertMilliseconds_spec_witness:
  "\<exists>sec frac. ConvertMilliseconds 2000000 1500 = Inr (sec, frac)
     \<and> unat sec = 1 \<and> Numerator frac < 2000000"
  using ConvertMilliseconds_spec [of 2000000 1500] by auto

end
