(* ===== verification/Hooks.thy ===== *)
theory Hooks
  imports Intmath "HOL-Library.Multiset"
begin

text \<open>
  Package \<^verbatim>\<open>hook\<close> (\<^verbatim>\<open>src/hook/hook.go\<close>) and the libevm data it is about.

  \<^item> \<open>header\<close>, \<open>transaction\<close> and \<open>eth_block\<close> hold the fields of the libevm types that the
    sources read or write; everything else of a header or a transaction is the opaque
    \<open>hdr_extra\<close> and \<open>tx_extra\<close>.
  \<^item> \<open>statedb\<close> is the part of libevm's \<^verbatim>\<open>state.StateDB\<close> that the sources call. It is third-party
    code, so it is an argument of every definition that uses it, and \<open>statedb_laws\<close> states
    the documented behaviour of its getters and setters.
  \<^item> \<open>points\<close> is the interface \<^verbatim>\<open>hook.Points\<close>: code injected by the user of the VM, again
    an argument.
  \<^item> \<open>op\<close> is \<^verbatim>\<open>hook.Op\<close>. Go iterates a map in an unspecified order; \<open>Burn\<close> and \<open>Mint\<close> are
    association lists in the order of that iteration, with distinct keys (\<open>op_wf\<close>), and
    the order is shown not to matter.
\<close>

section \<open>Data\<close>

record header =
  ParentHash :: hash
  Number :: int
  hdr_Time :: u64
  Root :: hash
  ReceiptHash :: hash
  GasLimit :: u64
  GasUsed :: u64
  BaseFee :: "int option"
  hdr_extra :: nat

record transaction =
  tx_Hash :: hash
  tx_Nonce :: u64
  tx_Gas :: u64
  tx_GasFeeCap :: int
  tx_GasTipCap :: int
  tx_Value :: int
  tx_To :: "address option"
  tx_extra :: nat

record eth_block =
  eb_header :: header
  eb_txs :: "transaction list"

record 'db statedb =
  GetBalance :: "'db \<Rightarrow> address \<Rightarrow> u256"
  GetNonce :: "'db \<Rightarrow> address \<Rightarrow> u64"
  GetCodeHash :: "'db \<Rightarrow> address \<Rightarrow> hash"
  SetNonce :: "'db \<Rightarrow> address \<Rightarrow> u64 \<Rightarrow> 'db"
  SubBalance :: "'db \<Rightarrow> address \<Rightarrow> u256 \<Rightarrow> 'db"
  AddBalance :: "'db \<Rightarrow> address \<Rightarrow> u256 \<Rightarrow> 'db"

definition statedb_laws :: "'db statedb \<Rightarrow> bool" where
  "statedb_laws S \<longleftrightarrow>
     (\<forall>db a b n. GetNonce S (SetNonce S db a n) b = (if b = a then n else GetNonce S db b))
   \<and> (\<forall>db a b n. GetBalance S (SetNonce S db a n) b = GetBalance S db b)
   \<and> (\<forall>db a b x. GetBalance S (SubBalance S db a x) b =
        (if b = a then GetBalance S db b - x else GetBalance S db b))
   \<and> (\<forall>db a b x. GetNonce S (SubBalance S db a x) b = GetNonce S db b)
   \<and> (\<forall>db a b x. GetBalance S (AddBalance S db a x) b =
        (if b = a then GetBalance S db b + x else GetBalance S db b))
   \<and> (\<forall>db a b x. GetNonce S (AddBalance S db a x) b = GetNonce S db b)"

record account_debit =
  ad_Nonce :: u64
  Amount :: u256
  MinBalance :: u256

record op =
  op_ID :: nat
  op_Gas :: gas
  op_GasFeeCap :: u256
  Burn :: "(address \<times> account_debit) list"
  Mint :: "(address \<times> u256) list"

definition op_wf :: "op \<Rightarrow> bool" where
  "op_wf o1 \<longleftrightarrow> distinct (map fst (Burn o1)) \<and> distinct (map fst (Mint o1))"

record gas_price_config =
  TargetToExcessScaling :: gas
  MinPrice :: price
  StaticPricing :: bool

record 'db points =
  GasConfigAfter :: "header \<Rightarrow> gas \<times> gas_price_config"
  SubSecondBlockTime :: "header \<Rightarrow> duration"
  SettledHeight :: "header \<Rightarrow> u64"
  EndOfBlockOps :: "eth_block \<Rightarrow> op list res"
  CanExecuteTransaction :: "address \<Rightarrow> address option \<Rightarrow> 'db \<Rightarrow> go_error option"

text \<open>The documented contract of the hooks: a sub-second time is in \<open>[0, second)\<close>.\<close>

definition hooks_subsecond :: "('db, 'a) points_scheme \<Rightarrow> bool" where
  "hooks_subsecond H \<longleftrightarrow> (\<forall>h. 0 \<le> SubSecondBlockTime H h \<and> SubSecondBlockTime H h < time_Second)"

section \<open>Operations\<close>

fun ApplyTo_check :: "'db statedb \<Rightarrow> 'db \<Rightarrow> (address \<times> account_debit) list \<Rightarrow> go_error option" where
  "ApplyTo_check S db [] = None"
| "ApplyTo_check S db ((from, acc) # rest) =
     (if MinBalance acc < Amount acc then Some ErrMinBalanceBelowAmount
      else if GetBalance S db from < MinBalance acc then Some ErrInsufficientFunds
      else ApplyTo_check S db rest)"

fun ApplyTo_burn :: "'db statedb \<Rightarrow> 'db \<Rightarrow> (address \<times> account_debit) list \<Rightarrow> 'db" where
  "ApplyTo_burn S db [] = db"
| "ApplyTo_burn S db ((from, acc) # rest) =
     (let nonce = GetNonce S db from;
          db = (if nonce < MaxUint64 then SetNonce S db from (nonce + 1) else db)
      in ApplyTo_burn S (SubBalance S db from (Amount acc)) rest)"

fun ApplyTo_mint :: "'db statedb \<Rightarrow> 'db \<Rightarrow> (address \<times> u256) list \<Rightarrow> 'db" where
  "ApplyTo_mint S db [] = db"
| "ApplyTo_mint S db ((to, amount) # rest) = ApplyTo_mint S (AddBalance S db to amount) rest"

definition ApplyTo :: "'db statedb \<Rightarrow> op \<Rightarrow> 'db \<Rightarrow> go_error option \<times> 'db" where
  "ApplyTo S o1 db =
     (case ApplyTo_check S db (Burn o1) of
        Some e \<Rightarrow> (Some e, db)
      | None \<Rightarrow> (None, ApplyTo_mint S (ApplyTo_burn S db (Burn o1)) (Mint o1)))"

definition GasPriceConfig_Validate :: "gas_price_config \<Rightarrow> go_error option" where
  "GasPriceConfig_Validate c =
     (if TargetToExcessScaling c = 0 then Some ErrTargetToExcessScalingZero
      else if MinPrice c = 0 then Some ErrMinPriceZero
      else None)"

text \<open>The constants of package \<^verbatim>\<open>params\<close>.\<close>

definition Lambda :: u64 where "Lambda = 2"
definition TauSeconds :: u64 where "TauSeconds = 5"
definition Tau :: duration where "Tau = 5 * time_Second"
definition MaxFullBlocksInOpenQueue :: u64 where "MaxFullBlocksInOpenQueue = 2"
definition MaxFullBlocksInClosedQueue :: u64 where
  "MaxFullBlocksInClosedQueue = MaxFullBlocksInOpenQueue + 1"

definition MinimumGasConsumption :: "u64 \<Rightarrow> u64 res" where
  "MinimumGasConsumption txLimit = CeilDiv txLimit Lambda"

section \<open>Applying an operation to the state\<close>

text \<open>Amounts by which an operation changes an account, read off its maps.\<close>

definition burn_of :: "op \<Rightarrow> address \<Rightarrow> u256" where
  "burn_of o1 a = (case map_of (Burn o1) a of None \<Rightarrow> 0 | Some d \<Rightarrow> Amount d)"

definition mint_of :: "op \<Rightarrow> address \<Rightarrow> u256" where
  "mint_of o1 a = (case map_of (Mint o1) a of None \<Rightarrow> 0 | Some x \<Rightarrow> x)"

definition bump_nonce :: "u64 \<Rightarrow> u64" where
  "bump_nonce n = (if n < MaxUint64 then n + 1 else n)"

definition op_affordable :: "'db statedb \<Rightarrow> 'db \<Rightarrow> op \<Rightarrow> bool" where
  "op_affordable S db o1 \<longleftrightarrow>
     list_all (\<lambda>(a, d). Amount d \<le> MinBalance d \<and> MinBalance d \<le> GetBalance S db a) (Burn o1)"

lemma ApplyTo_check_None_iff:
  "ApplyTo_check S db bs = None \<longleftrightarrow>
     list_all (\<lambda>(a, d). Amount d \<le> MinBalance d \<and> MinBalance d \<le> GetBalance S db a) bs"
  by (induction bs) (auto simp: not_less split: if_splits)

lemma statedb_simps:
  assumes "statedb_laws S"
  shows "GetNonce S (SetNonce S db a n) b = (if b = a then n else GetNonce S db b)"
    and "GetBalance S (SetNonce S db a n) b = GetBalance S db b"
    and "GetBalance S (SubBalance S db a x) b =
        (if b = a then GetBalance S db b - x else GetBalance S db b)"
    and "GetNonce S (SubBalance S db a x) b = GetNonce S db b"
    and "GetBalance S (AddBalance S db a x) b =
        (if b = a then GetBalance S db b + x else GetBalance S db b)"
    and "GetNonce S (AddBalance S db a x) b = GetNonce S db b"
  using assms by (simp_all add: statedb_laws_def)

lemma ApplyTo_burn_balance:
  assumes "statedb_laws S" and "distinct (map fst bs)"
  shows "GetBalance S (ApplyTo_burn S db bs) a =
    GetBalance S db a - (case map_of bs a of None \<Rightarrow> 0 | Some d \<Rightarrow> Amount d)"
  using assms(2)
  by (induction bs arbitrary: db)
    (auto simp: Let_def statedb_simps [OF assms(1)] map_of_eq_None_iff split: option.splits
      dest: in_fst_image)

lemma ApplyTo_burn_nonce:
  assumes "statedb_laws S" and "distinct (map fst bs)"
  shows "GetNonce S (ApplyTo_burn S db bs) a =
    (if a \<in> fst ` set bs then bump_nonce (GetNonce S db a) else GetNonce S db a)"
  using assms(2)
  by (induction bs arbitrary: db)
    (auto simp: Let_def statedb_simps [OF assms(1)] bump_nonce_def dest: in_fst_image)

lemma ApplyTo_mint_balance:
  assumes "statedb_laws S" and "distinct (map fst ms)"
  shows "GetBalance S (ApplyTo_mint S db ms) a =
    GetBalance S db a + (case map_of ms a of None \<Rightarrow> 0 | Some x \<Rightarrow> x)"
  using assms(2)
  by (induction ms arbitrary: db)
    (auto simp: statedb_simps [OF assms(1)] map_of_eq_None_iff split: option.splits
      dest: in_fst_image)

lemma ApplyTo_mint_nonce:
  "statedb_laws S \<Longrightarrow> GetNonce S (ApplyTo_mint S db ms) a = GetNonce S db a"
  by (induction ms arbitrary: db) (auto simp: statedb_simps)

lemma ApplyTo_error: "ApplyTo S o1 db = (Some e, db') \<Longrightarrow> db' = db"
  by (auto simp: ApplyTo_def split: option.splits)

lemma ApplyTo_None_iff: "fst (ApplyTo S o1 db) = None \<longleftrightarrow> op_affordable S db o1"
  by (auto simp: ApplyTo_def op_affordable_def ApplyTo_check_None_iff [symmetric] split: option.splits)

lemma ApplyTo_balance:
  assumes "statedb_laws S" and "op_wf o1" and "ApplyTo S o1 db = (None, db')"
  shows "GetBalance S db' a = GetBalance S db a - burn_of o1 a + mint_of o1 a"
  using assms
  by (auto simp: ApplyTo_def op_wf_def burn_of_def mint_of_def ApplyTo_mint_balance
      ApplyTo_burn_balance split: option.splits)

lemma ApplyTo_nonce:
  assumes "statedb_laws S" and "op_wf o1" and "ApplyTo S o1 db = (None, db')"
  shows "GetNonce S db' a =
    (if a \<in> fst ` set (Burn o1) then bump_nonce (GetNonce S db a) else GetNonce S db a)"
  using assms
  by (auto simp: ApplyTo_def op_wf_def ApplyTo_mint_nonce ApplyTo_burn_nonce dest: in_fst_image
      split: option.splits)

lemma burn_of_le_balance:
  assumes "op_affordable S db o1"
  shows "burn_of o1 a \<le> GetBalance S db a"
  using assms
  by (auto simp: op_affordable_def burn_of_def list_all_iff split: option.splits
      dest!: map_of_SomeD intro: order_trans)

text \<open>
  A concrete state for the witnesses: balances and nonces as functions.
\<close>

definition flat_statedb :: "((address \<Rightarrow> u256) \<times> (address \<Rightarrow> u64)) statedb" where
  "flat_statedb = \<lparr>GetBalance = (\<lambda>db. fst db), GetNonce = (\<lambda>db. snd db), GetCodeHash = (\<lambda>_ _. 0),
     SetNonce = (\<lambda>db a n. (fst db, (snd db)(a := n))),
     SubBalance = (\<lambda>db a x. ((fst db)(a := fst db a - x), snd db)),
     AddBalance = (\<lambda>db a x. ((fst db)(a := fst db a + x), snd db))\<rparr>"

lemma flat_statedb_laws: "statedb_laws flat_statedb"
  by (simp add: statedb_laws_def flat_statedb_def)

text \<open>\<open>ApplyTo\<close> succeeds exactly when every debited account holds its minimum balance and
  that minimum covers the debit. On success every account's balance is its old balance less
  its debit plus its mint, where the debit never underflows; nonces of exactly the debited
  accounts advance by one, saturating at the maximum. On failure the state is unchanged.\<close>

theorem ApplyTo_spec:
  assumes "statedb_laws S" and "op_wf o1"
  shows "if op_affordable S db o1
    then \<exists>db'. ApplyTo S o1 db = (None, db')
       \<and> (\<forall>a. GetBalance S db' a = GetBalance S db a - burn_of o1 a + mint_of o1 a
            \<and> uint (GetBalance S db a - burn_of o1 a) = uint (GetBalance S db a) - uint (burn_of o1 a)
            \<and> GetNonce S db' a = (if a \<in> fst ` set (Burn o1) then bump_nonce (GetNonce S db a)
                 else GetNonce S db a))
    else \<exists>e. ApplyTo S o1 db = (Some e, db)"
proof (cases "op_affordable S db o1")
  case True
  then obtain db' where r: "ApplyTo S o1 db = (None, db')"
    using ApplyTo_None_iff by (metis prod.collapse)
  have "uint (GetBalance S db a - burn_of o1 a) = uint (GetBalance S db a) - uint (burn_of o1 a)" for a
    using burn_of_le_balance [OF True, of a] by (simp add: uint_sub_lem [symmetric] word_le_def)
  then show ?thesis using True r ApplyTo_balance [OF assms r] ApplyTo_nonce [OF assms r] by auto
next
  case False
  then obtain e where "fst (ApplyTo S o1 db) = Some e" using ApplyTo_None_iff by fastforce
  then show ?thesis using False ApplyTo_error by (metis prod.collapse)
qed

theorem ApplyTo_spec_witness:
  "\<exists>db'. ApplyTo flat_statedb
      \<lparr>op_ID = 0, op_Gas = 21000, op_GasFeeCap = 9,
       Burn = [(1, \<lparr>ad_Nonce = 4, Amount = 30, MinBalance = 50\<rparr>)], Mint = [(2, 7)]\<rparr>
      ((\<lambda>_. 60), (\<lambda>_. 4)) = (None, db') \<and> GetBalance flat_statedb db' 1 = 30
    \<and> GetBalance flat_statedb db' 2 = 67 \<and> GetNonce flat_statedb db' 1 = 5"
proof -
  let ?o = "\<lparr>op_ID = 0, op_Gas = 21000, op_GasFeeCap = 9,
       Burn = [(1, \<lparr>ad_Nonce = 4, Amount = 30, MinBalance = 50\<rparr>)], Mint = [(2, 7)]\<rparr> :: op"
  have "op_wf ?o" and "op_affordable flat_statedb ((\<lambda>_. 60), (\<lambda>_. 4)) ?o"
    by (simp_all add: op_wf_def op_affordable_def flat_statedb_def)
  then obtain db' where r: "ApplyTo flat_statedb ?o ((\<lambda>_. 60), (\<lambda>_. 4)) = (None, db')"
    and b: "\<forall>a. GetBalance flat_statedb db' a = GetBalance flat_statedb ((\<lambda>_. 60), (\<lambda>_. 4)) a
        - burn_of ?o a + mint_of ?o a \<and> GetNonce flat_statedb db' a =
        (if a \<in> fst ` set (Burn ?o) then bump_nonce (GetNonce flat_statedb ((\<lambda>_. 60), (\<lambda>_. 4)) a)
         else GetNonce flat_statedb ((\<lambda>_. 60), (\<lambda>_. 4)) a)"
    using ApplyTo_spec [OF flat_statedb_laws \<open>op_wf ?o\<close>, of "((\<lambda>_. 60), (\<lambda>_. 4))"] by auto
  have "GetBalance flat_statedb db' 1 = 30" "GetBalance flat_statedb db' 2 = 67"
    "GetNonce flat_statedb db' 1 = 5"
    using b by (simp_all add: burn_of_def mint_of_def bump_nonce_def flat_statedb_def u64_less_iff)
  then show ?thesis using r by blast
qed

lemma map_of_perm:
  "distinct (map fst xs) \<Longrightarrow> mset xs = mset ys \<Longrightarrow> map_of xs = map_of ys"
  by (metis map_of_inject_set mset_eq_setD mset_eq_imp_distinct_iff mset_map)

text \<open>The order in which Go iterates the \<^verbatim>\<open>Burn\<close> and \<^verbatim>\<open>Mint\<close> maps does not matter: two
  operations that list the same entries in different orders both succeed or both fail, and
  leave every account with the same balance and nonce.\<close>

theorem ApplyTo_iteration_order:
  assumes S: "statedb_laws S" and wf: "op_wf o1"
    and b: "mset (Burn o2) = mset (Burn o1)" and m: "mset (Mint o2) = mset (Mint o1)"
  shows "(fst (ApplyTo S o2 db) = None \<longleftrightarrow> fst (ApplyTo S o1 db) = None)
    \<and> GetBalance S (snd (ApplyTo S o2 db)) a = GetBalance S (snd (ApplyTo S o1 db)) a
    \<and> GetNonce S (snd (ApplyTo S o2 db)) a = GetNonce S (snd (ApplyTo S o1 db)) a"
proof -
  have wf2: "op_wf o2"
    using wf b m unfolding op_wf_def by (metis mset_eq_imp_distinct_iff mset_map)
  have aff: "op_affordable S db o2 \<longleftrightarrow> op_affordable S db o1"
    using mset_eq_setD [OF b] by (simp add: op_affordable_def list_all_iff)
  show ?thesis
  proof (cases "op_affordable S db o1")
    case True
    then obtain d1 d2 where r: "ApplyTo S o1 db = (None, d1)" "ApplyTo S o2 db = (None, d2)"
      using aff ApplyTo_None_iff by (metis prod.collapse)
    have "burn_of o2 = burn_of o1" "mint_of o2 = mint_of o1"
      using map_of_perm [of "Burn o1" "Burn o2"] map_of_perm [of "Mint o1" "Mint o2"] b m wf
      by (simp_all add: burn_of_def mint_of_def op_wf_def fun_eq_iff)
    then show ?thesis
      using r ApplyTo_balance [OF S wf r(1)] ApplyTo_balance [OF S wf2 r(2)]
        ApplyTo_nonce [OF S wf r(1)] ApplyTo_nonce [OF S wf2 r(2)] mset_eq_setD [OF b] by simp
  next
    case False
    then show ?thesis
      using aff ApplyTo_None_iff [of S o1 db] ApplyTo_None_iff [of S o2 db] ApplyTo_error
      by (metis option.exhaust prod.collapse)
  qed
qed

theorem ApplyTo_iteration_order_witness:
  "fst (ApplyTo flat_statedb \<lparr>op_ID = 0, op_Gas = 1, op_GasFeeCap = 9, Burn = [], Mint = [(3, 7), (2, 5)]\<rparr>
       ((\<lambda>_. 60), (\<lambda>_. 4))) = None
   \<and> GetBalance flat_statedb (snd (ApplyTo flat_statedb
       \<lparr>op_ID = 0, op_Gas = 1, op_GasFeeCap = 9, Burn = [], Mint = [(3, 7), (2, 5)]\<rparr>
       ((\<lambda>_. 60), (\<lambda>_. 4)))) 3 = 67"
  using ApplyTo_iteration_order [OF flat_statedb_laws,
      of "\<lparr>op_ID = 0, op_Gas = 1, op_GasFeeCap = 9, Burn = [], Mint = [(2, 5), (3, 7)]\<rparr>"
         "\<lparr>op_ID = 0, op_Gas = 1, op_GasFeeCap = 9, Burn = [], Mint = [(3, 7), (2, 5)]\<rparr>"
         "((\<lambda>_. 60), (\<lambda>_. 4))" 3]
  by (simp add: op_wf_def ApplyTo_def flat_statedb_def add_mset_commute)

section \<open>Gas-price configuration and minimum consumption\<close>

lemma GasPriceConfig_Validate_None:
  "GasPriceConfig_Validate c = None \<longleftrightarrow> TargetToExcessScaling c \<noteq> 0 \<and> MinPrice c \<noteq> 0"
  by (simp add: GasPriceConfig_Validate_def)

text \<open>The minimum gas consumption of a transaction never panics and is the least integer
  that is at least \<open>1 / Lambda\<close> of its gas limit; in particular it never exceeds the limit.\<close>

theorem MinimumGasConsumption_spec:
  "\<exists>g. MinimumGasConsumption limit = Inr g \<and> g \<le> limit
     \<and> (\<forall>n. unat g \<le> n \<longleftrightarrow> unat limit \<le> n * unat Lambda)"
proof -
  obtain g where g: "MinimumGasConsumption limit = Inr g" "unat g = ceil_div (unat limit) 2"
    using CeilDiv_spec' [of Lambda limit] by (auto simp: MinimumGasConsumption_def Lambda_def)
  have "g \<le> limit" by (simp add: u64_le_iff g(2) ceil_div_le)
  then show ?thesis using g by (simp add: ceil_div_le_iff Lambda_def)
qed

end
