(* ===== verification/Gastime.thy ===== *)
theory Gastime
  imports Proxytime Hooks
begin

text \<open>
  Package \<^verbatim>\<open>gastime\<close> (\<^verbatim>\<open>src/gastime/gastime.go\<close>, \<^verbatim>\<open>acp176.go\<close>, \<^verbatim>\<open>config.go\<close>): a proxy time
  whose unit is gas, with the ACP-176 excess and gas price, and the \<open>GasTime\<close> and
  \<open>PreciseTime\<close> of \<^verbatim>\<open>src/blocks/time.go\<close>.

  The price function \<^verbatim>\<open>gas.CalculatePrice\<close> of AvalancheGo is the argument \<open>calc\<close>
  (minimum price, excess, scaling factor); \<open>price_monotone\<close> is the property that the
  sources rely on. The hooks are the argument \<open>H\<close>. A method that returns an error after it
  has changed its receiver returns both; the outer \<open>res\<close> is a panic.

  The refinement shown is to the model of ACP-194: the triple of ticks, excess and target,
  with \<open>abs_tick\<close>, \<open>abs_fast_forward\<close> and \<open>abs_set_target\<close> on unbounded numbers.
\<close>

section \<open>State and operations\<close>

record config =
  targetToExcessScaling :: gas
  minPrice :: price
  staticPricing :: bool

record gtime =
  gt_time :: ptime
  target :: gas
  excess :: gas
  gt_config :: config

definition newConfig :: "gas_price_config \<Rightarrow> config res" where
  "newConfig from =
     (case GasPriceConfig_Validate from of
        Some e \<Rightarrow> Inl (ErrInvalidGasPriceConfig e)
      | None \<Rightarrow> Inr \<lparr>targetToExcessScaling = TargetToExcessScaling from,
                    minPrice = MinPrice from, staticPricing = StaticPricing from\<rparr>)"

definition config_equals :: "config \<Rightarrow> config \<Rightarrow> bool" where
  "config_equals c other \<longleftrightarrow> targetToExcessScaling c = targetToExcessScaling other
     \<and> minPrice c = minPrice other \<and> staticPricing c = staticPricing other"

definition TargetToRate :: gas where "TargetToRate = 2"
definition MinTarget :: gas where "MinTarget = 1"
definition MaxTarget :: gas where "MaxTarget = MaxUint64 div TargetToRate"

definition DefaultGasPriceConfig :: gas_price_config where
  "DefaultGasPriceConfig = \<lparr>TargetToExcessScaling = 87, MinPrice = 1, StaticPricing = False\<rparr>"

definition rateOf :: "gas \<Rightarrow> gas" where
  "rateOf t = t * TargetToRate"

definition clampTarget :: "gas \<Rightarrow> gas" where
  "clampTarget t = min (max t MinTarget) MaxTarget"

definition SafeRateOfTarget :: "gas \<Rightarrow> gas" where
  "SafeRateOfTarget t = rateOf (clampTarget t)"

definition gastime_New :: "gotime \<Rightarrow> gas \<Rightarrow> gas \<Rightarrow> gas_price_config \<Rightarrow> gtime res" where
  "gastime_New atTime targ startingExcess gasPriceConfig =
     res_bind (newConfig gasPriceConfig) (\<lambda>cfg.
     res_bind (proxytime_Of atTime) (\<lambda>tm.
     let targ = clampTarget targ
     in res_bind (proxytime_SetRate tm (rateOf targ)) (\<lambda>tm.
        Inr \<lparr>gt_time = tm, target = targ, excess = startingExcess, gt_config = cfg\<rparr>)))"

definition SubSecond :: "('db, 'a) points_scheme \<Rightarrow> header \<Rightarrow> gas \<Rightarrow> gas res" where
  "SubSecond H hdr rate =
     res_bind (MulDivCeil (word_of_int (SubSecondBlockTime H hdr)) rate (word_of_int time_Second))
       (\<lambda>(g, _, _). Inr g)"

definition gastime_Clone :: "gtime \<Rightarrow> gtime" where
  "gastime_Clone tm = \<lparr>gt_time = proxytime_Clone (gt_time tm), target = target tm,
     excess = excess tm, gt_config = gt_config tm\<rparr>"

definition excessScalingFactor :: "gtime \<Rightarrow> gas" where
  "excessScalingFactor tm =
     BoundedMultiply (targetToExcessScaling (gt_config tm)) (target tm) MaxUint64"

type_synonym price_fun = "price \<Rightarrow> gas \<Rightarrow> gas \<Rightarrow> price"

definition gastime_Price :: "price_fun \<Rightarrow> gtime \<Rightarrow> price" where
  "gastime_Price calc tm =
     (if staticPricing (gt_config tm) then minPrice (gt_config tm)
      else calc (minPrice (gt_config tm)) (excess tm) (excessScalingFactor tm))"

definition gastime_BaseFee :: "price_fun \<Rightarrow> gtime \<Rightarrow> u256" where
  "gastime_BaseFee calc tm = ucast (gastime_Price calc tm)"

definition gastime_SetTarget :: "gtime \<Rightarrow> gas \<Rightarrow> gtime res" where
  "gastime_SetTarget tm t =
     (let t = clampTarget t; r = rateOf t
      in res_bind (proxytime_Scale (gt_time tm) (excess tm) r) (\<lambda>(x, err).
         let x = (if err \<noteq> None then MaxUint64 else x)
         in res_bind (proxytime_SetRate (gt_time tm) r) (\<lambda>ptm.
            Inr (tm\<lparr>gt_time := ptm, excess := x, target := t\<rparr>))))"

definition gastime_SetRate :: "gtime \<Rightarrow> gas \<Rightarrow> gtime res" where
  "gastime_SetRate tm r = gastime_SetTarget tm (r div TargetToRate)"

definition gastime_Tick :: "gtime \<Rightarrow> gas \<Rightarrow> gtime res" where
  "gastime_Tick tm g =
     res_bind (proxytime_Tick (gt_time tm) g) (\<lambda>ptm.
     let R = proxytime_Rate ptm; T = target tm
     in res_bind (MulDiv g (R - T) R) (\<lambda>(quo, _, _).
        Inr (tm\<lparr>gt_time := ptm, excess := BoundedAdd (excess tm) quo MaxUint64\<rparr>)))"

definition gastime_FastForwardTo :: "gtime \<Rightarrow> u64 \<Rightarrow> gas \<Rightarrow> gtime res" where
  "gastime_FastForwardTo tm to toFrac =
     res_bind (proxytime_FastForwardTo (gt_time tm) to toFrac) (\<lambda>(sec, frac, ptm).
     if sec = 0 \<and> Numerator frac = 0 then Inr (tm\<lparr>gt_time := ptm\<rparr>)
     else
       let R = proxytime_Rate ptm; T = target tm
       in res_bind (go_div (excess tm) T) (\<lambda>xT.
          let x = (if xT \<ge> sec then excess tm - sec * T else 0)
          in res_bind (MulDiv (Numerator frac) T R) (\<lambda>(quo, _, _).
             Inr (tm\<lparr>gt_time := ptm, excess := BoundedSubtract x quo 0\<rparr>))))"

definition BeforeBlock :: "('db, 'a) points_scheme \<Rightarrow> gtime \<Rightarrow> header \<Rightarrow> gtime res" where
  "BeforeBlock H tm h =
     res_bind (SubSecond H h (proxytime_Rate (gt_time tm))) (\<lambda>sub.
       gastime_FastForwardTo tm (hdr_Time h) sub)"

text \<open>The binary search of \<^verbatim>\<open>findExcessForPrice\<close>: its loop, over \<open>lo\<close> and \<open>hi\<close>.\<close>

lemma mid_bounds:
  fixes lo hi :: u64
  assumes "lo < hi"
  shows "unat (lo + (hi - lo) div 2) = unat lo + (unat hi - unat lo) div 2"
    and "unat (lo + (hi - lo) div 2 + 1) = unat lo + (unat hi - unat lo) div 2 + 1"
proof -
  have lt: "unat lo < unat hi" using assms by (simp add: u64_nat)
  have "unat ((hi - lo) div 2) = (unat hi - unat lo) div 2"
    using lt by (simp add: unat_div_u64 unat_sub_u64 u64_nat)
  moreover have "unat lo + (unat hi - unat lo) div 2 + 1 < 18446744073709551616"
    using lt unat_le_max [of hi] by linarith
  ultimately show "unat (lo + (hi - lo) div 2) = unat lo + (unat hi - unat lo) div 2"
    and "unat (lo + (hi - lo) div 2 + 1) = unat lo + (unat hi - unat lo) div 2 + 1"
    by (simp_all add: unat_add_u64)
qed

function findExcess_loop :: "(gas \<Rightarrow> bool) \<Rightarrow> gas \<Rightarrow> gas \<Rightarrow> gas" where
  "findExcess_loop reached lo hi =
     (if lo < hi then
        let mid = lo + (hi - lo) div 2
        in if reached mid then findExcess_loop reached lo mid
           else findExcess_loop reached (mid + 1) hi
      else lo)"
  by pat_completeness auto
termination
proof (relation "measure (\<lambda>(_, lo, hi). unat hi - unat lo)", goal_cases)
  case (2 reached lo hi mid)
  then show ?case using mid_bounds [of lo hi] by (simp add: u64_nat)
next
  case (3 reached lo hi mid)
  then show ?case using mid_bounds [of lo hi] by (simp add: u64_nat)
qed simp

declare findExcess_loop.simps [simp del]

definition findExcessForPrice :: "price_fun \<Rightarrow> gtime \<Rightarrow> price \<Rightarrow> gas" where
  "findExcessForPrice calc tm targetPrice =
     (if targetPrice \<le> minPrice (gt_config tm) \<or> staticPricing (gt_config tm) then 0
      else let k = excessScalingFactor tm
           in findExcess_loop (\<lambda>mid. calc (minPrice (gt_config tm)) mid k \<ge> targetPrice)
                0 MaxUint64)"

definition AfterBlock :: "price_fun \<Rightarrow> ('db, 'a) points_scheme \<Rightarrow> gtime \<Rightarrow> gas \<Rightarrow> header
    \<Rightarrow> (gtime \<times> go_error option) res" where
  "AfterBlock calc H tm used h =
     res_bind (gastime_Tick tm used) (\<lambda>tm.
     let (targ, hookCfg) = GasConfigAfter H h; p = gastime_Price calc tm
     in res_bind (gastime_SetTarget tm targ) (\<lambda>tm.
        case newConfig hookCfg of
          Inl err \<Rightarrow> Inr (tm, Some err)
        | Inr cfg \<Rightarrow>
            if config_equals cfg (gt_config tm) then Inr (tm, None)
            else let tm = tm\<lparr>gt_config := cfg\<rparr>
                 in Inr (tm\<lparr>excess := findExcessForPrice calc tm p\<rparr>, None)))"

definition preciseTime :: "header \<Rightarrow> duration \<Rightarrow> gotime" where
  "preciseTime hdr subSec = time_Unix (sint (hdr_Time hdr)) subSec"

definition PreciseTime :: "('db, 'a) points_scheme \<Rightarrow> header \<Rightarrow> gotime" where
  "PreciseTime H hdr = preciseTime hdr (SubSecondBlockTime H hdr)"

definition GasTime :: "('db, 'a) points_scheme \<Rightarrow> header \<Rightarrow> header \<Rightarrow> ptime res" where
  "GasTime H hdr parent =
     (let (targ, _) = GasConfigAfter H parent;
          rate = SafeRateOfTarget targ;
          tm = proxytime_New (hdr_Time hdr) rate
      in res_bind (SubSecond H hdr rate) (\<lambda>sub. proxytime_Tick tm sub))"

section \<open>Invariant\<close>

definition config_ok :: "config \<Rightarrow> bool" where
  "config_ok c \<longleftrightarrow> targetToExcessScaling c \<noteq> 0 \<and> minPrice c \<noteq> 0"

definition gtime_inv :: "gtime \<Rightarrow> bool" where
  "gtime_inv tm \<longleftrightarrow> ptime_inv (gt_time tm) \<and> MinTarget \<le> target tm \<and> target tm \<le> MaxTarget
     \<and> hertz (gt_time tm) = rateOf (target tm) \<and> config_ok (gt_config tm)"

lemma unat_MaxTarget: "unat MaxTarget = 9223372036854775807"
  by (simp add: MaxTarget_def TargetToRate_def unat_div_u64)

lemma unat_clampTarget: "unat (clampTarget t) = min (max (unat t) 1) 9223372036854775807"
  unfolding unat_MaxTarget [symmetric]
  by (auto simp: clampTarget_def MinTarget_def min_def max_def u64_le_iff)

lemma clampTarget_bounds: "MinTarget \<le> clampTarget t" "clampTarget t \<le> MaxTarget"
  by (simp_all add: u64_le_iff unat_clampTarget unat_MaxTarget MinTarget_def)

lemma unat_rateOf: "t \<le> MaxTarget \<Longrightarrow> unat (rateOf t) = 2 * unat t"
  by (simp add: rateOf_def TargetToRate_def u64_le_iff unat_MaxTarget unat_mult_u64)

lemma clampTarget_fixed: "MinTarget \<le> t \<Longrightarrow> t \<le> MaxTarget \<Longrightarrow> clampTarget t = t"
  by (simp add: clampTarget_def)

lemma unat_SafeRateOfTarget:
  "unat (SafeRateOfTarget t) = 2 * min (max (unat t) 1) 9223372036854775807"
  by (simp add: SafeRateOfTarget_def unat_rateOf clampTarget_bounds unat_clampTarget)

lemma gtime_inv_nat:
  assumes "gtime_inv tm"
  shows "ptime_inv (gt_time tm)" and "0 < unat (target tm)"
    and "unat (hertz (gt_time tm)) = 2 * unat (target tm)"
  using assms by (auto simp: gtime_inv_def unat_rateOf u64_le_iff MinTarget_def)

section \<open>The abstract gas clock\<close>

text \<open>Ticks since the epoch, excess and target, on unbounded numbers.\<close>

type_synonym gas_clock = "nat \<times> nat \<times> nat"

abbreviation max_excess :: nat where
  "max_excess \<equiv> 18446744073709551615"

fun abs_tick :: "nat \<Rightarrow> gas_clock \<Rightarrow> gas_clock" where
  "abs_tick g (n, x, T) = (n + g, min (x + g div 2) max_excess, T)"

fun abs_fast_forward :: "nat \<Rightarrow> gas_clock \<Rightarrow> gas_clock" where
  "abs_fast_forward to (n, x, T) = (max n to, x - (max n to - n) div 2, T)"

fun abs_set_target :: "nat \<Rightarrow> gas_clock \<Rightarrow> gas_clock" where
  "abs_set_target T' (n, x, T) =
     (ceil_div (n * T') T, min (ceil_div (x * T') T) max_excess, T')"

definition gt_abs :: "gtime \<Rightarrow> gas_clock" where
  "gt_abs tm = (ticks (gt_time tm), unat (excess tm), unat (target tm))"

text \<open>A clock whose seconds are far from wrapping around (before the year 146 billion).\<close>

definition in_range :: "gtime \<Rightarrow> bool" where
  "in_range tm \<longleftrightarrow> unat (seconds (gt_time tm)) < 2 ^ 62"

lemma unat_BoundedAdd: "unat (BoundedAdd a b c) = min (unat a + unat b) (unat c)"
  for a b c :: u64
  using uint_BoundedAdd [of a b c] by (simp add: uint_nat flip: of_nat_add of_nat_min)

lemma unat_BoundedSubtract_0: "unat (BoundedSubtract a b 0) = unat a - unat b"
  for a b :: u64
  using uint_BoundedSubtract [of a b 0] by (simp add: uint_nat)

lemma half_gas: "0 < T \<Longrightarrow> g * T div (2 * T) = g div 2" for g T :: nat
  by (simp add: mult.commute)

lemma Tick_no_wrap:
  assumes "gtime_inv tm" and "in_range tm"
  shows "(ticks (gt_time tm) + unat (g :: u64)) div unat (hertz (gt_time tm))
    < 18446744073709551615"
proof -
  let ?h = "unat (hertz (gt_time tm))"
  have h: "2 \<le> ?h" and p: "ptime_inv (gt_time tm)" using gtime_inv_nat [OF assms(1)] by auto
  have "ticks (gt_time tm) < 4611686018427387904 * ?h"
    using assms(2) p ticks_seconds [OF p] h
    by (simp add: in_range_def div_less_iff_less_mult [symmetric])
  moreover have "unat g < 9223372036854775808 * ?h"
    using h unat_lt_2_64 [of g] by linarith
  ultimately have "ticks (gt_time tm) + unat g < 18446744073709551615 * ?h" by linarith
  then show ?thesis using h by (simp add: div_less_iff_less_mult)
qed

lemma gastime_Tick_abs:
  assumes inv: "gtime_inv tm"
    and nowrap: "(ticks (gt_time tm) + unat g) div unat (hertz (gt_time tm)) < 2 ^ 64"
  obtains tm' where "gastime_Tick tm g = Inr tm'" and "gtime_inv tm'"
    and "gt_abs tm' = abs_tick (unat g) (gt_abs tm)"
    and "gt_config tm' = gt_config tm" and "target tm' = target tm"
proof -
  note n = gtime_inv_nat [OF inv]
  obtain ptm where t: "proxytime_Tick (gt_time tm) g = Inr ptm" "ptime_inv ptm"
    "hertz ptm = hertz (gt_time tm)" "ticks ptm = ticks (gt_time tm) + unat g"
    using Tick_ticks [OF n(1) nowrap] .
  let ?R = "hertz (gt_time tm)"
  have RT: "unat (?R - target tm) = unat (target tm)"
    using n by (simp add: unat_sub_u64 u64_le_iff)
  have R0: "?R \<noteq> 0" using n by (simp add: unat_pos_iff [symmetric])
  have half: "unat g * unat (?R - target tm) div unat ?R = unat g div 2"
    using n(2) by (simp only: RT n(3) half_gas)
  then have lt: "unat g * unat (?R - target tm) div unat ?R < 18446744073709551616"
    using unat_lt_2_64 [of g] by linarith
  obtain q r where "MulDiv g (?R - target tm) ?R = Inr (q, r, None)"
    and "unat q = unat g div 2"
    using MulDiv_defined [OF R0 lt] half by metis
  then show thesis
    using that [of "tm\<lparr>gt_time := ptm, excess := BoundedAdd (excess tm) q MaxUint64\<rparr>"] t inv
    by (simp add: gastime_Tick_def proxytime_Rate_def gtime_inv_def gt_abs_def unat_BoundedAdd)
qed

text \<open>The excess reduction of \<open>FastForwardTo\<close>, done in two bounded steps, is half the gas skipped.\<close>

lemma excess_reduction:
  fixes x s T f :: nat
  assumes "0 < T"
  shows "(if s \<le> x div T then x - s * T else 0) - f div 2 = x - (s * (2 * T) + f) div 2"
proof -
  have "(s * (2 * T) + f) div 2 = s * T + f div 2" by simp
  moreover have "s \<le> x div T \<longleftrightarrow> s * T \<le> x" using assms by (simp add: less_eq_div_iff_mult_less_eq)
  ultimately show ?thesis by auto
qed

lemma gastime_FastForwardTo_abs:
  assumes inv: "gtime_inv tm"
    and nowrap: "unat to + unat toFrac div unat (hertz (gt_time tm)) < 2 ^ 64"
  obtains tm' where "gastime_FastForwardTo tm to toFrac = Inr tm'" and "gtime_inv tm'"
    and "gt_abs tm' =
      abs_fast_forward (unat to * unat (hertz (gt_time tm)) + unat toFrac) (gt_abs tm)"
    and "gt_config tm' = gt_config tm" and "target tm' = target tm"
proof -
  note n = gtime_inv_nat [OF inv]
  obtain sec num ptm where ff: "proxytime_FastForwardTo (gt_time tm) to toFrac =
       Inr (sec, \<lparr>Numerator = num, Denominator = hertz (gt_time tm)\<rparr>, ptm)"
    and p: "ptime_inv ptm" "hertz ptm = hertz (gt_time tm)"
    and mx: "ticks ptm = max (ticks (gt_time tm)) (unat to * unat (hertz (gt_time tm)) + unat toFrac)"
    and el: "ticks (gt_time tm) + (unat sec * unat (hertz (gt_time tm)) + unat num) = ticks ptm"
    and lt: "unat num < unat (hertz (gt_time tm))"
    using FastForwardTo_ticks [OF n(1) nowrap] .
  let ?R = "hertz (gt_time tm)" and ?T = "target tm"
  have el': "ticks ptm - ticks (gt_time tm) = unat sec * (2 * unat ?T) + unat num"
    using el n(3) by simp
  show thesis
  proof (cases "sec = 0 \<and> num = 0")
    case True
    then show thesis
      using that [of "tm\<lparr>gt_time := ptm\<rparr>"] ff p mx el' inv
      by (simp add: gastime_FastForwardTo_def gtime_inv_def gt_abs_def)
  next
    case False
    have nz: "?R \<noteq> 0" "?T \<noteq> 0" using n by (simp_all add: unat_pos_iff [symmetric])
    have half: "unat num * unat ?T div unat ?R = unat num div 2"
      using n(2) by (simp only: n(3) half_gas)
    then have q_lt: "unat num * unat ?T div unat ?R < 18446744073709551616"
      using unat_lt_2_64 [of num] by linarith
    obtain q r where q: "MulDiv num ?T ?R = Inr (q, r, None)" "unat q = unat num div 2"
      using MulDiv_defined [OF nz(1) q_lt] half by metis
    define x where "x = (if excess tm div ?T \<ge> sec then excess tm - sec * ?T else 0)"
    have x: "unat x = (if unat sec \<le> unat (excess tm) div unat ?T
        then unat (excess tm) - unat sec * unat ?T else 0)"
    proof (cases "sec \<le> excess tm div ?T")
      case True
      then have le: "unat sec * unat ?T \<le> unat (excess tm)"
        using n(2) by (simp add: u64_nat less_eq_div_iff_mult_less_eq)
      then have "unat (sec * ?T) = unat sec * unat ?T"
        using unat_lt_2_64 [of "excess tm"] by (intro unat_mult_u64) linarith
      then show ?thesis using True le by (simp add: x_def unat_sub_u64 u64_nat)
    qed (simp add: x_def u64_nat)
    have "unat (BoundedSubtract x q 0) =
        unat (excess tm) - (ticks ptm - ticks (gt_time tm)) div 2"
      using excess_reduction [OF n(2)] by (simp only: unat_BoundedSubtract_0 x q(2) el')
    then show thesis
      using that [of "tm\<lparr>gt_time := ptm, excess := BoundedSubtract x q 0\<rparr>"] ff p mx inv q(1) nz False
      by (simp add: gastime_FastForwardTo_def proxytime_Rate_def go_div_def gtime_inv_def gt_abs_def
          flip: x_def)
  qed
qed

lemma gastime_SetTarget_abs:
  assumes inv: "gtime_inv tm" and nowrap: "seconds (gt_time tm) \<noteq> MaxUint64"
  obtains tm' where "gastime_SetTarget tm t = Inr tm'" and "gtime_inv tm'"
    and "gt_abs tm' = abs_set_target (unat (clampTarget t)) (gt_abs tm)"
    and "gt_config tm' = gt_config tm" and "target tm' = clampTarget t"
proof -
  note n = gtime_inv_nat [OF inv]
  define r where "r = rateOf (clampTarget t)"
  have r: "unat r = 2 * unat (clampTarget t)" by (simp add: r_def unat_rateOf clampTarget_bounds)
  have r0: "r \<noteq> 0" using r by (simp add: unat_pos_iff [symmetric] unat_clampTarget)
  have cd: "ceil_div (m * unat r) (unat (hertz (gt_time tm))) =
      ceil_div (m * unat (clampTarget t)) (unat (target tm))" for m
    using n r ceil_div_scale [of 2 "unat (target tm)" "m * unat (clampTarget t)"]
    by (simp add: mult.left_commute)
  obtain ptm where p: "proxytime_SetRate (gt_time tm) r = Inr ptm" "ptime_inv ptm" "hertz ptm = r"
    "ticks ptm = ceil_div (ticks (gt_time tm) * unat r) (unat (hertz (gt_time tm)))"
    using SetRate_ticks [OF n(1) r0 nowrap] .
  obtain x err where sc: "proxytime_Scale (gt_time tm) (excess tm) r = Inr (x, err)"
    and x: "unat (if err \<noteq> None then MaxUint64 else x) =
      min (ceil_div (unat (excess tm) * unat r) (unat (hertz (gt_time tm)))) max_excess"
  proof (cases "ceil_div (unat (excess tm) * unat r) (unat (hertz (gt_time tm))) < 2 ^ 64")
    case True
    obtain x where "proxytime_Scale (gt_time tm) (excess tm) r = Inr (x, None)"
      and "unat x = ceil_div (unat (excess tm) * unat r) (unat (hertz (gt_time tm)))"
      using Scale_defined [OF n(1) True] .
    then show thesis using that [of x None] True by simp
  next
    case False
    then show thesis using that Scale_overflow [OF False] by (auto simp: not_less)
  qed
  show thesis
    using that [of "tm\<lparr>gt_time := ptm, excess := (if err \<noteq> None then MaxUint64 else x),
        target := clampTarget t\<rparr>"] sc p(1-3) p(4) [unfolded cd] inv x [unfolded cd]
    by (simp add: gastime_SetTarget_def gtime_inv_def gt_abs_def clampTarget_bounds Let_def
        flip: r_def)
qed

text \<open>C23: Under its invariant a gas clock implements the model of ACP-194: \<open>Tick\<close> adds the gas to
  the clock and half of it to the excess (capped at 64 bits), \<open>FastForwardTo\<close> moves to the
  later instant and removes half of the skipped gas from the excess (floored at zero), and
  \<open>SetTarget\<close> rescales clock and excess to the clamped target, rounding up. None of the
  three panics, each keeps the invariant, and none touches the price configuration.\<close>

theorem gastime_refines_ACP194:
  assumes "gtime_inv tm" and "in_range tm"
  shows "(\<exists>tm'. gastime_Tick tm g = Inr tm' \<and> gtime_inv tm' \<and> gt_config tm' = gt_config tm
        \<and> gt_abs tm' = abs_tick (unat g) (gt_abs tm))
    \<and> (unat to + unat toFrac div unat (hertz (gt_time tm)) < 2 ^ 64 \<longrightarrow>
       (\<exists>tm'. gastime_FastForwardTo tm to toFrac = Inr tm' \<and> gtime_inv tm'
          \<and> gt_config tm' = gt_config tm
          \<and> gt_abs tm' = abs_fast_forward
               (unat to * unat (hertz (gt_time tm)) + unat toFrac) (gt_abs tm)))
    \<and> (\<exists>tm'. gastime_SetTarget tm t = Inr tm' \<and> gtime_inv tm' \<and> gt_config tm' = gt_config tm
        \<and> gt_abs tm' = abs_set_target (unat (clampTarget t)) (gt_abs tm))"
proof (intro conjI impI)
  have nw: "(ticks (gt_time tm) + unat g) div unat (hertz (gt_time tm)) < 2 ^ 64"
    using Tick_no_wrap [OF assms, of g] by simp
  show "\<exists>tm'. gastime_Tick tm g = Inr tm' \<and> gtime_inv tm' \<and> gt_config tm' = gt_config tm
      \<and> gt_abs tm' = abs_tick (unat g) (gt_abs tm)"
    using gastime_Tick_abs [OF assms(1) nw] by metis
next
  assume nw: "unat to + unat toFrac div unat (hertz (gt_time tm)) < 2 ^ 64"
  show "\<exists>tm'. gastime_FastForwardTo tm to toFrac = Inr tm' \<and> gtime_inv tm'
      \<and> gt_config tm' = gt_config tm \<and> gt_abs tm' = abs_fast_forward
           (unat to * unat (hertz (gt_time tm)) + unat toFrac) (gt_abs tm)"
    using gastime_FastForwardTo_abs [OF assms(1) nw] by metis
next
  have s: "seconds (gt_time tm) \<noteq> MaxUint64" using assms(2) by (auto simp: in_range_def)
  show "\<exists>tm'. gastime_SetTarget tm t = Inr tm' \<and> gtime_inv tm' \<and> gt_config tm' = gt_config tm
      \<and> gt_abs tm' = abs_set_target (unat (clampTarget t)) (gt_abs tm)"
    using gastime_SetTarget_abs [OF assms(1) s] by metis
qed

definition sample_gtime :: gtime where
  "sample_gtime = \<lparr>gt_time = \<lparr>seconds = 7, fraction = 9, hertz = 10\<rparr>, target = 5, excess = 100,
     gt_config = \<lparr>targetToExcessScaling = 87, minPrice = 1, staticPricing = False\<rparr>\<rparr>"

lemma sample_gtime_inv: "gtime_inv sample_gtime" "in_range sample_gtime"
  by (simp_all add: sample_gtime_def gtime_inv_def ptime_inv_def MinTarget_def u64_le_iff
      unat_MaxTarget rateOf_def TargetToRate_def config_ok_def in_range_def)

theorem gastime_refines_ACP194_witness:
  "(\<exists>tm'. gastime_Tick sample_gtime 30 = Inr tm' \<and> gt_abs tm' = (109, 115, 5))
   \<and> (\<exists>tm'. gastime_FastForwardTo sample_gtime 9 0 = Inr tm' \<and> gt_abs tm' = (90, 95, 5))
   \<and> (\<exists>tm'. gastime_SetTarget sample_gtime 7 = Inr tm' \<and> gt_abs tm' = (111, 140, 7))"
proof -
  have a: "gt_abs sample_gtime = (79, 100, 5)" "hertz (gt_time sample_gtime) = 10"
    by (simp_all add: gt_abs_def sample_gtime_def ticks_def)
  have c: "unat (clampTarget 7) = 7" by (simp add: unat_clampTarget)
  show ?thesis
    using gastime_refines_ACP194 [OF sample_gtime_inv, of 30 9 0 7]
    by (auto simp: a c ceil_div_def)
qed

section \<open>Finding the excess for a price\<close>

definition price_monotone :: "price_fun \<Rightarrow> bool" where
  "price_monotone calc \<longleftrightarrow> (\<forall>m k x y. x \<le> y \<longrightarrow> calc m x k \<le> calc m y k)"

definition upward :: "(gas \<Rightarrow> bool) \<Rightarrow> bool" where
  "upward r \<longleftrightarrow> (\<forall>x y. x \<le> y \<longrightarrow> r x \<longrightarrow> r y)"

lemma upward_price: "price_monotone calc \<Longrightarrow> upward (\<lambda>mid. calc m mid k \<ge> p)"
  unfolding price_monotone_def upward_def by (meson order_trans)

lemma findExcess_loop_least:
  assumes "upward reached" and "lo \<le> hi"
  shows "lo \<le> findExcess_loop reached lo hi \<and> findExcess_loop reached lo hi \<le> hi
    \<and> (\<forall>x. lo \<le> x \<and> x < findExcess_loop reached lo hi \<longrightarrow> \<not> reached x)
    \<and> (findExcess_loop reached lo hi < hi \<longrightarrow> reached (findExcess_loop reached lo hi))"
  using assms
proof (induction reached lo hi rule: findExcess_loop.induct)
  case (1 reached lo hi)
  define mid where "mid = lo + (hi - lo) div 2"
  show ?case
  proof (cases "lo < hi")
    case False
    then have "findExcess_loop reached lo hi = lo"
      by (simp add: findExcess_loop.simps [of reached lo hi])
    then show ?thesis using False "1.prems"(2) by auto
  next
    case True
    have m: "lo \<le> mid" "mid < hi" "mid + 1 \<le> hi" "lo \<le> mid + 1"
      and m1: "\<And>x. x < mid + 1 \<longleftrightarrow> x \<le> mid"
      using mid_bounds [OF True] True by (auto simp: mid_def u64_nat)
    show ?thesis
    proof (cases "reached mid")
      case r: True
      note IH = "1.IH"(1) [OF True mid_def r "1.prems"(1) m(1)]
      define R where "R = findExcess_loop reached lo mid"
      have eq: "findExcess_loop reached lo hi = R"
        using True r by (simp add: R_def findExcess_loop.simps [of reached lo hi] mid_def Let_def)
      have R: "lo \<le> R" "R \<le> mid" "\<forall>x. lo \<le> x \<and> x < R \<longrightarrow> \<not> reached x" "R < mid \<longrightarrow> reached R"
        using IH unfolding R_def by blast+
      have "reached R" using R(2,4) r by (cases "R = mid") auto
      moreover have "R \<le> hi" using R(2) m(2) by simp
      ultimately show ?thesis unfolding eq using R(1,3) by blast
    next
      case r: False
      note IH = "1.IH"(2) [OF True mid_def r "1.prems"(1) m(3)]
      define R where "R = findExcess_loop reached (mid + 1) hi"
      have eq: "findExcess_loop reached lo hi = R"
        using True r by (simp add: R_def findExcess_loop.simps [of reached lo hi] mid_def Let_def)
      have R: "mid + 1 \<le> R" "R \<le> hi" "\<forall>x. mid + 1 \<le> x \<and> x < R \<longrightarrow> \<not> reached x"
        "R < hi \<longrightarrow> reached R"
        using IH unfolding R_def by blast+
      have "\<not> reached x" if "x < R" for x
      proof (cases "x \<le> mid")
        case True
        then show ?thesis using r "1.prems"(1) unfolding upward_def by blast
      next
        case False
        then show ?thesis using m1 [of x] R(3) that by (simp add: not_less)
      qed
      moreover have "lo \<le> R" using R(1) m(4) by simp
      ultimately show ?thesis unfolding eq using R(2,4) by blast
    qed
  qed
qed

lemma findExcess_loop_antimono:
  assumes "upward r" and "upward r'" and "\<And>x. r' x \<Longrightarrow> r x" and "lo \<le> hi"
  shows "findExcess_loop r lo hi \<le> findExcess_loop r' lo hi"
proof (rule ccontr)
  define x x' where "x = findExcess_loop r lo hi" and "x' = findExcess_loop r' lo hi"
  assume "\<not> findExcess_loop r lo hi \<le> findExcess_loop r' lo hi"
  then have "x' < x" by (simp add: x_def x'_def)
  moreover have "x \<le> hi" "\<forall>y. lo \<le> y \<and> y < x \<longrightarrow> \<not> r y"
    using findExcess_loop_least [of r, OF assms(1,4)] by (auto simp: x_def)
  moreover have "lo \<le> x'" "x' < hi \<longrightarrow> r' x'"
    using findExcess_loop_least [of r', OF assms(2,4)] by (auto simp: x'_def)
  ultimately show False using assms(3) [of x'] by auto
qed

lemma findExcessForPrice_mono:
  assumes "price_monotone calc" and "p \<le> p'" and "target t = target u"
    and "gt_config t = gt_config u"
  shows "findExcessForPrice calc t p \<le> findExcessForPrice calc u p'"
proof -
  have e: "excessScalingFactor t = excessScalingFactor u"
    using assms by (simp add: excessScalingFactor_def)
  show ?thesis
  proof (cases "p \<le> minPrice (gt_config u) \<or> staticPricing (gt_config u)")
    case True
    then show ?thesis using assms by (auto simp: findExcessForPrice_def)
  next
    case False
    then show ?thesis
      using assms e unfolding findExcessForPrice_def
      by (auto simp: Let_def upward_price intro!: findExcess_loop_antimono intro: order_trans)
  qed
qed

text \<open>C24: When the price is above the minimum and pricing is dynamic, \<open>findExcessForPrice\<close>
  returns the smallest excess at which the price function reaches the target price: every
  smaller excess prices below the target, and the result prices at or above it whenever any
  64-bit excess does. Otherwise it returns zero. The binary search terminates.\<close>

theorem findExcessForPrice_least:
  assumes "price_monotone calc"
  shows "let m = minPrice (gt_config tm); k = excessScalingFactor tm;
             x = findExcessForPrice calc tm p
    in if p \<le> m \<or> staticPricing (gt_config tm) then x = 0
       else (\<forall>y < x. calc m y k < p) \<and> (calc m MaxUint64 k \<ge> p \<longrightarrow> calc m x k \<ge> p)"
proof (cases "p \<le> minPrice (gt_config tm) \<or> staticPricing (gt_config tm)")
  case True
  then show ?thesis by (simp add: findExcessForPrice_def Let_def)
next
  case False
  define r where "r = (\<lambda>mid. calc (minPrice (gt_config tm)) mid (excessScalingFactor tm) \<ge> p)"
  have up: "upward r" using assms unfolding r_def by (rule upward_price)
  have x: "findExcessForPrice calc tm p = findExcess_loop r 0 MaxUint64"
    using False by (simp add: findExcessForPrice_def r_def Let_def)
  note least = findExcess_loop_least [of r 0 MaxUint64, OF up]
  have "\<forall>y < findExcess_loop r 0 MaxUint64. \<not> r y" using least by simp
  moreover have "r (findExcess_loop r 0 MaxUint64)" if "r MaxUint64"
    using least that by (cases "findExcess_loop r 0 MaxUint64 = MaxUint64") (auto simp: less_le)
  ultimately show ?thesis using False by (simp add: x Let_def) (simp add: r_def not_le)
qed

theorem findExcessForPrice_least_witness:
  "findExcessForPrice (\<lambda>m x k. if x < 50 then 1 else 9) sample_gtime 5 = 50"
proof -
  have "price_monotone (\<lambda>m x k. if x < 50 then 1 else 9)"
    by (auto simp: price_monotone_def u64_nat)
  moreover define x where "x = findExcessForPrice (\<lambda>m x k. if x < 50 then 1 else 9) sample_gtime 5"
  moreover have "minPrice (gt_config sample_gtime) = 1" "\<not> staticPricing (gt_config sample_gtime)"
    by (simp_all add: sample_gtime_def)
  moreover have "\<not> 5 \<le> (1 :: u64)" "\<not> MaxUint64 < 50" by (simp_all add: u64_nat)
  ultimately have "(\<forall>y < x. (if y < 50 then 1 else 9) < (5 :: u64))
      \<and> (if x < 50 then 1 else 9) \<ge> (5 :: u64)"
    using findExcessForPrice_least [of "\<lambda>m x k. if x < 50 then 1 else 9" sample_gtime 5]
    by (simp add: Let_def)
  then have "(\<forall>y < x. y < 50) \<and> 50 \<le> x"
    using \<open>\<not> 5 \<le> (1 :: u64)\<close> by (auto simp: not_less split: if_splits)
  then have "x = 50" by (cases "50 < x") auto
  then show ?thesis unfolding x_def .
qed

section \<open>Blocks\<close>

lemma SubSecond_value:
  assumes "hooks_subsecond H"
  obtains g where "SubSecond H hdr rate = Inr g" and "g \<le> rate"
    and "unat g = ceil_div (nat (SubSecondBlockTime H hdr) * unat rate) 1000000000"
proof -
  let ?d = "SubSecondBlockTime H hdr"
  have d: "0 \<le> ?d" "?d < 1000000000"
    using assms by (auto simp: hooks_subsecond_def time_Second_def)
  have ud: "unat (word_of_int ?d :: u64) = nat ?d"
    using d by (intro unat_word_of_int_u64) simp_all
  have us: "unat (word_of_int time_Second :: u64) = 1000000000" by (simp add: time_Second_def)
  have le: "ceil_div (nat ?d * unat rate) 1000000000 \<le> unat rate"
    using d by (intro ceil_div_le) (simp_all add: mult.commute nat_le_iff)
  then have lt: "ceil_div (nat ?d * unat rate) 1000000000 < 2 ^ 64"
    using unat_lt_2_64 [of rate] by simp
  have "(word_of_int time_Second :: u64) \<noteq> 0" by (simp add: time_Second_def)
  then obtain q e where "MulDivCeil (word_of_int ?d) rate (word_of_int time_Second) = Inr (q, e, None)"
    and "unat q = ceil_div (nat ?d * unat rate) 1000000000"
    using MulDivCeil_spec' [of "word_of_int time_Second" "word_of_int ?d" rate] lt
    unfolding ud us by auto
  then show thesis using that [of q] le by (simp add: SubSecond_def u64_le_iff)
qed

text \<open>The instant at which a block starts, in ticks of a given rate.\<close>

definition block_start :: "('db, 'a) points_scheme \<Rightarrow> header \<Rightarrow> nat \<Rightarrow> nat" where
  "block_start H h rate = unat (hdr_Time h) * rate
     + ceil_div (nat (SubSecondBlockTime H h) * rate) 1000000000"

definition hdr_in_range :: "header \<Rightarrow> bool" where
  "hdr_in_range h \<longleftrightarrow> hdr_Time h \<noteq> MaxUint64"

lemma BeforeBlock_abs:
  assumes "gtime_inv tm" and "hooks_subsecond H" and "hdr_in_range h"
  obtains tm' where "BeforeBlock H tm h = Inr tm'" and "gtime_inv tm'"
    and "gt_abs tm' = abs_fast_forward (block_start H h (unat (hertz (gt_time tm)))) (gt_abs tm)"
    and "gt_config tm' = gt_config tm" and "target tm' = target tm"
proof -
  obtain g where g: "SubSecond H h (hertz (gt_time tm)) = Inr g" "g \<le> hertz (gt_time tm)"
    "unat g = ceil_div (nat (SubSecondBlockTime H h) * unat (hertz (gt_time tm))) 1000000000"
    using SubSecond_value [OF assms(2)] .
  have R: "0 < unat (hertz (gt_time tm))" using gtime_inv_nat [OF assms(1)] by simp
  have "unat g div unat (hertz (gt_time tm)) \<le> 1"
    using R g(2) by (metis div_le_mono div_self u64_le_iff less_not_refl)
  moreover have "unat (hdr_Time h) < 18446744073709551615"
    using assms(3) unat_le_max [of "hdr_Time h"] by (simp add: hdr_in_range_def u64_eq_iff)
  ultimately have nw: "unat (hdr_Time h) + unat g div unat (hertz (gt_time tm)) < 2 ^ 64" by simp
  obtain tm' where "gastime_FastForwardTo tm (hdr_Time h) g = Inr tm'" "gtime_inv tm'"
    "gt_abs tm' = abs_fast_forward (unat (hdr_Time h) * unat (hertz (gt_time tm)) + unat g) (gt_abs tm)"
    "gt_config tm' = gt_config tm" "target tm' = target tm"
    using gastime_FastForwardTo_abs [OF assms(1) nw] .
  then show thesis
    using that [of tm'] g by (simp add: BeforeBlock_def proxytime_Rate_def block_start_def)
qed

subsection \<open>Dominance of clocks\<close>

definition gt_le :: "gtime \<Rightarrow> gtime \<Rightarrow> bool" where
  "gt_le t u \<longleftrightarrow> gtime_inv t \<and> gtime_inv u \<and> target t = target u \<and> gt_config t = gt_config u
     \<and> ticks (gt_time t) \<le> ticks (gt_time u) \<and> excess t \<le> excess u"

definition after_clock :: "price_fun \<Rightarrow> ('db, 'a) points_scheme \<Rightarrow> header \<Rightarrow> gas \<Rightarrow> gtime \<Rightarrow> gtime res" where
  "after_clock calc H h g tm =
     res_bind (AfterBlock calc H tm g h) (\<lambda>(tm', err).
       case err of None \<Rightarrow> Inr tm' | Some e \<Rightarrow> Inl e)"

lemma gt_le_refl: "gtime_inv t \<Longrightarrow> gt_le t t"
  by (simp add: gt_le_def)

lemma gt_le_abs:
  assumes "gtime_inv t" and "gtime_inv u" and "gt_config t = gt_config u"
    and "gt_abs t = (n, x, T)" and "gt_abs u = (n', x', T)" and "n \<le> n'" and "x \<le> x'"
  shows "gt_le t u"
  using assms by (auto simp: gt_le_def gt_abs_def u64_le_iff u64_eq_iff)

lemma gt_le_absI:
  assumes "gtime_inv t" and "gtime_inv u" and "gt_config t = gt_config u"
    and "fst (gt_abs t) \<le> fst (gt_abs u)" and "fst (snd (gt_abs t)) \<le> fst (snd (gt_abs u))"
    and "snd (snd (gt_abs t)) = snd (snd (gt_abs u))"
  shows "gt_le t u"
  using assms by (auto simp: gt_le_def gt_abs_def u64_le_iff u64_eq_iff)

lemma gt_le_absD:
  assumes "gt_le t u"
  obtains n x n' x' where "gt_abs t = (n, x, unat (target u))" and "gt_abs u = (n', x', unat (target u))"
    and "n \<le> n'" and "x \<le> x'" and "gtime_inv t" and "gtime_inv u" and "gt_config t = gt_config u"
    and "hertz (gt_time t) = hertz (gt_time u)"
  using assms that [of "ticks (gt_time t)" "unat (excess t)" "ticks (gt_time u)" "unat (excess u)"]
  by (simp add: gt_le_def gt_abs_def u64_le_iff gtime_inv_def)

lemma gt_le_in_range: "gt_le t u \<Longrightarrow> in_range u \<Longrightarrow> in_range t"
proof -
  assume le: "gt_le t u" and r: "in_range u"
  have "ticks (gt_time t) div unat (hertz (gt_time t)) \<le> ticks (gt_time u) div unat (hertz (gt_time u))"
    using le by (simp add: gt_le_def gtime_inv_def div_le_mono)
  then show ?thesis
    using le r ticks_seconds [of "gt_time t"] ticks_seconds [of "gt_time u"]
    by (simp add: gt_le_def gtime_inv_def in_range_def)
qed

lemma gt_le_price:
  "price_monotone calc \<Longrightarrow> gt_le t u \<Longrightarrow> gastime_Price calc t \<le> gastime_Price calc u"
  by (auto simp: gastime_Price_def gt_le_def price_monotone_def excessScalingFactor_def)

lemma BaseFee_mono:
  "gastime_Price calc t \<le> gastime_Price calc u \<Longrightarrow> gastime_BaseFee calc t \<le> gastime_BaseFee calc u"
  by (simp add: gastime_BaseFee_def word_le_def uint_up_ucast is_up_def source_size_def
      target_size_def word_size)

lemma gt_le_BaseFee:
  "price_monotone calc \<Longrightarrow> gt_le t u \<Longrightarrow> gastime_BaseFee calc t \<le> gastime_BaseFee calc u"
  by (intro BaseFee_mono gt_le_price)

lemma BeforeBlock_mono:
  assumes "hooks_subsecond H" and "gt_le t u" and "hdr_in_range h" and "BeforeBlock H u h = Inr u'"
  shows "\<exists>t'. BeforeBlock H t h = Inr t' \<and> gt_le t' u'"
proof -
  obtain n x n' x' where a: "gt_abs t = (n, x, unat (target u))" "gt_abs u = (n', x', unat (target u))"
    "n \<le> n'" "x \<le> x'" and i: "gtime_inv t" "gtime_inv u" "gt_config t = gt_config u"
    and h: "hertz (gt_time t) = hertz (gt_time u)"
    using gt_le_absD [OF assms(2)] .
  let ?s = "block_start H h (unat (hertz (gt_time u)))"
  obtain t' where t: "BeforeBlock H t h = Inr t'" "gtime_inv t'"
    "gt_abs t' = abs_fast_forward ?s (gt_abs t)" "gt_config t' = gt_config t"
    using BeforeBlock_abs [OF i(1) assms(1,3)] unfolding h by metis
  have u: "gtime_inv u'" "gt_abs u' = abs_fast_forward ?s (gt_abs u)" "gt_config u' = gt_config u"
    using BeforeBlock_abs [OF i(2) assms(1,3)] assms(4) by (metis Inr_inject)+
  have "gt_le t' u'"
  proof (rule gt_le_abs [OF t(2) u(1)])
    show "gt_config t' = gt_config u'" using t u i by simp
    show "gt_abs t' = (max n ?s, x - (max n ?s - n) div 2, unat (target u))" using t a by simp
    show "gt_abs u' = (max n' ?s, x' - (max n' ?s - n') div 2, unat (target u))" using u a by simp
    show "max n ?s \<le> max n' ?s" using a by simp
    have "(max n' ?s - n') div 2 \<le> (max n ?s - n) div 2" using a(3) by (intro div_le_mono) simp
    then show "x - (max n ?s - n) div 2 \<le> x' - (max n' ?s - n') div 2" using a(4) by linarith
  qed
  then show ?thesis using t by blast
qed

lemma SetTarget_after_Tick:
  assumes "gtime_inv tm" and "in_range tm"
  obtains tm1 tm2 where "gastime_Tick tm g = Inr tm1" and "gastime_SetTarget tm1 t = Inr tm2"
    and "gtime_inv tm1" and "gtime_inv tm2"
    and "gt_abs tm1 = abs_tick (unat g) (gt_abs tm)"
    and "gt_abs tm2 = abs_set_target (unat (clampTarget t)) (gt_abs tm1)"
    and "gt_config tm1 = gt_config tm" and "gt_config tm2 = gt_config tm"
    and "target tm1 = target tm" and "target tm2 = clampTarget t"
proof -
  have lt: "(ticks (gt_time tm) + unat g) div unat (hertz (gt_time tm)) < 18446744073709551615"
    using Tick_no_wrap [OF assms] .
  then have nw: "(ticks (gt_time tm) + unat g) div unat (hertz (gt_time tm)) < 2 ^ 64" by simp
  obtain tm1 where t1: "gastime_Tick tm g = Inr tm1" "gtime_inv tm1"
    "gt_abs tm1 = abs_tick (unat g) (gt_abs tm)" "gt_config tm1 = gt_config tm" "target tm1 = target tm"
    using gastime_Tick_abs [OF assms(1) nw] .
  have "hertz (gt_time tm1) = hertz (gt_time tm)" "ticks (gt_time tm1) = ticks (gt_time tm) + unat g"
    using t1 assms(1) by (simp_all add: gtime_inv_def gt_abs_def)
  then have "unat (seconds (gt_time tm1)) < 18446744073709551615"
    using lt ticks_seconds [of "gt_time tm1"] t1(2) by (simp add: gtime_inv_def)
  then have s: "seconds (gt_time tm1) \<noteq> MaxUint64" by auto
  obtain tm2 where "gastime_SetTarget tm1 t = Inr tm2" "gtime_inv tm2"
    "gt_abs tm2 = abs_set_target (unat (clampTarget t)) (gt_abs tm1)"
    "gt_config tm2 = gt_config tm1" "target tm2 = clampTarget t"
    using gastime_SetTarget_abs [OF t1(2) s] .
  then show thesis using that t1 by simp
qed

lemma config_equals_iff: "config_equals c d \<longleftrightarrow> c = d"
  by (auto simp: config_equals_def)

lemma newConfig_ok: "newConfig from = Inr cfg \<Longrightarrow> config_ok cfg"
  by (auto simp: newConfig_def config_ok_def GasPriceConfig_Validate_None split: option.splits)

text \<open>\<open>AfterBlock\<close> on a clock in range, in terms of its two first steps.\<close>

lemma after_clock_value:
  assumes "gtime_inv tm" and "in_range tm" and "GasConfigAfter H h = (t, hc)"
  obtains tm1 tm2 where "gtime_inv tm1" and "gtime_inv tm2"
    and "gt_abs tm1 = abs_tick (unat g) (gt_abs tm)"
    and "gt_abs tm2 = abs_set_target (unat (clampTarget t)) (gt_abs tm1)"
    and "gt_config tm1 = gt_config tm" and "gt_config tm2 = gt_config tm"
    and "target tm1 = target tm" and "target tm2 = clampTarget t"
    and "after_clock calc H h g tm = res_bind (newConfig hc) (\<lambda>cfg. Inr
       (if cfg = gt_config tm then tm2
        else let tm3 = tm2\<lparr>gt_config := cfg\<rparr>
             in tm3\<lparr>excess := findExcessForPrice calc tm3 (gastime_Price calc tm1)\<rparr>))"
proof -
  obtain tm1 tm2 where r: "gastime_Tick tm g = Inr tm1" "gastime_SetTarget tm1 t = Inr tm2"
    "gtime_inv tm1" "gtime_inv tm2" "gt_abs tm1 = abs_tick (unat g) (gt_abs tm)"
    "gt_abs tm2 = abs_set_target (unat (clampTarget t)) (gt_abs tm1)"
    "gt_config tm1 = gt_config tm" "gt_config tm2 = gt_config tm"
    "target tm1 = target tm" "target tm2 = clampTarget t"
    using SetTarget_after_Tick [OF assms(1,2)] .
  show thesis
    using that [OF r(3-10)] r assms(3)
    by (auto simp: after_clock_def AfterBlock_def config_equals_iff Let_def split: sum.splits)
qed

lemma after_clock_mono:
  assumes mono: "price_monotone calc" and le: "gt_le t u" and room: "in_range u" and g: "g \<le> g'"
    and u': "after_clock calc H h g' u = Inr u'"
  shows "\<exists>t'. after_clock calc H h g t = Inr t' \<and> gt_le t' u'"
proof -
  obtain T hc where hk: "GasConfigAfter H h = (T, hc)" by fastforce
  obtain n x n' x' where a: "gt_abs t = (n, x, unat (target u))" "gt_abs u = (n', x', unat (target u))"
    "n \<le> n'" "x \<le> x'" and i: "gtime_inv t" "gtime_inv u" "gt_config t = gt_config u"
    using gt_le_absD [OF le] .
  obtain t1 t2 where t: "gtime_inv t1" "gtime_inv t2" "gt_abs t1 = abs_tick (unat g) (gt_abs t)"
    "gt_abs t2 = abs_set_target (unat (clampTarget T)) (gt_abs t1)"
    "gt_config t1 = gt_config t" "gt_config t2 = gt_config t" "target t1 = target t"
    "target t2 = clampTarget T"
    and ta: "after_clock calc H h g t = res_bind (newConfig hc) (\<lambda>cfg. Inr
       (if cfg = gt_config t then t2
        else let t3 = t2\<lparr>gt_config := cfg\<rparr>
             in t3\<lparr>excess := findExcessForPrice calc t3 (gastime_Price calc t1)\<rparr>))"
    using after_clock_value [OF i(1) gt_le_in_range [OF le room] hk] .
  obtain u1 u2 where u: "gtime_inv u1" "gtime_inv u2" "gt_abs u1 = abs_tick (unat g') (gt_abs u)"
    "gt_abs u2 = abs_set_target (unat (clampTarget T)) (gt_abs u1)"
    "gt_config u1 = gt_config u" "gt_config u2 = gt_config u" "target u1 = target u"
    "target u2 = clampTarget T"
    and ua: "after_clock calc H h g' u = res_bind (newConfig hc) (\<lambda>cfg. Inr
       (if cfg = gt_config u then u2
        else let u3 = u2\<lparr>gt_config := cfg\<rparr>
             in u3\<lparr>excess := findExcessForPrice calc u3 (gastime_Price calc u1)\<rparr>))"
    using after_clock_value [OF i(2) room hk] .
  have half: "unat g div 2 \<le> unat g' div 2" "unat g \<le> unat g'"
    using g by (simp_all add: u64_le_iff div_le_mono)
  have le1: "gt_le t1 u1"
    by (rule gt_le_absI [OF t(1) u(1)]) (use t u i a half in \<open>simp_all add: min.coboundedI1 add_mono\<close>)
  have le2: "gt_le t2 u2"
  proof -
    obtain m y m' y' where b: "gt_abs t1 = (m, y, unat (target u1))"
      "gt_abs u1 = (m', y', unat (target u1))" "m \<le> m'" "y \<le> y'"
      using gt_le_absD [OF le1] by metis
    show ?thesis
      by (rule gt_le_absI [OF t(2) u(2)]) (use t(4,6) u(4,6) i(3) b in \<open>simp_all add: ceil_div_mono min.coboundedI1\<close>)
  qed
  obtain cfg where cfg: "newConfig hc = Inr cfg" using u' ua by (cases "newConfig hc") auto
  have ex: "findExcessForPrice calc (t2\<lparr>gt_config := cfg\<rparr>) (gastime_Price calc t1)
      \<le> findExcessForPrice calc (u2\<lparr>gt_config := cfg\<rparr>) (gastime_Price calc u1)"
    by (rule findExcessForPrice_mono [OF mono gt_le_price [OF mono le1]]) (simp_all add: t u)
  show ?thesis
  proof (cases "cfg = gt_config u")
    case True
    then show ?thesis using ta ua u' cfg i(3) le2 by simp
  next
    case False
    then show ?thesis
      using ta ua u' cfg i(3) le2 ex newConfig_ok [OF cfg]
      by (auto simp: Let_def gt_le_def gtime_inv_def)
  qed
qed

definition gt_dom :: "price_fun \<Rightarrow> ('db, 'a) points_scheme \<Rightarrow> gtime \<Rightarrow> gtime \<Rightarrow> bool" where
  "gt_dom calc H t u \<longleftrightarrow> price_monotone calc \<and> hooks_subsecond H \<and> gt_le t u"

interpretation gas_clock_run: clock_dominance "gt_dom calc H" "\<lambda>h tm. BeforeBlock H tm h"
  "after_clock calc H" in_range hdr_in_range "gastime_BaseFee calc"
  for calc and H :: "('db, 'a) points_scheme"
proof unfold_locales
  fix t u u' :: gtime and h :: header
  assume "gt_dom calc H t u" and "hdr_in_range h" and "BeforeBlock H u h = Inr u'"
  then show "\<exists>t'. BeforeBlock H t h = Inr t' \<and> gt_dom calc H t' u'"
    using BeforeBlock_mono [of H t u h u'] by (auto simp: gt_dom_def)
next
  fix t u u' :: gtime and h :: header and g g' :: gas
  assume "gt_dom calc H t u" and "in_range u" and "g \<le> g'" and "after_clock calc H h g' u = Inr u'"
  then show "\<exists>t'. after_clock calc H h g t = Inr t' \<and> gt_dom calc H t' u'"
    using after_clock_mono [of calc t u g g' H h u'] by (auto simp: gt_dom_def)
next
  fix t u :: gtime
  assume "gt_dom calc H t u"
  then show "gastime_BaseFee calc t \<le> gastime_BaseFee calc u"
    by (simp add: gt_dom_def gt_le_BaseFee)
qed

text \<open>C22: The worst-case price bound. Two gas clocks that start together (the first no later and
  with no more excess) and are run over the same headers, the first consuming no more gas at
  each block than the second: whenever the second run succeeds within the range of the clock,
  the first succeeds too, and at every block, and after the last, its base fee is at most that
  of the second. Changes of target and of price configuration between blocks are included.\<close>

theorem worst_case_base_fee_bound:
  fixes H :: "('db, 'a) points_scheme"
  assumes "price_monotone calc" and "hooks_subsecond H"
    and "list_all2 (\<lambda>(h, g) (h', g'). h = h' \<and> g \<le> g') actual worst"
    and "gt_le t u"
    and "list_all (\<lambda>(h, _). hdr_in_range h) worst"
    and "clock_run (\<lambda>h tm. BeforeBlock H tm h) (after_clock calc H) u worst = Inr (us, u')"
    and "list_all in_range us"
  shows "\<exists>ts t'. clock_run (\<lambda>h tm. BeforeBlock H tm h) (after_clock calc H) t actual = Inr (ts, t')
    \<and> list_all2 (\<lambda>a w. gastime_BaseFee calc a \<le> gastime_BaseFee calc w) ts us
    \<and> gastime_BaseFee calc t' \<le> gastime_BaseFee calc u'"
  using gas_clock_run.fees_dominated [OF assms(3) _ assms(5,6,7)] assms(1,2,4)
  by (simp add: gt_dom_def)

definition sample_points :: "unit points" where
  "sample_points = \<lparr>GasConfigAfter = (\<lambda>_. (5, DefaultGasPriceConfig)), SubSecondBlockTime = (\<lambda>_. 0),
     SettledHeight = (\<lambda>_. 0), EndOfBlockOps = (\<lambda>_. Inr []), CanExecuteTransaction = (\<lambda>_ _ _. None)\<rparr>"

definition sample_header :: header where
  "sample_header = \<lparr>ParentHash = 1, Number = 1, hdr_Time = 9, Root = 0, ReceiptHash = 0, GasLimit = 0,
     GasUsed = 0, BaseFee = None, hdr_extra = 0\<rparr>"

lemma sample_price_monotone: "price_monotone (\<lambda>m x k. max m x)"
  by (auto simp: price_monotone_def max_def)

lemma sample_header_in_range: "unat (hdr_Time sample_header) < 2 ^ 62 - 1" "hdr_in_range sample_header"
  by (simp_all add: sample_header_def hdr_in_range_def)

lemma sample_points_subsecond: "hooks_subsecond sample_points"
  by (simp add: hooks_subsecond_def sample_points_def time_Second_def)

lemma after_clock_defined:
  assumes "gtime_inv tm" and "in_range tm"
    and "GasPriceConfig_Validate (snd (GasConfigAfter H h)) = None"
  shows "\<exists>tm'. after_clock calc H h g tm = Inr tm' \<and> gtime_inv tm'"
proof -
  obtain t hc where hk: "GasConfigAfter H h = (t, hc)" by fastforce
  obtain cfg where c: "newConfig hc = Inr cfg"
    using assms(3) hk by (auto simp: newConfig_def split: option.splits)
  obtain tm1 tm2 where "gtime_inv tm2" and "after_clock calc H h g tm = res_bind (newConfig hc)
      (\<lambda>cfg. Inr (if cfg = gt_config tm then tm2
        else let tm3 = tm2\<lparr>gt_config := cfg\<rparr>
             in tm3\<lparr>excess := findExcessForPrice calc tm3 (gastime_Price calc tm1)\<rparr>))"
    using after_clock_value [OF assms(1,2) hk] by blast
  then show ?thesis using c newConfig_ok [OF c] by (auto simp: gtime_inv_def Let_def)
qed

lemma BeforeBlock_in_range:
  assumes "gtime_inv tm" and "in_range tm" and "hooks_subsecond H" and "unat (hdr_Time h) < 2 ^ 62 - 1"
  shows "\<exists>tm'. BeforeBlock H tm h = Inr tm' \<and> gtime_inv tm' \<and> in_range tm'"
proof -
  let ?R = "unat (hertz (gt_time tm))"
  have hr: "hdr_in_range h" using assms(4) by (auto simp: hdr_in_range_def)
  obtain tm' where t: "BeforeBlock H tm h = Inr tm'" "gtime_inv tm'"
    "gt_abs tm' = abs_fast_forward (block_start H h ?R) (gt_abs tm)" "target tm' = target tm"
    using BeforeBlock_abs [OF assms(1,3) hr] by metis
  have R: "0 < ?R" "hertz (gt_time tm') = hertz (gt_time tm)"
    using gtime_inv_nat [OF assms(1)] t assms(1) by (auto simp: gtime_inv_def)
  have "nat (SubSecondBlockTime H h) * ?R \<le> ?R * 1000000000"
    using assms(3) by (simp add: hooks_subsecond_def time_Second_def nat_le_iff less_imp_le mult.commute)
  then have "block_start H h ?R \<le> (unat (hdr_Time h) + 1) * ?R"
    by (simp add: block_start_def ceil_div_le)
  also have "\<dots> < 2 ^ 62 * ?R" using assms(4) R(1) by (intro mult_less_mono1) linarith+
  finally have "block_start H h ?R div ?R < 2 ^ 62" using R(1) by (simp add: div_less_iff_less_mult)
  moreover have "ticks (gt_time tm) div ?R < 2 ^ 62"
    using assms(1,2) ticks_seconds [of "gt_time tm"] by (simp add: gtime_inv_def in_range_def)
  moreover have "ticks (gt_time tm') = max (ticks (gt_time tm)) (block_start H h ?R)"
    using t(3) by (simp add: gt_abs_def)
  ultimately have "ticks (gt_time tm') div ?R < 2 ^ 62" by (simp add: max_def)
  then have "in_range tm'"
    using t(2) R(2) ticks_seconds [of "gt_time tm'"] by (simp add: gtime_inv_def in_range_def)
  then show ?thesis using t by blast
qed

theorem worst_case_base_fee_bound_witness:
  "\<exists>t0 t'. clock_run (\<lambda>h tm. BeforeBlock sample_points tm h) (after_clock (\<lambda>m x k. max m x) sample_points)
      sample_gtime [(sample_header, 21000)] = Inr ([t0], t')"
proof -
  note h = sample_header_in_range and mono = sample_price_monotone
  obtain u1 where u1: "BeforeBlock sample_points sample_gtime sample_header = Inr u1"
    "gtime_inv u1" "in_range u1"
    using BeforeBlock_in_range [OF sample_gtime_inv sample_points_subsecond h(1)] by blast
  have "GasPriceConfig_Validate (snd (GasConfigAfter sample_points sample_header)) = None"
    by (simp add: sample_points_def DefaultGasPriceConfig_def GasPriceConfig_Validate_def)
  then obtain u' where u': "after_clock (\<lambda>m x k. max m x) sample_points sample_header 42000 u1 = Inr u'"
    using after_clock_defined [OF u1(2,3)] by blast
  have "\<exists>ts t'. clock_run (\<lambda>h tm. BeforeBlock sample_points tm h)
        (after_clock (\<lambda>m x k. max m x) sample_points) sample_gtime [(sample_header, 21000)] = Inr (ts, t')
    \<and> list_all2 (\<lambda>a w. gastime_BaseFee (\<lambda>m x k. max m x) a \<le> gastime_BaseFee (\<lambda>m x k. max m x) w) ts [u1]
    \<and> gastime_BaseFee (\<lambda>m x k. max m x) t' \<le> gastime_BaseFee (\<lambda>m x k. max m x) u'"
    by (rule worst_case_base_fee_bound [OF mono sample_points_subsecond, where u = sample_gtime
          and worst = "[(sample_header, 42000)]"])
      (use u1 u' h sample_gtime_inv in \<open>simp_all add: gt_le_refl u64_nat\<close>)
  then show ?thesis by (auto simp: list_all2_Cons2)
qed

text \<open>Preparing the clock for a block can only lower the price: a base fee computed from the
  clock at the end of one block bounds the base fee of the next block, whatever its time.\<close>

theorem BeforeBlock_lowers_price:
  assumes "price_monotone calc" and "gtime_inv tm" and "hooks_subsecond H" and "hdr_in_range h"
  shows "\<exists>tm'. BeforeBlock H tm h = Inr tm' \<and> gtime_inv tm' \<and> excess tm' \<le> excess tm
    \<and> ticks (gt_time tm) \<le> ticks (gt_time tm')
    \<and> gastime_BaseFee calc tm' \<le> gastime_BaseFee calc tm"
proof -
  obtain tm' where t: "BeforeBlock H tm h = Inr tm'" "gtime_inv tm'"
    "gt_abs tm' = abs_fast_forward (block_start H h (unat (hertz (gt_time tm)))) (gt_abs tm)"
    "gt_config tm' = gt_config tm" "target tm' = target tm"
    using BeforeBlock_abs [OF assms(2-4)] .
  have x: "excess tm' \<le> excess tm" "ticks (gt_time tm) \<le> ticks (gt_time tm')"
    using t(3) by (simp_all add: gt_abs_def u64_le_iff)
  have "gastime_Price calc tm' \<le> gastime_Price calc tm"
    using assms(1) x(1) t(4,5) by (simp add: gastime_Price_def price_monotone_def excessScalingFactor_def)
  then have "gastime_BaseFee calc tm' \<le> gastime_BaseFee calc tm" by (rule BaseFee_mono)
  then show ?thesis using t x by blast
qed

theorem BeforeBlock_lowers_price_witness:
  "\<exists>tm'. BeforeBlock sample_points sample_gtime sample_header = Inr tm' \<and> gtime_inv tm'
    \<and> excess tm' \<le> 100
    \<and> gastime_BaseFee (\<lambda>m x k. max m x) tm' \<le> gastime_BaseFee (\<lambda>m x k. max m x) sample_gtime"
proof -
  have "excess sample_gtime = 100" by (simp add: sample_gtime_def)
  then show ?thesis
    using BeforeBlock_lowers_price [OF sample_price_monotone sample_gtime_inv(1) sample_points_subsecond
        sample_header_in_range(2)]
    by metis
qed

section \<open>Construction\<close>

text \<open>\<open>New\<close> rejects exactly the configurations with a zero scaling or a zero minimum price,
  with the corresponding error, and otherwise returns a clock that satisfies the invariant,
  carries the given excess and a target clamped to the allowed range, and is at an instant no
  earlier than the given time and less than one unit of gas later.\<close>

theorem gastime_New_spec:
  assumes "0 \<le> t" and "Time_Unix t < 2 ^ 63"
  shows "case GasPriceConfig_Validate cfg of
      Some e \<Rightarrow> gastime_New t targ x cfg = Inl (ErrInvalidGasPriceConfig e)
    | None \<Rightarrow> \<exists>tm. gastime_New t targ x cfg = Inr tm \<and> gtime_inv tm \<and> excess tm = x
        \<and> target tm = clampTarget targ
        \<and> of_int t / 10 ^ 9 \<le> instant (gt_time tm)
        \<and> instant (gt_time tm) < of_int t / 10 ^ 9 + 1 / of_nat (unat (rateOf (clampTarget targ)))"
proof (cases "GasPriceConfig_Validate cfg")
  case (Some e)
  then show ?thesis by (simp add: gastime_New_def newConfig_def)
next
  case None
  then obtain c where c: "newConfig cfg = Inr c" by (simp add: newConfig_def)
  obtain p where p: "proxytime_Of t = Inr p" "ptime_inv p" "hertz p = 1000000000" "int (ticks p) = t"
    using Of_ticks [of t] assms by auto
  have r: "unat (rateOf (clampTarget targ)) = 2 * unat (clampTarget targ)"
    by (simp add: unat_rateOf clampTarget_bounds)
  then have r0: "rateOf (clampTarget targ) \<noteq> 0"
    by (simp add: unat_pos_iff [symmetric] unat_clampTarget)
  have "int (unat (seconds p)) = t div 1000000000"
    using ticks_seconds [OF p(2)] p(3,4) by (auto simp: zdiv_int)
  then have s: "seconds p \<noteq> MaxUint64"
    using assms by (auto simp: Time_Unix_def time_Second_def)
  obtain p' where p': "proxytime_SetRate p (rateOf (clampTarget targ)) = Inr p'" "ptime_inv p'"
    "hertz p' = rateOf (clampTarget targ)" "instant p \<le> instant p'"
    "instant p' < instant p + 1 / of_nat (unat (rateOf (clampTarget targ)))"
    using SetRate_instant' [OF p(2) r0 s] by blast
  have "instant p = of_int t / 10 ^ 9"
    using p(3,4) by (simp add: instant_def flip: p(4))
  then show ?thesis
    using None c p p' newConfig_ok [OF c] clampTarget_bounds [of targ]
    by (simp add: gastime_New_def gtime_inv_def)
qed

theorem gastime_New_spec_witness:
  "\<exists>tm. gastime_New 1500000000 0 7 DefaultGasPriceConfig = Inr tm \<and> gtime_inv tm \<and> target tm = 1"
proof -
  have "GasPriceConfig_Validate DefaultGasPriceConfig = None"
    by (simp add: GasPriceConfig_Validate_def DefaultGasPriceConfig_def)
  moreover have "clampTarget 0 = 1" by (simp add: u64_eq_iff unat_clampTarget)
  ultimately show ?thesis
    using gastime_New_spec [of 1500000000 0 7 DefaultGasPriceConfig]
    by (auto simp: Time_Unix_def time_Second_def)
qed

end
