(* ===== verification/StateRes.thy ===== *)
theory StateRes
  imports Prelude
begin

text \<open>
  Go code that mutates shared state and may fail. A call is a function from the state to a
  result (\<open>Inl\<close> the error or panic) and the state it leaves behind, so a failing call still
  has its partial effects. \<open>mbind m f\<close> is the idiom
  \<^verbatim>\<open>x, err := m(); if err != nil { return err }; f(x)\<close>.

  \<open>preserves P m\<close> says that \<open>m\<close> keeps the predicate \<open>P\<close> of the state on every outcome;
  its rules, in \<open>preserves_rules\<close>, follow the structure of the code.
\<close>

type_synonym ('w, 'a) prog = "'w \<Rightarrow> 'a res \<times> 'w"

definition mreturn :: "'a \<Rightarrow> ('w, 'a) prog" where
  "mreturn x = (\<lambda>w. (Inr x, w))"

definition mfail :: "go_error \<Rightarrow> ('w, 'a) prog" where
  "mfail e = (\<lambda>w. (Inl e, w))"

definition mbind :: "('w, 'a) prog \<Rightarrow> ('a \<Rightarrow> ('w, 'b) prog) \<Rightarrow> ('w, 'b) prog" where
  "mbind m f = (\<lambda>w. case m w of (Inl e, w') \<Rightarrow> (Inl e, w') | (Inr x, w') \<Rightarrow> f x w')"

definition mget :: "('w \<Rightarrow> 'a) \<Rightarrow> ('w, 'a) prog" where
  "mget f = (\<lambda>w. (Inr (f w), w))"

definition mmod :: "('w \<Rightarrow> 'w) \<Rightarrow> ('w, unit) prog" where
  "mmod f = (\<lambda>w. (Inr (), f w))"

definition mlift :: "'a res \<Rightarrow> ('w, 'a) prog" where
  "mlift r = (\<lambda>w. (r, w))"

definition mguard :: "bool \<Rightarrow> go_error \<Rightarrow> ('w, unit) prog" where
  "mguard b e = (if b then mreturn () else mfail e)"

text \<open>\<^verbatim>\<open>fmt.Errorf\<close> around the error of a call.\<close>

definition mmap_err :: "(go_error \<Rightarrow> go_error) \<Rightarrow> ('w, 'a) prog \<Rightarrow> ('w, 'a) prog" where
  "mmap_err g m = (\<lambda>w. case m w of (Inl e, w') \<Rightarrow> (Inl (Errorf g e), w') | (Inr x, w') \<Rightarrow> (Inr x, w'))"

text \<open>A \<^verbatim>\<open>range\<close> loop that stops at the first error.\<close>

fun mfor :: "'a list \<Rightarrow> ('a \<Rightarrow> ('w, unit) prog) \<Rightarrow> ('w, unit) prog" where
  "mfor [] f = mreturn ()"
| "mfor (x # xs) f = mbind (f x) (\<lambda>_. mfor xs f)"

named_theorems prog_simps \<open>evaluation of programs\<close>
named_theorems preserves_rules \<open>structural rules of preservation\<close>

lemma mreturn_apply [prog_simps]: "mreturn x w = (Inr x, w)"
  by (simp add: mreturn_def)

lemma mfail_apply [prog_simps]: "mfail e w = (Inl e, w)"
  by (simp add: mfail_def)

lemma mget_apply [prog_simps]: "mget f w = (Inr (f w), w)"
  by (simp add: mget_def)

lemma mmod_apply [prog_simps]: "mmod f w = (Inr (), f w)"
  by (simp add: mmod_def)

lemma mlift_apply [prog_simps]: "mlift r w = (r, w)"
  by (simp add: mlift_def)

lemma mguard_apply [prog_simps]: "mguard b e w = (if b then (Inr (), w) else (Inl e, w))"
  by (simp add: mguard_def mreturn_def mfail_def)

lemma mbind_apply [prog_simps]:
  "mbind m f w = (case m w of (Inl e, w') \<Rightarrow> (Inl e, w') | (Inr x, w') \<Rightarrow> f x w')"
  by (simp add: mbind_def)

lemma mmap_err_apply [prog_simps]:
  "mmap_err g m w =
     (case m w of (Inl e, w') \<Rightarrow> (Inl (Errorf g e), w') | (Inr x, w') \<Rightarrow> (Inr x, w'))"
  by (simp add: mmap_err_def)

lemma mbind_Inr:
  "mbind m f w = (Inr y, w'') \<longleftrightarrow> (\<exists>x w'. m w = (Inr x, w') \<and> f x w' = (Inr y, w''))"
  by (auto simp: mbind_def split: prod.splits sum.splits)

lemma mbind_InrE:
  assumes "mbind m f w = (Inr y, w'')"
  obtains x w' where "m w = (Inr x, w')" and "f x w' = (Inr y, w'')"
  using assms by (auto simp: mbind_Inr)

lemma mmap_err_Inr: "mmap_err g m w = (Inr x, w') \<longleftrightarrow> m w = (Inr x, w')"
  by (auto simp: mmap_err_def split: prod.splits sum.splits)

definition preserves :: "('w \<Rightarrow> bool) \<Rightarrow> ('w, 'a) prog \<Rightarrow> bool" where
  "preserves P m \<longleftrightarrow> (\<forall>w. P w \<longrightarrow> P (snd (m w)))"

lemma preservesD: "preserves P m \<Longrightarrow> P w \<Longrightarrow> m w = (r, w') \<Longrightarrow> P w'"
  by (metis preserves_def snd_conv)

lemma preservesI: "(\<And>w. P w \<Longrightarrow> P (snd (m w))) \<Longrightarrow> preserves P m"
  by (simp add: preserves_def)

lemma preserves_mreturn [preserves_rules]: "preserves P (mreturn x)"
  by (simp add: preserves_def mreturn_def)

lemma preserves_mfail [preserves_rules]: "preserves P (mfail e)"
  by (simp add: preserves_def mfail_def)

lemma preserves_mget [preserves_rules]: "preserves P (mget f)"
  by (simp add: preserves_def mget_def)

lemma preserves_mlift [preserves_rules]: "preserves P (mlift r)"
  by (simp add: preserves_def mlift_def)

lemma preserves_mguard [preserves_rules]: "preserves P (mguard b e)"
  by (simp add: preserves_def prog_simps)

lemma preserves_mmod: "(\<And>w. P w \<Longrightarrow> P (f w)) \<Longrightarrow> preserves P (mmod f)"
  by (simp add: preserves_def mmod_def)

lemma preserves_mbind [preserves_rules]:
  assumes "preserves P m" and "\<And>x. preserves P (f x)"
  shows "preserves P (mbind m f)"
  using assms by (auto simp: preserves_def mbind_def split: prod.splits sum.splits)

lemma preserves_mmap_err [preserves_rules]:
  "preserves P m \<Longrightarrow> preserves P (mmap_err g m)"
  by (auto simp: preserves_def mmap_err_def split: prod.splits sum.splits)

lemma preserves_mfor [preserves_rules]:
  "(\<And>x. preserves P (f x)) \<Longrightarrow> preserves P (mfor xs f)"
  by (induction xs) (auto intro: preserves_rules)

lemma preserves_if [preserves_rules]:
  "(b \<Longrightarrow> preserves P m) \<Longrightarrow> (\<not> b \<Longrightarrow> preserves P m') \<Longrightarrow> preserves P (if b then m else m')"
  by simp

lemma preserves_option [preserves_rules]:
  "(x = None \<Longrightarrow> preserves P m) \<Longrightarrow> (\<And>y. x = Some y \<Longrightarrow> preserves P (f y))
    \<Longrightarrow> preserves P (case x of None \<Rightarrow> m | Some y \<Rightarrow> f y)"
  by (cases x) simp_all

lemma preserves_sum [preserves_rules]:
  "(\<And>y. x = Inl y \<Longrightarrow> preserves P (g y)) \<Longrightarrow> (\<And>y. x = Inr y \<Longrightarrow> preserves P (f y))
    \<Longrightarrow> preserves P (case x of Inl y \<Rightarrow> g y | Inr y \<Rightarrow> f y)"
  by (cases x) simp_all

lemma preserves_prod [preserves_rules]:
  "(\<And>a b. x = (a, b) \<Longrightarrow> preserves P (f a b)) \<Longrightarrow> preserves P (case x of (a, b) \<Rightarrow> f a b)"
  by (cases x) simp

end
