(* ===== verification/Environment.thy ===== *)
theory Environment
  imports Gastime StateRes
begin

text \<open>
  What the sources call outside the repository, as arguments of the model.

  \<open>env\<close> collects the functions of libevm (\<^verbatim>\<open>rawdb\<close>, \<^verbatim>\<open>types.DeriveSha\<close>, the header hash, receipt
  derivation), of avalanchego's height-indexed database and of the canoto codec. A write to
  the key-value store is a value of \<open>db_write\<close> naming the \<^verbatim>\<open>rawdb\<close> call that made it, and a
  batch is the list of its writes; \<open>BatchWrite\<close> is \<^verbatim>\<open>ethdb.Batch.Write\<close>.
  \<open>xdb_laws\<close>, \<open>canoto_laws\<close> and \<open>kv_laws\<close> state the documented behaviour the code relies on.

  The arithmetic of \<^verbatim>\<open>uint256.Int\<close> is that of 256-bit words with overflow reported.
\<close>

section \<open>Data shared with the EVM library\<close>


text \<open>Encoded execution results; the codec alone knows their structure.\<close>

type_synonym encoding = "nat list"
type_synonym ptr = nat

text \<open>\<^verbatim>\<open>types.MakeSigner\<close> chooses a signer by the chain configuration, which is fixed, and the
  number and time of the block.\<close>

type_synonym signer = "int \<times> u64"

record log_entry =
  l_BlockHash :: hash
  l_extra :: nat

record receipt =
  r_TxHash :: hash
  r_GasUsed :: u64
  r_BlockHash :: hash
  r_EffectiveGasPrice :: "int option"
  r_Logs :: "log_entry list"
  r_extra :: nat

record execution_results =
  byGas :: gtime
  er_baseFee :: u256
  receiptRoot :: hash
  stateRootPost :: hash
  byWall :: gotime
  er_receipts :: "receipt list"

text \<open>The zero \<^verbatim>\<open>time.Time\<close>: midnight, 1 January of the year 1.\<close>

definition zero_time :: gotime where
  "zero_time = - 62135596800 * time_Second"

section \<open>Databases and codecs\<close>

datatype db_write =
    WriteReceipts hash u64 "receipt list"
  | WriteHeadBlockHash hash
  | WriteHeadHeaderHash hash
  | WriteFinalizedBlockHash hash
  | WriteBlock eth_block
  | WriteTxLookupEntriesByBlock eth_block
  | WriteCanonicalHash hash u64

record ('kv, 'x) env =
  HeaderHash :: "header \<Rightarrow> hash"
  Sender :: "signer \<Rightarrow> transaction \<Rightarrow> address res"
  ValidateTransaction :: "transaction \<Rightarrow> header \<Rightarrow> signer \<Rightarrow> go_error option"
  EmptyCodeHash :: hash
  RLPDecode :: "encoding \<Rightarrow> eth_block res"
  RLPEncode :: "eth_block \<Rightarrow> encoding res"
  DeriveSha :: "receipt list \<Rightarrow> hash"
  DeriveFields :: "hash \<Rightarrow> u64 \<Rightarrow> u64 \<Rightarrow> int \<Rightarrow> transaction list \<Rightarrow> receipt list \<Rightarrow> receipt list res"
  MarshalCanoto :: "execution_results \<Rightarrow> encoding"
  UnmarshalCanoto :: "encoding \<Rightarrow> execution_results res"
  xdb_Put :: "u64 \<Rightarrow> encoding \<Rightarrow> 'x \<Rightarrow> go_error option \<times> 'x"
  xdb_Sync :: "u64 \<Rightarrow> u64 \<Rightarrow> 'x \<Rightarrow> go_error option \<times> 'x"
  xdb_Get :: "'x \<Rightarrow> u64 \<Rightarrow> encoding res"
  BatchWrite :: "db_write list \<Rightarrow> 'kv \<Rightarrow> go_error option \<times> 'kv"
  ReadRawReceipts :: "'kv \<Rightarrow> hash \<Rightarrow> u64 \<Rightarrow> receipt list"
  ReadCanonicalHash :: "'kv \<Rightarrow> u64 \<Rightarrow> hash"
  ReadBlock :: "'kv \<Rightarrow> hash \<Rightarrow> u64 \<Rightarrow> eth_block option"
  ReadHeader :: "'kv \<Rightarrow> hash \<Rightarrow> u64 \<Rightarrow> header option"
  ReadHeaderNumber :: "'kv \<Rightarrow> hash \<Rightarrow> u64 option"
  ReadHeadHeader :: "'kv \<Rightarrow> header option"
  ReadAllCanonicalHashes :: "'kv \<Rightarrow> u64 \<Rightarrow> u64 \<Rightarrow> u64 list"

definition xdb_laws :: "('kv, 'x, 'e) env_scheme \<Rightarrow> bool" where
  "xdb_laws E \<longleftrightarrow>
     (\<forall>n v x x'. xdb_Put E n v x = (None, x') \<longrightarrow>
        xdb_Get E x' n = Inr v \<and> (\<forall>m. m \<noteq> n \<longrightarrow> xdb_Get E x' m = xdb_Get E x m))
   \<and> (\<forall>a b x e x'. xdb_Sync E a b x = (e, x') \<longrightarrow> (\<forall>m. xdb_Get E x' m = xdb_Get E x m))"

text \<open>
  The codec keeps every field but the ephemeral ones, which read back as zero values, if the hashes have 32 bytes.
  The theory \<open>Canoto\<close> shows this of the generated codec.
\<close>

definition without_ephemeral :: "execution_results \<Rightarrow> execution_results" where
  "without_ephemeral e = e\<lparr>byWall := zero_time, er_receipts := []\<rparr>"

definition canoto_laws :: "('kv, 'x, 'e) env_scheme \<Rightarrow> bool" where
  "canoto_laws E \<longleftrightarrow> 
     (\<forall>e. receiptRoot e < 2 ^ 256 \<longrightarrow> stateRootPost e < 2 ^ 256 \<longrightarrow> UnmarshalCanoto E (MarshalCanoto E e) = Inr (without_ephemeral e))"

text \<open>
  What the batch writes establish for the readers: the last write of a canonical hash, of
  the receipts of a block, and of a block.
\<close>

definition kv_laws :: "('kv, 'x, 'e) env_scheme \<Rightarrow> bool" where
  "kv_laws E \<longleftrightarrow>
     (\<forall>ws kv kv' h n. BatchWrite E ws kv = (None, kv') \<longrightarrow>
        WriteCanonicalHash h n \<in> set ws \<and> (\<forall>h'. WriteCanonicalHash h' n \<in> set ws \<longrightarrow> h' = h) \<longrightarrow>
        ReadCanonicalHash E kv' n = h)
   \<and> (\<forall>ws kv kv' n. BatchWrite E ws kv = (None, kv') \<longrightarrow>
        (\<forall>h. WriteCanonicalHash h n \<notin> set ws) \<longrightarrow>
        ReadCanonicalHash E kv' n = ReadCanonicalHash E kv n)"

section \<open>256-bit integers\<close>

definition SetFromBig :: "int \<Rightarrow> u256 \<times> bool" where
  "SetFromBig v = (word_of_int v, \<bar>v\<bar> \<ge> 2 ^ 256)"

definition AddOverflow :: "u256 \<Rightarrow> u256 \<Rightarrow> u256 \<times> bool" where
  "AddOverflow a b = (a + b, uint a + uint b \<ge> 2 ^ 256)"

definition MulOverflow :: "u256 \<Rightarrow> u256 \<Rightarrow> u256 \<times> bool" where
  "MulOverflow a b = (a * b, uint a * uint b \<ge> 2 ^ 256)"

lemma uint_SetFromBig: "SetFromBig v = (x, False) \<Longrightarrow> 0 \<le> v \<Longrightarrow> uint x = v"
  by (auto simp: SetFromBig_def uint_word_of_int)

lemma uint_AddOverflow: "AddOverflow a b = (x, False) \<Longrightarrow> uint x = uint a + uint b"
  by (auto simp: AddOverflow_def uint_word_ariths)

lemma uint_MulOverflow: "MulOverflow a b = (x, False) \<Longrightarrow> uint x = uint a * uint b"
  by (auto simp: MulOverflow_def uint_word_ariths)

section \<open>A concrete environment\<close>

text \<open>
  The laws above can hold: the key-value store is the list of writes, newest first, the
  height index an association list, and the codec lists the fields.
\<close>

definition list_results :: "execution_results \<Rightarrow> encoding" where
  "list_results e = (let g = byGas e; c = gt_config g in
     [unat (seconds (gt_time g)), unat (fraction (gt_time g)), unat (hertz (gt_time g)),
      unat (target g), unat (excess g), unat (targetToExcessScaling c), unat (minPrice c),
      if staticPricing c then 1 else 0, unat (er_baseFee e), receiptRoot e, stateRootPost e])"

fun unlist_results :: "encoding \<Rightarrow> execution_results res" where
  "unlist_results [s, f, h, t, x, k, m, st, bf, rr, sr] =
     Inr \<lparr>byGas = \<lparr>gt_time = \<lparr>seconds = word_of_nat s, fraction = word_of_nat f, hertz = word_of_nat h\<rparr>,
            target = word_of_nat t, excess = word_of_nat x,
            gt_config = \<lparr>targetToExcessScaling = word_of_nat k, minPrice = word_of_nat m,
              staticPricing = (st = 1)\<rparr>\<rparr>,
          er_baseFee = word_of_nat bf, receiptRoot = rr, stateRootPost = sr,
          byWall = zero_time, er_receipts = []\<rparr>"
| "unlist_results _ = Inl (ErrOther ''canoto'')"

fun first_some :: "('a \<Rightarrow> 'b option) \<Rightarrow> 'a list \<Rightarrow> 'b option" where
  "first_some f [] = None"
| "first_some f (x # xs) = (case f x of None \<Rightarrow> first_some f xs | Some y \<Rightarrow> Some y)"

definition sample_block :: "db_write list \<Rightarrow> hash \<Rightarrow> u64 \<Rightarrow> eth_block option" where
  "sample_block kv h n = first_some (\<lambda>w. case w of
     WriteBlock b \<Rightarrow> if hdr_extra (eb_header b) = h \<and> word_of_int (Number (eb_header b)) = n
       then Some b else None | _ \<Rightarrow> None) kv"

definition sample_env :: "(db_write list, (u64 \<times> encoding) list) env" where
  "sample_env = \<lparr>HeaderHash = hdr_extra, Sender = (\<lambda>_ tx. Inr (tx_extra tx)),
     ValidateTransaction = (\<lambda>_ _ _. None), EmptyCodeHash = 1,
     RLPDecode = (\<lambda>_. Inl (ErrOther ''rlp'')), RLPEncode = (\<lambda>_. Inl (ErrOther ''rlp'')), DeriveSha = length,
     DeriveFields = (\<lambda>_ _ _ _ _ rs. Inr rs),
     MarshalCanoto = list_results, UnmarshalCanoto = unlist_results,
     xdb_Put = (\<lambda>n v x. (None, (n, v) # x)), xdb_Sync = (\<lambda>_ _ x. (None, x)),
     xdb_Get = (\<lambda>x n. case map_of x n of None \<Rightarrow> Inl ErrDatabaseNotFound | Some v \<Rightarrow> Inr v),
     BatchWrite = (\<lambda>ws kv. (None, rev ws @ kv)),
     ReadRawReceipts = (\<lambda>kv h n. case first_some (\<lambda>w. case w of
         WriteReceipts h' n' rs \<Rightarrow> if h' = h \<and> n' = n then Some rs else None | _ \<Rightarrow> None) kv of
       None \<Rightarrow> [] | Some rs \<Rightarrow> rs),
     ReadCanonicalHash = (\<lambda>kv n. case first_some (\<lambda>w. case w of
         WriteCanonicalHash h n' \<Rightarrow> if n' = n then Some h else None | _ \<Rightarrow> None) kv of
       None \<Rightarrow> 0 | Some h \<Rightarrow> h),
     ReadBlock = sample_block,
     ReadHeader = (\<lambda>kv h n. map_option eb_header (sample_block kv h n)),
     ReadHeaderNumber = (\<lambda>kv h. first_some (\<lambda>w. case w of
         WriteBlock b \<Rightarrow> if hdr_extra (eb_header b) = h
           then Some (word_of_int (Number (eb_header b))) else None | _ \<Rightarrow> None) kv),
     ReadHeadHeader = (\<lambda>kv. case first_some (\<lambda>w. case w of
         WriteHeadHeaderHash h \<Rightarrow> Some h | _ \<Rightarrow> None) kv of
       None \<Rightarrow> None
     | Some h \<Rightarrow> first_some (\<lambda>w. case w of
         WriteBlock b \<Rightarrow> if hdr_extra (eb_header b) = h then Some (eb_header b) else None
         | _ \<Rightarrow> None) kv),
     ReadAllCanonicalHashes = (\<lambda>kv lo hi. sort (remdups (concat (map (\<lambda>w. case w of
         WriteCanonicalHash h n \<Rightarrow> if lo \<le> n \<and> n < hi then [n] else [] | _ \<Rightarrow> []) kv))))\<rparr>"

lemma word_of_nat_unat: "word_of_nat (unat x) = x"
  by (metis of_nat_unat ucast_id)

lemma sample_env_xdb: "xdb_laws sample_env"
  by (auto simp: xdb_laws_def sample_env_def)

lemma sample_env_canoto: "canoto_laws sample_env"
  by (auto simp: canoto_laws_def sample_env_def list_results_def without_ephemeral_def Let_def
      word_of_nat_unat intro!: execution_results.equality gtime.equality ptime.equality config.equality)

lemma first_some_append: "first_some f (xs @ ys) =
    (case first_some f xs of None \<Rightarrow> first_some f ys | Some y \<Rightarrow> Some y)"
  by (induction xs) (simp_all split: option.split)

lemma first_some_None: "first_some f xs = None \<longleftrightarrow> (\<forall>x\<in>set xs. f x = None)"
  by (induction xs) (auto split: option.splits)

lemma first_some_Some: "first_some f xs = Some y \<Longrightarrow> \<exists>x\<in>set xs. f x = Some y"
  by (induction xs) (auto split: option.splits)

lemma sample_env_kv: "kv_laws sample_env"
proof -
  define g :: "u64 \<Rightarrow> db_write \<Rightarrow> hash option" where
    "g = (\<lambda>n w. case w of WriteCanonicalHash h n' \<Rightarrow> if n' = n then Some h else None | _ \<Rightarrow> None)"
  have gS: "g n x = Some h \<longleftrightarrow> x = WriteCanonicalHash h n" for n x h
    by (cases x) (auto simp: g_def)
  have gN: "g n x = None \<longleftrightarrow> (\<forall>h. x \<noteq> WriteCanonicalHash h n)" for n x
    by (metis gS not_None_eq)
  have rd: "ReadCanonicalHash sample_env kv n = (case first_some (g n) kv of None \<Rightarrow> 0 | Some h \<Rightarrow> h)"
    for kv n by (simp add: sample_env_def g_def)
  have bw: "BatchWrite sample_env ws kv = (None, rev ws @ kv)" for ws kv by (simp add: sample_env_def)
  have hit: "first_some (g n) (rev ws) = Some h"
    if "WriteCanonicalHash h n \<in> set ws" "\<forall>h'. WriteCanonicalHash h' n \<in> set ws \<longrightarrow> h' = h" for ws n h
  proof (cases "first_some (g n) (rev ws)")
    case None
    then have "\<forall>x\<in>set ws. g n x = None" by (simp add: first_some_None)
    then show ?thesis using that(1) gN by blast
  next
    case (Some h')
    then obtain x where "x \<in> set ws" "g n x = Some h'" using first_some_Some by force
    then show ?thesis using that(2) Some by (simp add: gS)
  qed
  have miss: "first_some (g n) (rev ws) = None" if "\<forall>h. WriteCanonicalHash h n \<notin> set ws" for ws n
    using that by (auto simp: first_some_None gN)
  show ?thesis
    unfolding kv_laws_def rd bw first_some_append
  proof (intro conjI allI impI)
    fix ws :: "db_write list" and kv kv' h n
    assume eq: "(None, rev ws @ kv) = (None, kv')" and "WriteCanonicalHash h n \<in> set ws
      \<and> (\<forall>h'. WriteCanonicalHash h' n \<in> set ws \<longrightarrow> h' = h)"
    then have "first_some (g n) (rev ws) = Some h" using hit by blast
    then show "(case first_some (g n) kv' of None \<Rightarrow> 0 | Some h \<Rightarrow> h) = h"
      using eq by (auto simp: first_some_append)
  qed (auto simp: first_some_append miss)
qed

end
