(* ===== verification/Blocks.thy ===== *)
theory Blocks
  imports Environment
begin

text \<open>
  Package \<^verbatim>\<open>blocks\<close> (\<^verbatim>\<open>src/blocks\<close>): the SAE block, its life cycle of execution and settlement,
  and the walks over its ancestry.

  Blocks are shared, mutable and linked by pointers, so the model has an explicit \<open>heap\<close> from
  pointers to block records; \<open>None\<close> is the nil pointer. The \<open>world\<close> also holds the two
  databases, the atomic pointers of the frontiers (\<open>cells\<close>) and a ghost \<open>trace\<close> of the
  effects in the order in which they happened, newest first. A channel that is only ever
  closed is the boolean that says whether it is.
\<close>

section \<open>Blocks and the world\<close>

record ancestry =
  anc_parent :: "ptr option"
  anc_lastSettled :: "ptr option"

record worst_case_bounds =
  MaxBaseFee :: u256
  LatestEndTime :: gtime
  MinOpBurnerBalances :: "(address \<times> u256) list list"

record blk =
  eth :: eth_block
  ancestry :: "ancestry option"
  synchronous :: bool
  bounds :: "worst_case_bounds option"
  execution :: "execution_results option"
  interimExecutionTime :: "ptime option"
  executed_closed :: bool
  settled_closed :: bool

datatype cell = CellLastExecuted | CellLastSettled | CellLastAccepted | CellPreference | CellBlackhole

datatype event =
    EvPut u64
  | EvSync u64 u64
  | EvLoad u64
  | EvBatch "db_write list"
  | EvExecution ptr u64 hash
  | EvStore cell ptr hash
  | EvCloseExecuted ptr "cell option"
  | EvSettled ptr
  | EvCloseSettled ptr "cell option"
  | EvSendAccepted ptr
  | EvEnqueue ptr
  | EvSendExecuted ptr
  | EvLogWarn string
  | EvLogError string
  | EvLogFatal string

record ('kv, 'x) world =
  heap :: "ptr \<Rightarrow> blk"
  fresh :: ptr
  inMemoryBlockCount :: int
  kvdb :: 'kv
  xdb :: 'x
  cells :: "cell \<Rightarrow> ptr option"
  trace :: "event list"

abbreviation nil_deref :: go_error where
  "nil_deref \<equiv> Panic ''nil pointer dereference''"

definition upd_blk :: "ptr \<Rightarrow> (blk \<Rightarrow> blk) \<Rightarrow> ('kv, 'x, 'z) world_scheme \<Rightarrow> ('kv, 'x, 'z) world_scheme" where
  "upd_blk b f w = w\<lparr>heap := (heap w)(b := f (heap w b))\<rparr>"

definition emit :: "event \<Rightarrow> ('kv, 'x, 'z) world_scheme \<Rightarrow> ('kv, 'x, 'z) world_scheme" where
  "emit ev w = w\<lparr>trace := ev # trace w\<rparr>"

section \<open>Accessors (export.go, snow.go)\<close>

definition EthBlock :: "('kv, 'x, 'z) world_scheme \<Rightarrow> ptr \<Rightarrow> eth_block" where
  "EthBlock w b = eth (heap w b)"

definition Header :: "('kv, 'x, 'z) world_scheme \<Rightarrow> ptr \<Rightarrow> header" where
  "Header w b = eb_header (EthBlock w b)"

definition Hash :: "('kv, 'x, 'e) env_scheme \<Rightarrow> ('kv, 'x, 'z) world_scheme \<Rightarrow> ptr \<Rightarrow> hash" where
  "Hash E w b = HeaderHash E (Header w b)"

definition Block_ParentHash :: "('kv, 'x, 'z) world_scheme \<Rightarrow> ptr \<Rightarrow> hash" where
  "Block_ParentHash w b = ParentHash (Header w b)"

definition Block_Number :: "('kv, 'x, 'z) world_scheme \<Rightarrow> ptr \<Rightarrow> int" where
  "Block_Number w b = Number (Header w b)"

definition NumberU64 :: "('kv, 'x, 'z) world_scheme \<Rightarrow> ptr \<Rightarrow> u64" where
  "NumberU64 w b = word_of_int (Block_Number w b)"

definition Height :: "('kv, 'x, 'z) world_scheme \<Rightarrow> ptr \<Rightarrow> u64" where
  "Height w b = NumberU64 w b"

definition BuildTime :: "('kv, 'x, 'z) world_scheme \<Rightarrow> ptr \<Rightarrow> u64" where
  "BuildTime w b = hdr_Time (Header w b)"

definition SettledStateRoot :: "('kv, 'x, 'z) world_scheme \<Rightarrow> ptr \<Rightarrow> hash" where
  "SettledStateRoot w b = Root (Header w b)"

definition Transactions :: "('kv, 'x, 'z) world_scheme \<Rightarrow> ptr \<Rightarrow> transaction list" where
  "Transactions w b = eb_txs (EthBlock w b)"

definition Timestamp :: "('kv, 'x, 'z) world_scheme \<Rightarrow> ptr \<Rightarrow> gotime" where
  "Timestamp w b = time_Unix (sint (BuildTime w b)) 0"

definition Signer :: "('kv, 'x, 'z) world_scheme \<Rightarrow> ptr \<Rightarrow> signer" where
  "Signer w b = (Block_Number w b, BuildTime w b)"

text \<open>\<^verbatim>\<open>atomic.Pointer.Store\<close> on one of the frontier pointers.\<close>

definition store_cell :: "('kv, 'x, 'e) env_scheme \<Rightarrow> cell \<Rightarrow> ptr \<Rightarrow> ('kv, 'x, 'z) world_scheme
    \<Rightarrow> ('kv, 'x, 'z) world_scheme" where
  "store_cell E c b w = emit (EvStore c b (Hash E w b)) (w\<lparr>cells := (cells w)(c := Some b)\<rparr>)"

section \<open>Construction and ancestry (block.go)\<close>

definition SetAncestors_check :: "('kv, 'x, 'e) env_scheme \<Rightarrow> ptr \<Rightarrow> ptr option
    \<Rightarrow> ('kv, 'x, 'z) world_scheme \<Rightarrow> go_error option" where
  "SetAncestors_check E b parent w =
     (case parent of
        None \<Rightarrow> None
      | Some p \<Rightarrow>
          if Hash E w p \<noteq> Block_ParentHash w b then Some (Wrap [ErrParentHashMismatch])
          else if Block_Number w p \<noteq> Block_Number w b - 1
          then Some (Wrap [ErrBlockHeightNotIncrementing])
          else None)"

definition SetAncestors :: "('kv, 'x, 'e) env_scheme \<Rightarrow> ptr \<Rightarrow> ptr option \<Rightarrow> ptr option
    \<Rightarrow> (('kv, 'x, 'z) world_scheme, unit) prog" where
  "SetAncestors E b parent lastSettled =
     mbind (mget (SetAncestors_check E b parent)) (\<lambda>chk.
     case chk of
       Some err \<Rightarrow> mfail err
     | None \<Rightarrow> mmod (upd_blk b (\<lambda>k. k\<lparr>ancestry :=
         Some \<lparr>anc_parent = parent, anc_lastSettled = lastSettled\<rparr>\<rparr>)))"

definition zero_blk :: "eth_block \<Rightarrow> blk" where
  "zero_blk e = \<lparr>eth = e, ancestry = None, synchronous = False, bounds = None, execution = None,
     interimExecutionTime = None, executed_closed = False, settled_closed = False\<rparr>"

definition blocks_New :: "('kv, 'x, 'e) env_scheme \<Rightarrow> eth_block option \<Rightarrow> ptr option \<Rightarrow> ptr option
    \<Rightarrow> (('kv, 'x, 'z) world_scheme, ptr) prog" where
  "blocks_New E ethB parent lastSettled =
     (case ethB of
        None \<Rightarrow> mfail nil_deref
      | Some e \<Rightarrow>
          mbind (mget fresh) (\<lambda>b.
          mbind (mmod (\<lambda>w. w\<lparr>heap := (heap w)(b := zero_blk e), fresh := b + 1,
                             inMemoryBlockCount := inMemoryBlockCount w + 1\<rparr>)) (\<lambda>_.
          mbind (SetAncestors E b parent lastSettled) (\<lambda>_.
          mreturn b))))"

definition CopyAncestorsFrom :: "('kv, 'x, 'e) env_scheme \<Rightarrow> ptr \<Rightarrow> ptr
    \<Rightarrow> (('kv, 'x, 'z) world_scheme, unit) prog" where
  "CopyAncestorsFrom E b c =
     mbind (mget (\<lambda>w. Hash E w c = Hash E w b)) (\<lambda>same.
     mbind (mguard same (Wrap [ErrHashMismatch])) (\<lambda>_.
     mbind (mget (\<lambda>w. ancestry (heap w c))) (\<lambda>a.
     case a of
       None \<Rightarrow> mfail nil_deref
     | Some a \<Rightarrow> SetAncestors E b (anc_parent a) (anc_lastSettled a))))"

section \<open>Execution (execution.go)\<close>

definition SetInterimExecutionTime :: "ptr \<Rightarrow> ptime \<Rightarrow> (('kv, 'x, 'z) world_scheme, unit) prog" where
  "SetInterimExecutionTime b t =
     mmod (upd_blk b (\<lambda>k. k\<lparr>interimExecutionTime := Some (proxytime_Clone t)\<rparr>))"

definition setBaseFee :: "int option \<Rightarrow> execution_results \<Rightarrow> execution_results res" where
  "setBaseFee bf e =
     (case bf of
        None \<Rightarrow> Inr e
      | Some v \<Rightarrow> (let (x, overflow) = SetFromBig v
                   in if overflow then Inl (ErrOther ''base fee overflows 256 bits'')
                      else Inr (e\<lparr>er_baseFee := x\<rparr>)))"

definition SetAsHeadBlock :: "('kv, 'x, 'e) env_scheme \<Rightarrow> ('kv, 'x, 'z) world_scheme \<Rightarrow> ptr
    \<Rightarrow> db_write list \<Rightarrow> db_write list" where
  "SetAsHeadBlock E w b kv =
     (let h = Hash E w b in kv @ [WriteHeadBlockHash h, WriteHeadHeaderHash h])"

definition write_xdb :: "('x \<Rightarrow> go_error option \<times> 'x) \<Rightarrow> event
    \<Rightarrow> (('kv, 'x, 'z) world_scheme, unit) prog" where
  "write_xdb f ev = (\<lambda>w. case f (xdb w) of
       (Some e, x) \<Rightarrow> (Inl e, w\<lparr>xdb := x\<rparr>)
     | (None, x) \<Rightarrow> (Inr (), emit ev (w\<lparr>xdb := x\<rparr>)))"

definition write_batch :: "('kv, 'x, 'e) env_scheme \<Rightarrow> db_write list
    \<Rightarrow> (('kv, 'x, 'z) world_scheme, unit) prog" where
  "write_batch E batch = (\<lambda>w. case BatchWrite E batch (kvdb w) of
       (Some e, kv) \<Rightarrow> (Inl e, w\<lparr>kvdb := kv\<rparr>)
     | (None, kv) \<Rightarrow> (Inr (), emit (EvBatch batch) (w\<lparr>kvdb := kv\<rparr>)))"

definition markExecutedOnDisk :: "('kv, 'x, 'e) env_scheme \<Rightarrow> ptr \<Rightarrow> db_write list
    \<Rightarrow> execution_results \<Rightarrow> bool \<Rightarrow> (('kv, 'x, 'z) world_scheme, unit) prog" where
  "markExecutedOnDisk E b batch e setAsHeadBlock =
     mbind (mget (\<lambda>w. NumberU64 w b)) (\<lambda>n.
     mbind (write_xdb (xdb_Put E n (MarshalCanoto E e)) (EvPut n)) (\<lambda>_.
     mbind (write_xdb (xdb_Sync E n n) (EvSync n n)) (\<lambda>_.
     mbind (mget (\<lambda>w. if setAsHeadBlock then SetAsHeadBlock E w b batch else batch)) (\<lambda>batch.
     write_batch E batch))))"

definition markExecutedAfterDiskArtefacts :: "('kv, 'x, 'e) env_scheme \<Rightarrow> ptr \<Rightarrow> execution_results \<Rightarrow> cell option
    \<Rightarrow> (('kv, 'x, 'z) world_scheme, unit) prog" where
  "markExecutedAfterDiskArtefacts E b e lastExecuted =
     mbind (mget (\<lambda>w. execution (heap w b))) (\<lambda>old.
     if old \<noteq> None
     then mbind (mmod (emit (EvLogFatal ''Block re-marked as executed''))) (\<lambda>_.
          mfail (Wrap [ErrMarkBlockExecutedAgain]))
     else
       mbind (mmod (\<lambda>w. emit (EvExecution b (NumberU64 w b) (Hash E w b))
                          (upd_blk b (\<lambda>k. k\<lparr>execution := Some e\<rparr>) w))) (\<lambda>_.
       mbind (case lastExecuted of None \<Rightarrow> mreturn () | Some c \<Rightarrow> mmod (store_cell E c b)) (\<lambda>_.
       mbind (mget (\<lambda>w. executed_closed (heap w b))) (\<lambda>closed.
       mbind (mguard (\<not> closed) (Panic ''close of closed channel'')) (\<lambda>_.
       mmod (\<lambda>w. emit (EvCloseExecuted b lastExecuted)
                    (upd_blk b (\<lambda>k. k\<lparr>executed_closed := True\<rparr>) w)))))))"

definition markExecuted :: "('kv, 'x, 'e) env_scheme \<Rightarrow> ptr \<Rightarrow> db_write list
    \<Rightarrow> execution_results \<Rightarrow> bool \<Rightarrow> cell option \<Rightarrow> (('kv, 'x, 'z) world_scheme, unit) prog" where
  "markExecuted E b batch e setAsHeadBlock lastExecuted =
     mbind (markExecutedOnDisk E b batch e setAsHeadBlock) (\<lambda>_.
     markExecutedAfterDiskArtefacts E b e lastExecuted)"

definition MarkExecuted :: "('kv, 'x, 'e) env_scheme \<Rightarrow> ptr \<Rightarrow> gtime \<Rightarrow> gotime \<Rightarrow> int option
    \<Rightarrow> receipt list \<Rightarrow> hash \<Rightarrow> cell option \<Rightarrow> (('kv, 'x, 'z) world_scheme, unit) prog" where
  "MarkExecuted E b g wall baseFee receipts postRoot lastExecuted =
     mbind (mget (\<lambda>w. interimExecutionTime (heap w b))) (\<lambda>it.
     mbind (case it of
              Some it \<Rightarrow> if proxytime_Compare (gt_time g) it < 0
                then mmod (emit (EvLogError ''Final execution gas time before last interim time''))
                else mreturn ()
            | None \<Rightarrow> mreturn ()) (\<lambda>_.
     mbind (mlift (setBaseFee baseFee
       \<lparr>byGas = gastime_Clone g, er_baseFee = 0, receiptRoot = DeriveSha E receipts,
        stateRootPost = postRoot, byWall = wall, er_receipts = receipts\<rparr>)) (\<lambda>e.
     mbind (mget (\<lambda>w. [WriteReceipts (Hash E w b) (NumberU64 w b) receipts])) (\<lambda>batch.
     markExecuted E b batch e True lastExecuted))))"

text \<open>The possible results of a blocking wait; none while the call blocks.\<close>

definition WaitUntilExecuted :: "('kv, 'x, 'z) world_scheme \<Rightarrow> ptr \<Rightarrow> bool \<Rightarrow> go_error option list" where
  "WaitUntilExecuted w b ctxDone =
     (if ctxDone then [Some ErrContextDone] else []) @
     (if executed_closed (heap w b) then [None] else [])"

definition Executed :: "('kv, 'x, 'z) world_scheme \<Rightarrow> ptr \<Rightarrow> bool" where
  "Executed w b \<longleftrightarrow> execution (heap w b) \<noteq> None"

definition executionArtefact :: "('kv, 'x, 'z) world_scheme \<Rightarrow> ptr \<Rightarrow> (execution_results \<Rightarrow> 'a) \<Rightarrow> 'a res" where
  "executionArtefact w b get =
     (if \<not> executed_closed (heap w b) then Inl Blocked
      else case execution (heap w b) of None \<Rightarrow> Inl nil_deref | Some e \<Rightarrow> Inr (get e))"

definition ExecutedByGasTime :: "('kv, 'x, 'z) world_scheme \<Rightarrow> ptr \<Rightarrow> gtime res" where
  "ExecutedByGasTime w b = executionArtefact w b (\<lambda>e. gastime_Clone (byGas e))"

definition ExecutedByWallTime :: "('kv, 'x, 'z) world_scheme \<Rightarrow> ptr \<Rightarrow> gotime res" where
  "ExecutedByWallTime w b = executionArtefact w b byWall"

definition ExecutedBaseFee :: "('kv, 'x, 'z) world_scheme \<Rightarrow> ptr \<Rightarrow> u256 res" where
  "ExecutedBaseFee w b = executionArtefact w b er_baseFee"

definition Receipts :: "('kv, 'x, 'z) world_scheme \<Rightarrow> ptr \<Rightarrow> receipt list res" where
  "Receipts w b = executionArtefact w b er_receipts"

definition PostExecutionStateRoot :: "('kv, 'x, 'z) world_scheme \<Rightarrow> ptr \<Rightarrow> hash res" where
  "PostExecutionStateRoot w b = executionArtefact w b stateRootPost"

definition loadExecutionResults :: "('kv, 'x, 'e) env_scheme \<Rightarrow> 'x \<Rightarrow> u64 \<Rightarrow> execution_results res" where
  "loadExecutionResults E x blockNum =
     res_bind (xdb_Get E x blockNum) (\<lambda>buf. UnmarshalCanoto E buf)"

definition persistedExecutionArtefact :: "('kv, 'x, 'e) env_scheme \<Rightarrow> 'x \<Rightarrow> u64
    \<Rightarrow> (execution_results \<Rightarrow> 'a) \<Rightarrow> 'a res" where
  "persistedExecutionArtefact E x blockNum get =
     res_bind (loadExecutionResults E x blockNum) (\<lambda>e. Inr (get e))"

definition persisted_PostExecutionStateRoot :: "('kv, 'x, 'e) env_scheme \<Rightarrow> 'x \<Rightarrow> u64 \<Rightarrow> hash res" where
  "persisted_PostExecutionStateRoot E x blockNum =
     persistedExecutionArtefact E x blockNum stateRootPost"

definition ExecutionBaseFee :: "('kv, 'x, 'e) env_scheme \<Rightarrow> 'x \<Rightarrow> u64 \<Rightarrow> u256 res" where
  "ExecutionBaseFee E x blockNum = persistedExecutionArtefact E x blockNum er_baseFee"

definition RestoreExecutionArtefacts :: "('kv, 'x, 'e) env_scheme \<Rightarrow> ptr
    \<Rightarrow> (('kv, 'x, 'z) world_scheme, unit) prog" where
  "RestoreExecutionArtefacts E b =
     mbind (mget (\<lambda>w. NumberU64 w b)) (\<lambda>n.
     mbind (mget (\<lambda>w. loadExecutionResults E (xdb w) n)) (\<lambda>r.
     mbind (mlift r) (\<lambda>e.
     mbind (mmod (emit (EvLoad n))) (\<lambda>_.
     mbind (mget (\<lambda>w. DeriveFields E (Hash E w b) n (BuildTime w b) (uint (er_baseFee e))
        (Transactions w b) (ReadRawReceipts E (kvdb w) (Hash E w b) n))) (\<lambda>rs.
     case rs of
       Inl _ \<Rightarrow> mfail (ErrOther ''deriving receipt fields'')
     | Inr rs \<Rightarrow> markExecutedAfterDiskArtefacts E b (e\<lparr>er_receipts := rs\<rparr>) None)))))"

section \<open>Settlement (settlement.go)\<close>

text \<open>
  \<open>markSettled\<close> loads the ancestry and later swaps it for nil. \<open>markSettled_swap\<close> is the part
  from the compare-and-swap on, given the value loaded before, so that two racing calls can
  be told apart.
\<close>

definition markSettled_swap :: "('kv, 'x, 'e) env_scheme \<Rightarrow> ptr \<Rightarrow> cell option \<Rightarrow> ancestry
    \<Rightarrow> (('kv, 'x, 'z) world_scheme, unit) prog" where
  "markSettled_swap E b lastSettled a =
     mbind (mget (\<lambda>w. ancestry (heap w b) = Some a)) (\<lambda>same.
     if \<not> same
     then mbind (mmod (emit (EvLogFatal ''Block ancestry changed during settlement''))) (\<lambda>_.
          mfail ErrBlockAncestryChanged)
     else
       mbind (mmod (\<lambda>w. emit (EvSettled b) (upd_blk b (\<lambda>k. k\<lparr>ancestry := None\<rparr>) w))) (\<lambda>_.
       mbind (case lastSettled of None \<Rightarrow> mreturn () | Some c \<Rightarrow> mmod (store_cell E c b)) (\<lambda>_.
       mbind (mget (\<lambda>w. settled_closed (heap w b))) (\<lambda>closed.
       mbind (mguard (\<not> closed) (Panic ''close of closed channel'')) (\<lambda>_.
       mmod (\<lambda>w. emit (EvCloseSettled b lastSettled)
                    (upd_blk b (\<lambda>k. k\<lparr>settled_closed := True\<rparr>) w)))))))"

definition markSettled :: "('kv, 'x, 'e) env_scheme \<Rightarrow> ptr \<Rightarrow> cell option \<Rightarrow> (('kv, 'x, 'z) world_scheme, unit) prog" where
  "markSettled E b lastSettled =
     mbind (mget (\<lambda>w. ancestry (heap w b))) (\<lambda>a.
     case a of
       None \<Rightarrow> mbind (mmod (emit (EvLogError ''block re-settled''))) (\<lambda>_.
                mfail (Wrap [ErrBlockResettled]))
     | Some a \<Rightarrow> markSettled_swap E b lastSettled a)"

definition MarkSettled :: "('kv, 'x, 'e) env_scheme \<Rightarrow> ptr \<Rightarrow> cell option \<Rightarrow> (('kv, 'x, 'z) world_scheme, unit) prog" where
  "MarkSettled E b lastSettled =
     (if lastSettled = None
      then mfail (ErrOther ''atomic pointer to last-settled block MUST NOT be nil'')
      else markSettled E b lastSettled)"

definition MarkSynchronous :: "('kv, 'x, 'e) env_scheme \<Rightarrow> ('db, 'a) points_scheme \<Rightarrow> ptr \<Rightarrow> gas
    \<Rightarrow> (('kv, 'x, 'z) world_scheme, unit) prog" where
  "MarkSynchronous E H b excessAfter =
     mbind (mget (\<lambda>w. Header w b)) (\<lambda>hdr.
     let (targ, cfg) = GasConfigAfter H hdr
     in mbind (mlift (gastime_New (PreciseTime H hdr) targ excessAfter cfg)) (\<lambda>execTime.
        mbind (mlift (setBaseFee (BaseFee hdr)
          \<lparr>byGas = gastime_Clone execTime, er_baseFee = 0, receiptRoot = ReceiptHash hdr,
           stateRootPost = Root hdr, byWall = zero_time, er_receipts = []\<rparr>)) (\<lambda>e.
        mbind (markExecuted E b [] e False None) (\<lambda>_.
        mbind (mmod (upd_blk b (\<lambda>k. k\<lparr>synchronous := True\<rparr>))) (\<lambda>_.
        markSettled E b None)))))"

definition WaitUntilSettled :: "('kv, 'x, 'z) world_scheme \<Rightarrow> ptr \<Rightarrow> bool \<Rightarrow> go_error option list" where
  "WaitUntilSettled w b ctxDone =
     (if ctxDone then [Some ErrContextDone] else []) @
     (if settled_closed (heap w b) then [None] else [])"

definition Settled :: "('kv, 'x, 'z) world_scheme \<Rightarrow> ptr \<Rightarrow> bool" where
  "Settled w b \<longleftrightarrow> ancestry (heap w b) = None"

definition Synchronous :: "('kv, 'x, 'z) world_scheme \<Rightarrow> ptr \<Rightarrow> bool" where
  "Synchronous w b = synchronous (heap w b)"

definition ancestor :: "('kv, 'x, 'z) world_scheme \<Rightarrow> ptr \<Rightarrow> (ancestry \<Rightarrow> ptr option) \<Rightarrow> ptr option" where
  "ancestor w b get = (case ancestry (heap w b) of None \<Rightarrow> None | Some a \<Rightarrow> get a)"

definition ParentBlock :: "('kv, 'x, 'z) world_scheme \<Rightarrow> ptr \<Rightarrow> ptr option" where
  "ParentBlock w b = ancestor w b anc_parent"

definition LastSettled :: "('kv, 'x, 'z) world_scheme \<Rightarrow> ptr \<Rightarrow> ptr option" where
  "LastSettled w b = (if synchronous (heap w b) then Some b else ancestor w b anc_lastSettled)"

text \<open>A method call on a pointer that may be nil.\<close>

definition deref :: "ptr option \<Rightarrow> ptr res" where
  "deref p = (case p of None \<Rightarrow> Inl nil_deref | Some b \<Rightarrow> Inr b)"

fun Range_loop :: "('kv, 'x, 'z) world_scheme \<Rightarrow> nat \<Rightarrow> ptr option \<Rightarrow> ptr list res" where
  "Range_loop w 0 b = Inr []"
| "Range_loop w (Suc i) b =
     res_bind (deref b) (\<lambda>p.
     res_bind (Range_loop w i (ParentBlock w p)) (\<lambda>chain.
     Inr (p # chain)))"

definition Range :: "('kv, 'x, 'z) world_scheme \<Rightarrow> ptr option \<Rightarrow> ptr option \<Rightarrow> ptr list res" where
  "Range w start stop =
     res_bind (deref start) (\<lambda>s.
     res_bind (deref stop) (\<lambda>e.
     let startHeight = Height w s; endHeight = Height w e
     in if endHeight \<le> startHeight then Inr []
        else res_bind (Range_loop w (unat (endHeight - startHeight)) stop) (\<lambda>chain.
             Inr (rev chain))))"

definition Settles :: "('kv, 'x, 'z) world_scheme \<Rightarrow> ptr \<Rightarrow> ptr list res" where
  "Settles w b =
     (if synchronous (heap w b) then Inr [b]
      else res_bind (deref (ParentBlock w b)) (\<lambda>p. Range w (LastSettled w p) (LastSettled w b)))"

text \<open>
  The loop of \<^verbatim>\<open>LastToSettleAt\<close>. Its exit is not evident from the code, so it is a partial
  function: \<open>None\<close> means that it does not return.
\<close>

partial_function (option) LastToSettleAt_loop :: "('db, 'a) points_scheme
    \<Rightarrow> ('kv, 'x, 'z) world_scheme \<Rightarrow> gotime \<Rightarrow> ptime \<Rightarrow> bool \<Rightarrow> ptr option \<Rightarrow> (ptr \<times> bool) res option" where
  "LastToSettleAt_loop H w settleAt settleAtGasTime known block =
     (case block of
        None \<Rightarrow> Some (Inl (Wrap [ErrIncompleteBlockHistory]))
      | Some b \<Rightarrow>
          if Settled w b then Some (Inr (b, known))
          else if PreciseTime H (Header w b) > settleAt
            \<or> (case interimExecutionTime (heap w b) of
                 None \<Rightarrow> False | Some t \<Rightarrow> proxytime_Compare t settleAtGasTime > 0)
          then LastToSettleAt_loop H w settleAt settleAtGasTime True (ParentBlock w b)
          else (case execution (heap w b) of
             Some e \<Rightarrow>
               if proxytime_Compare (gt_time (byGas e)) settleAtGasTime > 0
               then LastToSettleAt_loop H w settleAt settleAtGasTime True (ParentBlock w b)
               else Some (Inr (b, known))
           | None \<Rightarrow> LastToSettleAt_loop H w settleAt settleAtGasTime False (ParentBlock w b)))"

definition LastToSettleAt :: "('db, 'a) points_scheme \<Rightarrow> ('kv, 'x, 'z) world_scheme \<Rightarrow> gotime
    \<Rightarrow> ptr option \<Rightarrow> (ptr option \<times> bool) res option" where
  "LastToSettleAt H w settleAt parent =
     (case proxytime_Of settleAt of
        Inl e \<Rightarrow> Some (Inl e)
      | Inr tm \<Rightarrow>
          map_option (\<lambda>r. case r of Inl e \<Rightarrow> Inl e
              | Inr (b, ok) \<Rightarrow> Inr (if ok then Some b else None, ok))
            (LastToSettleAt_loop H w settleAt tm True parent))"

section \<open>Bounds and life-cycle checks (invariants.go)\<close>

definition SetWorstCaseBounds :: "ptr \<Rightarrow> worst_case_bounds option
    \<Rightarrow> (('kv, 'x, 'z) world_scheme, unit) prog" where
  "SetWorstCaseBounds b limits = mmod (upd_blk b (\<lambda>k. k\<lparr>bounds := limits\<rparr>))"

definition WorstCaseBounds :: "('kv, 'x, 'z) world_scheme \<Rightarrow> ptr \<Rightarrow> worst_case_bounds option" where
  "WorstCaseBounds w b = bounds (heap w b)"

text \<open>The checks return the entries they log.\<close>

definition CheckBaseFeeBound :: "worst_case_bounds option \<Rightarrow> u256 \<Rightarrow> event list" where
  "CheckBaseFeeBound bnds actual =
     (case bnds of
        None \<Rightarrow> []
      | Some bs \<Rightarrow> if go_cmp actual (MaxBaseFee bs) = 1
          then [EvLogError ''Actual base fee > predicted worst case''] else [])"

definition checkBalanceBounds :: "worst_case_bounds \<Rightarrow> (address \<Rightarrow> u256) \<Rightarrow> nat \<Rightarrow> address list
    \<Rightarrow> event list" where
  "checkBalanceBounds bs balance opIndexInBlock accounts =
     (let n = length (MinOpBurnerBalances bs)
      in if opIndexInBlock \<ge> n then [EvLogWarn ''Op not included in worst-case bounds'']
         else let minBals = MinOpBurnerBalances bs ! opIndexInBlock
              in (if length minBals \<noteq> length accounts
                  then [EvLogWarn ''Incorrect number of worst-case op-burner balances''] else []) @
                 concat (map (\<lambda>addr. case map_of minBals addr of
                     None \<Rightarrow> [EvLogWarn ''Op burner (transaction sender) not in worst-case op-burner balances'']
                   | Some low \<Rightarrow> if go_cmp (balance addr) low = -1
                       then [EvLogError ''Actual balance < predicted worst case''] else [])
                   accounts))"

definition CheckSenderBalanceBound :: "('kv, 'x, 'e) env_scheme \<Rightarrow> worst_case_bounds option
    \<Rightarrow> (address \<Rightarrow> u256) \<Rightarrow> nat \<Rightarrow> signer \<Rightarrow> transaction \<Rightarrow> event list" where
  "CheckSenderBalanceBound E bnds balance txIndex sig tx =
     (case bnds of
        None \<Rightarrow> []
      | Some bs \<Rightarrow>
          (case Sender E sig tx of
             Inl _ \<Rightarrow> [EvLogWarn ''Unable to recover sender for confirming worst-case balance'']
           | Inr sender \<Rightarrow> checkBalanceBounds bs balance txIndex [sender]))"

definition CheckOpBurnerBalanceBounds :: "worst_case_bounds option \<Rightarrow> (address \<Rightarrow> u256) \<Rightarrow> nat
    \<Rightarrow> op \<Rightarrow> event list" where
  "CheckOpBurnerBalanceBounds bnds balance opIndexInBlock o1 =
     (case bnds of
        None \<Rightarrow> []
      | Some bs \<Rightarrow> checkBalanceBounds bs balance opIndexInBlock (map fst (Burn o1)))"

datatype LifeCycleStage = StageNotExecuted | StageExecuted | StageSettled

fun stage_num :: "LifeCycleStage \<Rightarrow> nat" where
  "stage_num StageNotExecuted = 0"
| "stage_num StageExecuted = 1"
| "stage_num StageSettled = 2"

instantiation LifeCycleStage :: linorder
begin

definition less_eq_LifeCycleStage :: "LifeCycleStage \<Rightarrow> LifeCycleStage \<Rightarrow> bool" where
  "less_eq_LifeCycleStage a b \<longleftrightarrow> stage_num a \<le> stage_num b"

definition less_LifeCycleStage :: "LifeCycleStage \<Rightarrow> LifeCycleStage \<Rightarrow> bool" where
  "less_LifeCycleStage a b \<longleftrightarrow> stage_num a < stage_num b"

instance
proof
  fix a b :: LifeCycleStage
  show "a \<le> b \<Longrightarrow> b \<le> a \<Longrightarrow> a = b"
    by (cases a; cases b) (simp_all add: less_eq_LifeCycleStage_def)
qed (auto simp: less_eq_LifeCycleStage_def less_LifeCycleStage_def)

end

definition brokenInvariantErr :: "string \<Rightarrow> go_error" where
  "brokenInvariantErr msg = ErrOther msg"

definition CheckInvariants_execution :: "('kv, 'x, 'e) env_scheme \<Rightarrow> ('kv, 'x, 'z) world_scheme
    \<Rightarrow> ptr \<Rightarrow> LifeCycleStage \<Rightarrow> go_error option" where
  "CheckInvariants_execution E w b expect =
     (case execution (heap w b) of
        None \<Rightarrow> if expect \<ge> StageExecuted
          then Some (brokenInvariantErr ''expected to be executed'') else None
      | Some e \<Rightarrow>
          if expect < StageExecuted then Some (brokenInvariantErr ''unexpectedly executed'')
          else if receiptRoot e \<noteq> DeriveSha E (er_receipts e)
          then Some (brokenInvariantErr (''receipts do not match root''))
          else None)"

definition CheckInvariants_ancestry :: "('kv, 'x, 'z) world_scheme
    \<Rightarrow> ptr \<Rightarrow> LifeCycleStage \<Rightarrow> go_error option" where
  "CheckInvariants_ancestry w b expect =
     (case ancestry (heap w b) of
        None \<Rightarrow> if expect < StageSettled
          then Some (brokenInvariantErr ''unexpectedly settled'') else None
      | Some _ \<Rightarrow>
          if expect \<ge> StageSettled then Some (brokenInvariantErr ''expected to be settled'')
          else case res_bind (deref (LastSettled w b)) (PostExecutionStateRoot w) of
                 Inl err \<Rightarrow> Some err
               | Inr r \<Rightarrow>
                   if SettledStateRoot w b \<noteq> r
                   then Some (brokenInvariantErr ''state root does not match last-settled post execution'')
                   else None)"

definition CheckInvariants :: "('kv, 'x, 'e) env_scheme \<Rightarrow> ('kv, 'x, 'z) world_scheme
    \<Rightarrow> ptr \<Rightarrow> LifeCycleStage \<Rightarrow> go_error option" where
  "CheckInvariants E w b expect =
     (case CheckInvariants_execution E w b expect of
        Some err \<Rightarrow> Some err
      | None \<Rightarrow> CheckInvariants_ancestry w b expect)"

definition RestoreSettledBlock :: "('kv, 'x, 'e) env_scheme \<Rightarrow> eth_block option
    \<Rightarrow> (('kv, 'x, 'z) world_scheme, ptr) prog" where
  "RestoreSettledBlock E ethB =
     mbind (blocks_New E ethB None None) (\<lambda>b.
     mbind (mmap_err (\<lambda>_. ErrOther ''restoring to executed state'')
       (RestoreExecutionArtefacts E b)) (\<lambda>_.
     mbind (mmap_err (\<lambda>_. ErrOther ''restoring to settled state'') (markSettled E b None)) (\<lambda>_.
     mbind (mget (\<lambda>w. CheckInvariants E w b StageSettled)) (\<lambda>chk.
     case chk of Some err \<Rightarrow> mfail err | None \<Rightarrow> mreturn b))))"

end
