(* ===== verification/Lifecycle.thy ===== *)
theory Lifecycle
  imports Blocks
begin

text \<open>
  The life cycle of a block: the ordering guarantees of \<^verbatim>\<open>src/docs/invariants.md\<close>, the heap
  invariant that every operation of package \<^verbatim>\<open>blocks\<close> keeps, and what marking a block
  executed or settled does on every branch.
\<close>

section \<open>Ordering guarantees\<close>

text \<open>
  \<open>requires ev past\<close> is the row of the table of guarantees for the effect \<open>ev\<close>: what must
  have happened before. Disk (\<open>EvPut\<close>, \<open>EvSync\<close>, \<open>EvBatch\<close>, or \<open>EvLoad\<close> when the results were
  read back) comes before memory (\<open>EvExecution\<close>, \<open>EvSettled\<close>), memory before the atomic
  pointers (\<open>EvStore\<close>), and the pointers before the broadcasts.
\<close>

definition batch_has :: "(db_write \<Rightarrow> bool) \<Rightarrow> event list \<Rightarrow> bool" where
  "batch_has P past = list_ex (\<lambda>e. case e of EvBatch ws \<Rightarrow> list_ex P ws | _ \<Rightarrow> False) past"

definition executed_before :: "ptr \<Rightarrow> event list \<Rightarrow> bool" where
  "executed_before b past = list_ex (\<lambda>e. case e of EvExecution b' _ _ \<Rightarrow> b' = b | _ \<Rightarrow> False) past"

definition stored_before :: "cell \<Rightarrow> ptr \<Rightarrow> event list \<Rightarrow> bool" where
  "stored_before c b past = list_ex (\<lambda>e. case e of EvStore c' b' _ \<Rightarrow> c' = c \<and> b' = b | _ \<Rightarrow> False) past"

fun requires_store :: "cell \<Rightarrow> ptr \<Rightarrow> hash \<Rightarrow> event list \<Rightarrow> bool" where
  "requires_store CellLastExecuted b h past \<longleftrightarrow>
     executed_before b past
     \<and> batch_has (\<lambda>x. x = WriteHeadBlockHash h) past \<and> batch_has (\<lambda>x. x = WriteHeadHeaderHash h) past"
| "requires_store CellLastSettled b h past \<longleftrightarrow> EvSettled b \<in> set past"
| "requires_store CellLastAccepted b h past \<longleftrightarrow>
     batch_has (\<lambda>x. case x of WriteCanonicalHash h' _ \<Rightarrow> h' = h | _ \<Rightarrow> False) past"
| "requires_store CellPreference b h past \<longleftrightarrow> True"
| "requires_store CellBlackhole b h past \<longleftrightarrow> EvSettled b \<in> set past"

fun requires :: "event \<Rightarrow> event list \<Rightarrow> bool" where
  "requires (EvSync n m) past \<longleftrightarrow> EvPut n \<in> set past"
| "requires (EvExecution b n h) past \<longleftrightarrow>
     EvPut n \<in> set past \<and> EvSync n n \<in> set past \<or> EvLoad n \<in> set past"
| "requires (EvStore c b h) past \<longleftrightarrow> requires_store c b h past"
| "requires (EvCloseExecuted b c) past \<longleftrightarrow>
     executed_before b past \<and> (case c of None \<Rightarrow> True | Some c \<Rightarrow> stored_before c b past)"
| "requires (EvCloseSettled b c) past \<longleftrightarrow>
     EvSettled b \<in> set past \<and> (case c of None \<Rightarrow> True | Some c \<Rightarrow> stored_before c b past)"
| "requires (EvSendAccepted b) past \<longleftrightarrow> stored_before CellLastAccepted b past"
| "requires (EvEnqueue b) past \<longleftrightarrow> stored_before CellLastAccepted b past"
| "requires (EvSendExecuted b) past \<longleftrightarrow> EvCloseExecuted b (Some CellLastExecuted) \<in> set past"
| "requires _ past \<longleftrightarrow> True"

fun ordered :: "event list \<Rightarrow> bool" where
  "ordered [] \<longleftrightarrow> True"
| "ordered (ev # past) \<longleftrightarrow> requires ev past \<and> ordered past"

text \<open>Every effect in an ordered trace has its prerequisites strictly before it.\<close>

lemma ordered_split: "ordered (later @ ev # past) \<Longrightarrow> requires ev past"
  by (induction later) simp_all

lemma before_simps [simp]:
  "batch_has P (ev # past) \<longleftrightarrow> (case ev of EvBatch ws \<Rightarrow> list_ex P ws | _ \<Rightarrow> False) \<or> batch_has P past"
  "executed_before b (ev # past) \<longleftrightarrow>
     (case ev of EvExecution b' _ _ \<Rightarrow> b' = b | _ \<Rightarrow> False) \<or> executed_before b past"
  "stored_before c b (ev # past) \<longleftrightarrow>
     (case ev of EvStore c' b' _ \<Rightarrow> c' = c \<and> b' = b | _ \<Rightarrow> False) \<or> stored_before c b past"
  by (simp_all add: batch_has_def executed_before_def stored_before_def)

section \<open>Unfolding one operation\<close>

lemma trace_emit [simp]: "trace (emit ev w) = ev # trace w"
  by (simp add: emit_def)

lemma heap_emit [simp]: "heap (emit ev w) = heap w"
  by (simp add: emit_def)

lemma emit_simps [simp]:
  "fresh (emit ev w) = fresh w" "kvdb (emit ev w) = kvdb w" "xdb (emit ev w) = xdb w"
  "cells (emit ev w) = cells w"
  by (simp_all add: emit_def)

lemma upd_blk_simps [simp]:
  "heap (upd_blk b f w) = (heap w)(b := f (heap w b))" "fresh (upd_blk b f w) = fresh w"
  "kvdb (upd_blk b f w) = kvdb w" "xdb (upd_blk b f w) = xdb w" "cells (upd_blk b f w) = cells w"
  "trace (upd_blk b f w) = trace w"
  by (simp_all add: upd_blk_def)

lemma store_cell_simps [simp]:
  "heap (store_cell E c b w) = heap w" "fresh (store_cell E c b w) = fresh w"
  "kvdb (store_cell E c b w) = kvdb w" "xdb (store_cell E c b w) = xdb w"
  "cells (store_cell E c b w) = (cells w)(c := Some b)"
  "trace (store_cell E c b w) = EvStore c b (Hash E w b) # trace w"
  by (simp_all add: store_cell_def)

text \<open>The accessors read the wrapped block only.\<close>

lemmas accessor_defs = EthBlock_def Header_def Hash_def Block_ParentHash_def Block_Number_def
  NumberU64_def Height_def BuildTime_def SettledStateRoot_def Transactions_def

definition same_eth :: "('kv, 'x, 'z) world_scheme \<Rightarrow> ('kv, 'x, 'y) world_scheme \<Rightarrow> bool" where
  "same_eth w w' \<longleftrightarrow> (\<forall>b. eth (heap w' b) = eth (heap w b))"

lemma same_eth_accessors:
  assumes "same_eth w w'"
  shows "Header w' b = Header w b" "Hash E w' b = Hash E w b" "NumberU64 w' b = NumberU64 w b"
    "Block_Number w' b = Block_Number w b" "Height w' b = Height w b"
    "Block_ParentHash w' b = Block_ParentHash w b" "Transactions w' b = Transactions w b"
    "BuildTime w' b = BuildTime w b" "SettledStateRoot w' b = SettledStateRoot w b"
  using assms by (simp_all add: same_eth_def accessor_defs)

lemma Hash_upd_eth [simp]:
  "(\<And>k. eth (f k) = eth k) \<Longrightarrow> Hash E (upd_blk b f w) c = Hash E w c"
  "(\<And>k. eth (f k) = eth k) \<Longrightarrow> NumberU64 (upd_blk b f w) c = NumberU64 w c"
  "Hash E (emit ev w) c = Hash E w c" "NumberU64 (emit ev w) c = NumberU64 w c"
  "Hash E (store_cell E' cl b w) c = Hash E w c" "NumberU64 (store_cell E' cl b w) c = NumberU64 w c"
  by (simp_all add: accessor_defs)

section \<open>Marking a block executed\<close>

text \<open>The three stages of \<open>markExecutedOnDisk\<close> and what each leaves behind.\<close>

lemma write_xdb_cases:
  assumes "write_xdb f ev w = (r, w')"
  obtains (err) e x where "f (xdb w) = (Some e, x)" and "r = Inl e" and "w' = w\<lparr>xdb := x\<rparr>"
  | (ok) x where "f (xdb w) = (None, x)" and "r = Inr ()" and "w' = emit ev (w\<lparr>xdb := x\<rparr>)"
  using assms by (auto simp: write_xdb_def split: prod.splits option.splits)

lemma write_batch_cases:
  assumes "write_batch E ws w = (r, w')"
  obtains (err) e kv where "BatchWrite E ws (kvdb w) = (Some e, kv)" and "r = Inl e"
      and "w' = w\<lparr>kvdb := kv\<rparr>"
  | (ok) kv where "BatchWrite E ws (kvdb w) = (None, kv)" and "r = Inr ()"
      and "w' = emit (EvBatch ws) (w\<lparr>kvdb := kv\<rparr>)"
  using assms by (auto simp: write_batch_def split: prod.splits option.splits)

definition head_batch :: "('kv, 'x, 'e) env_scheme \<Rightarrow> ('kv, 'x, 'z) world_scheme \<Rightarrow> ptr
    \<Rightarrow> db_write list \<Rightarrow> bool \<Rightarrow> db_write list" where
  "head_batch E w b batch setHd = (if setHd then SetAsHeadBlock E w b batch else batch)"

lemma Hash_xdb [simp]: "Hash E (w\<lparr>xdb := x\<rparr>) b = Hash E w b" "Hash E (w\<lparr>kvdb := kv\<rparr>) b = Hash E w b"
  "NumberU64 (w\<lparr>xdb := x\<rparr>) b = NumberU64 w b" "NumberU64 (w\<lparr>kvdb := kv\<rparr>) b = NumberU64 w b"
  "Hash E (w\<lparr>trace := t\<rparr>) b = Hash E w b" "NumberU64 (w\<lparr>trace := t\<rparr>) b = NumberU64 w b"
  by (simp_all add: accessor_defs)

lemma markExecutedOnDisk_cases:
  assumes "markExecutedOnDisk E b batch e setHd w = (r, w')"
  obtains (err) err x kv tr where "r = Inl err"
      and "w' = w\<lparr>xdb := x, kvdb := kv, trace := tr @ trace w\<rparr>"
      and "tr \<in> {[], [EvPut (NumberU64 w b)], [EvSync (NumberU64 w b) (NumberU64 w b), EvPut (NumberU64 w b)]}"
  | (ok) x1 x kv where "r = Inr ()"
      and "xdb_Put E (NumberU64 w b) (MarshalCanoto E e) (xdb w) = (None, x1)"
      and "xdb_Sync E (NumberU64 w b) (NumberU64 w b) x1 = (None, x)"
      and "BatchWrite E (head_batch E w b batch setHd) (kvdb w) = (None, kv)"
      and "w' = w\<lparr>xdb := x, kvdb := kv, trace := EvBatch (head_batch E w b batch setHd)
        # EvSync (NumberU64 w b) (NumberU64 w b) # EvPut (NumberU64 w b) # trace w\<rparr>"
proof -
  obtain e1 x1 where p: "xdb_Put E (NumberU64 w b) (MarshalCanoto E e) (xdb w) = (e1, x1)" by fastforce
  obtain e2 x2 where s: "xdb_Sync E (NumberU64 w b) (NumberU64 w b) x1 = (e2, x2)" by fastforce
  obtain e3 kv where k: "BatchWrite E (head_batch E w b batch setHd) (kvdb w) = (e3, kv)" by fastforce
  note unf = markExecutedOnDisk_def prog_simps write_xdb_def write_batch_def emit_def
    head_batch_def SetAsHeadBlock_def Let_def
  show thesis
  proof (cases "e1 = None \<and> e2 = None \<and> e3 = None")
    case True
    then show ?thesis using assms p s k ok by (cases setHd) (simp_all add: unf)
  next
    case False
    then show ?thesis
      using assms p s k err [where x = x1 and kv = "kvdb w" and tr = "[]"]
        err [where x = x2 and kv = "kvdb w" and tr = "[EvPut (NumberU64 w b)]"]
        err [where x = x2 and kv = kv
          and tr = "[EvSync (NumberU64 w b) (NumberU64 w b), EvPut (NumberU64 w b)]"]
      by (cases setHd) (auto simp: unf split: option.splits)
  qed
qed

definition announce :: "('kv, 'x, 'e) env_scheme \<Rightarrow> cell option \<Rightarrow> ptr
    \<Rightarrow> ('kv, 'x, 'z) world_scheme \<Rightarrow> ('kv, 'x, 'z) world_scheme" where
  "announce E c b w = (case c of None \<Rightarrow> w | Some c \<Rightarrow> store_cell E c b w)"

definition executed_world :: "('kv, 'x, 'e) env_scheme \<Rightarrow> ptr \<Rightarrow> execution_results \<Rightarrow> cell option
    \<Rightarrow> ('kv, 'x, 'z) world_scheme \<Rightarrow> ('kv, 'x, 'z) world_scheme" where
  "executed_world E b e c w =
     emit (EvCloseExecuted b c) (upd_blk b (\<lambda>k. k\<lparr>executed_closed := True\<rparr>)
       (announce E c b (emit (EvExecution b (NumberU64 w b) (Hash E w b))
         (upd_blk b (\<lambda>k. k\<lparr>execution := Some e\<rparr>) w))))"

lemma announce_simps [simp]:
  "heap (announce E c b w) = heap w" "fresh (announce E c b w) = fresh w"
  "kvdb (announce E c b w) = kvdb w" "xdb (announce E c b w) = xdb w"
  "trace (announce E c b w) =
     (case c of None \<Rightarrow> trace w | Some c \<Rightarrow> EvStore c b (Hash E w b) # trace w)"
  "cells (announce E c b w) = (case c of None \<Rightarrow> cells w | Some c \<Rightarrow> (cells w)(c := Some b))"
  by (simp_all add: announce_def split: option.split)

lemma markExecutedAfterDiskArtefacts_cases:
  assumes "markExecutedAfterDiskArtefacts E b e c w = (r, w')"
  obtains (again) "execution (heap w b) \<noteq> None" and "r = Inl (Wrap [ErrMarkBlockExecutedAgain])"
      and "w' = emit (EvLogFatal ''Block re-marked as executed'') w"
  | (closed) "execution (heap w b) = None" and "executed_closed (heap w b)"
  | (ok) "execution (heap w b) = None" and "\<not> executed_closed (heap w b)" and "r = Inr ()"
      and "w' = executed_world E b e c w"
  using assms
  by (cases c)
    (auto simp: markExecutedAfterDiskArtefacts_def prog_simps executed_world_def announce_def
      split: if_splits)

lemma markExecutedAfterDiskArtefacts_ok:
  "execution (heap w b) = None \<Longrightarrow> \<not> executed_closed (heap w b)
    \<Longrightarrow> markExecutedAfterDiskArtefacts E b e c w = (Inr (), executed_world E b e c w)"
  by (cases c)
    (simp_all add: markExecutedAfterDiskArtefacts_def prog_simps executed_world_def announce_def)

lemma RestoreExecutionArtefacts_ok:
  assumes "loadExecutionResults E (xdb w) (NumberU64 w b) = Inr e"
    and "DeriveFields E (Hash E w b) (NumberU64 w b) (BuildTime w b) (uint (er_baseFee e))
      (Transactions w b) (ReadRawReceipts E (kvdb w) (Hash E w b) (NumberU64 w b)) = Inr rs"
    and "execution (heap w b) = None" and "\<not> executed_closed (heap w b)"
  shows "RestoreExecutionArtefacts E b w = (Inr (),
    executed_world E b (e\<lparr>er_receipts := rs\<rparr>) None (emit (EvLoad (NumberU64 w b)) w))"
proof -
  have "BuildTime (emit ev w) b = BuildTime w b" "Transactions (emit ev w) b = Transactions w b" for ev
    by (simp_all add: accessor_defs)
  then show ?thesis
    using assms by (simp add: RestoreExecutionArtefacts_def prog_simps markExecutedAfterDiskArtefacts_ok)
qed

section \<open>The heap invariant\<close>

text \<open>
  What package \<^verbatim>\<open>blocks\<close> promises of every block it has constructed: the channel
  \<open>executed\<close> is closed exactly when execution results are set, a block whose \<open>settled\<close>
  channel is closed has no ancestry, a synchronous block is executed, and a parent pointer
  leads to the block whose hash and height the header names.
\<close>

definition blk_ok :: "blk \<Rightarrow> bool" where
  "blk_ok k \<longleftrightarrow> (executed_closed k \<longleftrightarrow> execution k \<noteq> None) \<and> (settled_closed k \<longrightarrow> ancestry k = None)
     \<and> (synchronous k \<longrightarrow> execution k \<noteq> None)"

definition ptr_ok :: "('kv, 'x, 'z) world_scheme \<Rightarrow> ptr option \<Rightarrow> bool" where
  "ptr_ok w p \<longleftrightarrow> (case p of None \<Rightarrow> True | Some b \<Rightarrow> b < fresh w)"

definition link_ok :: "('kv, 'x, 'e) env_scheme \<Rightarrow> ('kv, 'x, 'z) world_scheme \<Rightarrow> ptr \<Rightarrow> bool" where
  "link_ok E w b \<longleftrightarrow> (case ancestry (heap w b) of None \<Rightarrow> True
     | Some a \<Rightarrow> ptr_ok w (anc_parent a) \<and> ptr_ok w (anc_lastSettled a)
         \<and> SetAncestors_check E b (anc_parent a) w = None)"

definition heap_inv :: "('kv, 'x, 'e) env_scheme \<Rightarrow> ('kv, 'x, 'z) world_scheme \<Rightarrow> bool" where
  "heap_inv E w \<longleftrightarrow> (\<forall>b < fresh w. blk_ok (heap w b) \<and> link_ok E w b)"

lemma ptr_ok_cong: "fresh w' = fresh w \<Longrightarrow> ptr_ok w' = ptr_ok w"
  by (simp add: ptr_ok_def fun_eq_iff split: option.split)

lemma ptr_ok_upd [simp]: "ptr_ok (upd_blk b f w) = ptr_ok w"
  by (rule ptr_ok_cong) simp

lemma check_cong:
  assumes "same_eth w w'"
  shows "SetAncestors_check E b p w' = SetAncestors_check E b p w"
  by (simp add: SetAncestors_check_def same_eth_accessors [OF assms] split: option.split)

lemma heap_inv_cong:
  assumes "heap w' = heap w" and "fresh w' = fresh w"
  shows "heap_inv E w' \<longleftrightarrow> heap_inv E w"
proof -
  have "SetAncestors_check E b p w' = SetAncestors_check E b p w" for b p
    by (rule check_cong) (simp add: same_eth_def assms)
  moreover have "ptr_ok w' = ptr_ok w" by (rule ptr_ok_cong) (rule assms)
  ultimately have "link_ok E w' = link_ok E w"
    by (simp add: link_ok_def fun_eq_iff assms split: option.split)
  then show ?thesis by (simp add: heap_inv_def assms)
qed

lemma heap_inv_emit [simp]: "heap_inv E (emit ev w) \<longleftrightarrow> heap_inv E w"
  by (rule heap_inv_cong) simp_all

lemma heap_inv_announce [simp]: "heap_inv E (announce E' c b w) \<longleftrightarrow> heap_inv E w"
  by (rule heap_inv_cong) simp_all

lemma same_eth_upd: "(\<And>k. eth (f k) = eth k) \<Longrightarrow> same_eth w (upd_blk b f w)"
  by (simp add: same_eth_def)

lemma heap_inv_upd:
  assumes inv: "heap_inv E w" and eth: "\<And>k. eth (f k) = eth k"
    and ok: "b < fresh w \<Longrightarrow> blk_ok (heap w b) \<Longrightarrow> blk_ok (f (heap w b))"
    and anc: "ancestry (f (heap w b)) \<in> {None, ancestry (heap w b)}"
  shows "heap_inv E (upd_blk b f w)"
proof -
  note chk = check_cong [OF same_eth_upd, of f, OF eth]
  have "link_ok E (upd_blk b f w) c" if "link_ok E w c" for c
    using that anc
    by (auto simp: link_ok_def chk ptr_ok_def split: option.splits)
  then show ?thesis using inv ok by (simp add: heap_inv_def)
qed

lemma heap_inv_SetAncestors:
  assumes "heap_inv E w" and "ptr_ok w parent" and "ptr_ok w ls"
    and "b < fresh w \<Longrightarrow> \<not> settled_closed (heap w b)"
    and "SetAncestors E b parent ls w = (r, w')"
  shows "heap_inv E w'"
proof (cases "SetAncestors_check E b parent w")
  case None
  define f where "f = (\<lambda>k :: blk. k\<lparr>ancestry := Some \<lparr>anc_parent = parent, anc_lastSettled = ls\<rparr>\<rparr>)"
  have w': "w' = upd_blk b f w"
    using assms(5) None by (simp add: SetAncestors_def prog_simps f_def)
  have chk: "SetAncestors_check E c p w' = SetAncestors_check E c p w" for c p
    unfolding w' by (intro check_cong same_eth_upd) (simp add: f_def)
  have "link_ok E w' c \<and> blk_ok (heap w' c)" if c: "c < fresh w" for c
  proof (cases "c = b")
    case True
    then show ?thesis
      using c assms(1-4) None chk [of b parent]
      by (auto simp: heap_inv_def link_ok_def blk_ok_def w' f_def)
  next
    case False
    then have "heap w' c = heap w c" "ptr_ok w' = ptr_ok w" by (simp_all add: w')
    then show ?thesis using c assms(1) chk [of c]
      by (auto simp: heap_inv_def link_ok_def split: option.splits)
  qed
  then show ?thesis by (simp add: heap_inv_def w')
next
  case (Some e)
  then show ?thesis using assms by (simp add: SetAncestors_def prog_simps)
qed

lemma heap_inv_blocks_New:
  assumes "heap_inv E w" and "ptr_ok w parent" and "ptr_ok w ls"
    and "blocks_New E ethB parent ls w = (r, w')"
  shows "heap_inv E w'"
proof (cases ethB)
  case None
  then show ?thesis using assms by (simp add: blocks_New_def prog_simps)
next
  case (Some e)
  define b where "b = fresh w"
  define v where "v = w\<lparr>heap := (heap w)(b := zero_blk e), fresh := b + 1,
    inMemoryBlockCount := inMemoryBlockCount w + 1\<rparr>"
  have eqs: "heap v = (heap w)(b := zero_blk e)" "fresh v = b + 1" by (simp_all add: v_def)
  have ptr: "ptr_ok v p" if "ptr_ok w p" for p
    using that by (auto simp: ptr_ok_def eqs b_def split: option.splits)
  have chk: "SetAncestors_check E c p v = SetAncestors_check E c p w" if "c < b" "ptr_ok w p" for c p
    using that by (auto simp: SetAncestors_check_def accessor_defs eqs ptr_ok_def b_def split: option.splits)
  have "blk_ok (heap v c) \<and> link_ok E v c" if "c < fresh v" for c
  proof (cases "c = b")
    case True
    then show ?thesis by (simp add: eqs blk_ok_def link_ok_def zero_blk_def)
  next
    case False
    then have "c < b" using that by (simp add: eqs)
    then show ?thesis
      using assms(1) ptr chk False by (auto simp: heap_inv_def b_def link_ok_def eqs split: option.splits)
  qed
  then have inv: "heap_inv E v" by (simp add: heap_inv_def)
  obtain r1 w1 where run: "SetAncestors E b parent ls v = (r1, w1)" by fastforce
  have "w' = w1"
    using assms(4) run
    by (auto simp: blocks_New_def Some prog_simps b_def v_def split: sum.splits)
  then show ?thesis
    using heap_inv_SetAncestors [OF inv _ _ _ run] ptr assms(2,3) by (simp add: eqs zero_blk_def)
qed

lemma heap_inv_executed_world:
  assumes "heap_inv E w" and "execution (heap w b) = None"
  shows "heap_inv E (executed_world E' b e c w)"
proof -
  define f :: "blk \<Rightarrow> blk" where "f = (\<lambda>k. k\<lparr>execution := Some e, executed_closed := True\<rparr>)"
  have "heap_inv E (upd_blk b f w)"
    using assms by (intro heap_inv_upd) (auto simp: f_def blk_ok_def)
  moreover have "heap (executed_world E' b e c w) = heap (upd_blk b f w)"
    by (simp add: executed_world_def f_def)
  ultimately show ?thesis using heap_inv_cong [of "executed_world E' b e c w" "upd_blk b f w" E]
    by (simp add: executed_world_def)
qed

lemma heap_inv_markExecutedAfterDiskArtefacts:
  assumes "heap_inv E w" and "b < fresh w"
    and "markExecutedAfterDiskArtefacts E b e c w = (r, w')"
  shows "heap_inv E w'"
  using assms(3)
proof (cases rule: markExecutedAfterDiskArtefacts_cases)
  case closed
  then show ?thesis using assms(1,2) by (auto simp: heap_inv_def blk_ok_def)
qed (use assms(1) heap_inv_executed_world in auto)

lemma heap_inv_markExecuted:
  assumes "heap_inv E w" and "b < fresh w" and "markExecuted E b batch e setHd c w = (r, w')"
  shows "heap_inv E w' \<and> fresh w' = fresh w"
proof -
  obtain r1 w1 where d: "markExecutedOnDisk E b batch e setHd w = (r1, w1)" by fastforce
  have w1: "heap w1 = heap w" "fresh w1 = fresh w"
    using d by (cases rule: markExecutedOnDisk_cases; simp)+
  then have inv: "heap_inv E w1" using assms(1) heap_inv_cong by blast
  obtain r2 w2 where m: "markExecutedAfterDiskArtefacts E b e c w1 = (r2, w2)" by fastforce
  have "heap_inv E w2" using heap_inv_markExecutedAfterDiskArtefacts [OF inv _ m] w1 assms(2) by simp
  moreover have "fresh w2 = fresh w1"
    using m assms(2) inv w1
    by (cases rule: markExecutedAfterDiskArtefacts_cases)
      (auto simp: executed_world_def heap_inv_def blk_ok_def)
  ultimately show ?thesis
    using assms(3) d m inv w1 by (auto simp: markExecuted_def prog_simps split: sum.splits)
qed

definition results_of :: "('kv, 'x, 'e) env_scheme \<Rightarrow> gtime \<Rightarrow> gotime \<Rightarrow> receipt list \<Rightarrow> hash
    \<Rightarrow> execution_results" where
  "results_of E g wall rs postRoot =
     \<lparr>byGas = gastime_Clone g, er_baseFee = 0, receiptRoot = DeriveSha E rs,
      stateRootPost = postRoot, byWall = wall, er_receipts = rs\<rparr>"

definition log_only :: "('kv, 'x, 'z) world_scheme \<Rightarrow> ('kv, 'x, 'z) world_scheme \<Rightarrow> bool" where
  "log_only w w' \<longleftrightarrow> w' = w \<or> (\<exists>msg. w' = emit (EvLogError msg) w)"

lemma log_only_simps:
  assumes "log_only w w'"
  shows "heap w' = heap w" "fresh w' = fresh w" "kvdb w' = kvdb w" "xdb w' = xdb w" "cells w' = cells w"
    "heap_inv E w' = heap_inv E w" "Hash E w' b = Hash E w b" "NumberU64 w' b = NumberU64 w b"
    "ordered (trace w') = ordered (trace w)"
  using assms by (auto simp: log_only_def)

lemma MarkExecuted_cases:
  assumes "MarkExecuted E b g wall bf rs postRoot c w = (r, w')"
  obtains (fee) err where "setBaseFee bf (results_of E g wall rs postRoot) = Inl err"
      and "r = Inl err" and "log_only w w'"
  | (run) e w1 where "setBaseFee bf (results_of E g wall rs postRoot) = Inr e" and "log_only w w1"
      and "markExecuted E b [WriteReceipts (Hash E w b) (NumberU64 w b) rs] e True c w1 = (r, w')"
proof -
  define w1 where "w1 = (case interimExecutionTime (heap w b) of
      Some it \<Rightarrow> if proxytime_Compare (gt_time g) it < 0
        then emit (EvLogError ''Final execution gas time before last interim time'') w else w
    | None \<Rightarrow> w)"
  have lo: "log_only w w1" by (auto simp: w1_def log_only_def split: option.splits)
  have "MarkExecuted E b g wall bf rs postRoot c w =
    (case setBaseFee bf (results_of E g wall rs postRoot) of Inl err \<Rightarrow> (Inl err, w1)
     | Inr e \<Rightarrow> markExecuted E b [WriteReceipts (Hash E w b) (NumberU64 w b) rs] e True c w1)"
    by (auto simp: MarkExecuted_def prog_simps results_of_def w1_def
        split: option.splits sum.splits)
  then show thesis using assms lo fee run by (auto split: sum.splits)
qed

lemma heap_inv_MarkExecuted:
  assumes "heap_inv E w" and "b < fresh w"
    and "MarkExecuted E b g wall bf rs postRoot c w = (r, w')"
  shows "heap_inv E w'"
  using assms(3)
proof (cases rule: MarkExecuted_cases)
  case (run e w1)
  then show ?thesis using heap_inv_markExecuted [OF _ _ run(3)] assms by (simp add: log_only_simps)
qed (use assms in \<open>simp add: log_only_simps\<close>)

lemma RestoreExecutionArtefacts_cases:
  assumes "RestoreExecutionArtefacts E b w = (r, w')"
  obtains (load) err where "loadExecutionResults E (xdb w) (NumberU64 w b) = Inl err"
      and "r = Inl err" and "w' = w"
  | (derive) "r = Inl (ErrOther ''deriving receipt fields'')" and "w' = emit (EvLoad (NumberU64 w b)) w"
  | (run) e rs where "loadExecutionResults E (xdb w) (NumberU64 w b) = Inr e"
      and "DeriveFields E (Hash E w b) (NumberU64 w b) (BuildTime w b) (uint (er_baseFee e))
        (Transactions w b) (ReadRawReceipts E (kvdb w) (Hash E w b) (NumberU64 w b)) = Inr rs"
      and "markExecutedAfterDiskArtefacts E b (e\<lparr>er_receipts := rs\<rparr>) None
        (emit (EvLoad (NumberU64 w b)) w) = (r, w')"
  using assms
  by (auto simp: RestoreExecutionArtefacts_def prog_simps accessor_defs split: sum.splits)

lemma heap_inv_RestoreExecutionArtefacts:
  assumes "heap_inv E w" and "b < fresh w" and "RestoreExecutionArtefacts E b w = (r, w')"
  shows "heap_inv E w'"
  using assms(3)
proof (cases rule: RestoreExecutionArtefacts_cases)
  case (run e rs)
  then show ?thesis
    using heap_inv_markExecutedAfterDiskArtefacts [OF _ _ run(3)] assms by simp
qed (use assms in auto)

section \<open>Marking a block settled\<close>

definition settled_world :: "('kv, 'x, 'e) env_scheme \<Rightarrow> ptr \<Rightarrow> cell option
    \<Rightarrow> ('kv, 'x, 'z) world_scheme \<Rightarrow> ('kv, 'x, 'z) world_scheme" where
  "settled_world E b c w =
     emit (EvCloseSettled b c) (upd_blk b (\<lambda>k. k\<lparr>settled_closed := True\<rparr>)
       (announce E c b (emit (EvSettled b) (upd_blk b (\<lambda>k. k\<lparr>ancestry := None\<rparr>) w))))"

lemma markSettled_swap_cases:
  assumes "markSettled_swap E b c a w = (r, w')"
  obtains (changed) "ancestry (heap w b) \<noteq> Some a" and "r = Inl ErrBlockAncestryChanged"
      and "w' = emit (EvLogFatal ''Block ancestry changed during settlement'') w"
  | (closed) "ancestry (heap w b) = Some a" and "settled_closed (heap w b)"
  | (ok) "ancestry (heap w b) = Some a" and "\<not> settled_closed (heap w b)" and "r = Inr ()"
      and "w' = settled_world E b c w"
  using assms
  by (cases c)
    (auto simp: markSettled_swap_def prog_simps settled_world_def announce_def split: if_splits)

lemma markSettled_cases:
  assumes "markSettled E b c w = (r, w')"
  obtains (again) "Settled w b" and "r = Inl (Wrap [ErrBlockResettled])"
      and "w' = emit (EvLogError ''block re-settled'') w"
  | (closed) "\<not> Settled w b" and "settled_closed (heap w b)"
  | (ok) "\<not> Settled w b" and "\<not> settled_closed (heap w b)" and "r = Inr ()"
      and "w' = settled_world E b c w"
proof (cases "ancestry (heap w b)")
  case None
  then show thesis using assms again by (simp add: markSettled_def prog_simps Settled_def)
next
  case (Some a)
  then have "markSettled_swap E b c a w = (r, w')"
    using assms by (simp add: markSettled_def prog_simps)
  then show thesis
    by (cases rule: markSettled_swap_cases) (use Some closed ok in \<open>auto simp: Settled_def\<close>)
qed

lemma heap_inv_markSettled:
  assumes "heap_inv E w" and "b < fresh w" and "markSettled E b c w = (r, w')"
  shows "heap_inv E w'"
  using assms(3)
proof (cases rule: markSettled_cases)
  case closed
  then show ?thesis using assms(1,2) by (auto simp: heap_inv_def blk_ok_def Settled_def)
next
  case ok
  define f :: "blk \<Rightarrow> blk" where "f = (\<lambda>k. k\<lparr>ancestry := None, settled_closed := True\<rparr>)"
  have "heap_inv E (upd_blk b f w)"
    using assms by (intro heap_inv_upd) (auto simp: f_def blk_ok_def)
  moreover have "heap w' = heap (upd_blk b f w)" "fresh w' = fresh (upd_blk b f w)"
    by (simp_all add: ok(4) settled_world_def f_def)
  ultimately show ?thesis using heap_inv_cong by blast
qed (use assms in simp)

lemma markExecuted_Inr:
  assumes "markExecuted E b batch e setHd c w = (Inr u, w')"
  obtains x1 x kv where "execution (heap w b) = None" and "\<not> executed_closed (heap w b)"
    and "xdb_Put E (NumberU64 w b) (MarshalCanoto E e) (xdb w) = (None, x1)"
    and "xdb_Sync E (NumberU64 w b) (NumberU64 w b) x1 = (None, x)"
    and "BatchWrite E (head_batch E w b batch setHd) (kvdb w) = (None, kv)"
    and "w' = executed_world E b e c (w\<lparr>xdb := x, kvdb := kv, trace :=
      EvBatch (head_batch E w b batch setHd)
        # EvSync (NumberU64 w b) (NumberU64 w b) # EvPut (NumberU64 w b) # trace w\<rparr>)"
proof -
  obtain u1 w1 where d: "markExecutedOnDisk E b batch e setHd w = (Inr u1, w1)"
    and m: "markExecutedAfterDiskArtefacts E b e c w1 = (Inr u, w')"
    using assms unfolding markExecuted_def by (blast elim: mbind_InrE)
  from d show thesis
  proof (cases rule: markExecutedOnDisk_cases)
    case (ok x1 x kv)
    note w1 = ok(5)
    from m show ?thesis
    proof (cases rule: markExecutedAfterDiskArtefacts_cases)
      case closed
      then show ?thesis
        using m by (auto simp: markExecutedAfterDiskArtefacts_def prog_simps split: option.splits)
    qed (use that [OF _ _ ok(2-4)] w1 in auto)
  qed simp
qed

lemma MarkSynchronous_cases:
  assumes "MarkSynchronous E H b x w = (r, w')"
  obtains (err) err where "r = Inl err" and "w' = w"
  | (exec_err) e err where "r = Inl err" and "markExecuted E b [] e False None w = (Inl err, w')"
  | (run) e w1 where "markExecuted E b [] e False None w = (Inr (), w1)"
      and "markSettled E b None (upd_blk b (\<lambda>k. k\<lparr>synchronous := True\<rparr>) w1) = (r, w')"
proof -
  obtain targ cfg where gc: "GasConfigAfter H (Header w b) = (targ, cfg)" by fastforce
  show thesis
  proof (cases "gastime_New (PreciseTime H (Header w b)) targ x cfg")
    case (Inl err')
    then show ?thesis using assms gc err by (auto simp: MarkSynchronous_def prog_simps)
  next
    case (Inr t)
    define e0 where "e0 = \<lparr>byGas = gastime_Clone t, er_baseFee = 0,
      receiptRoot = ReceiptHash (Header w b), stateRootPost = Root (Header w b),
      byWall = zero_time, er_receipts = []\<rparr>"
    have eq: "MarkSynchronous E H b x w = mbind (mlift (setBaseFee (BaseFee (Header w b)) e0))
      (\<lambda>e. mbind (markExecuted E b [] e False None) (\<lambda>_.
        mbind (mmod (upd_blk b (\<lambda>k. k\<lparr>synchronous := True\<rparr>))) (\<lambda>_. markSettled E b None))) w"
      using Inr gc by (simp add: MarkSynchronous_def mbind_apply mget_apply mlift_apply e0_def)
    show ?thesis
    proof (cases "setBaseFee (BaseFee (Header w b)) e0")
      case (Inl err')
      then show ?thesis using assms err by (auto simp: eq prog_simps)
    next
      case (Inr e)
      obtain r1 w1 where m: "markExecuted E b [] e False None w = (r1, w1)" by fastforce
      show ?thesis
        using assms Inr m exec_err run by (cases r1) (auto simp: eq prog_simps)
    qed
  qed
qed

lemma heap_inv_MarkSynchronous:
  assumes "heap_inv E w" and "b < fresh w" and "MarkSynchronous E H b x w = (r, w')"
  shows "heap_inv E w'"
  using assms(3)
proof (cases rule: MarkSynchronous_cases)
  case (exec_err e err)
  then show ?thesis using heap_inv_markExecuted [OF assms(1,2)] by blast
next
  case (run e w1)
  define v where "v = upd_blk b (\<lambda>k :: blk. k\<lparr>synchronous := True\<rparr>) w1"
  have w1: "heap_inv E w1" "fresh w1 = fresh w" using heap_inv_markExecuted [OF assms(1,2) run(1)] by auto
  have "execution (heap w1 b) \<noteq> None"
    using run(1) by (rule markExecuted_Inr) (simp add: executed_world_def)
  then have "heap_inv E v"
    unfolding v_def using w1 by (intro heap_inv_upd) (auto simp: blk_ok_def)
  then show ?thesis
    using heap_inv_markSettled [OF _ _ run(2)] w1 assms(2) by (simp add: v_def)
qed (use assms in simp)

lemma fresh_RestoreExecutionArtefacts:
  "RestoreExecutionArtefacts E b w = (r, w') \<Longrightarrow> heap_inv E w \<Longrightarrow> b < fresh w \<Longrightarrow> fresh w' = fresh w"
  by (erule RestoreExecutionArtefacts_cases)
    (auto elim!: markExecutedAfterDiskArtefacts_cases
      simp: executed_world_def heap_inv_def blk_ok_def)

lemma fresh_SetAncestors: "SetAncestors E b p s w = (r, w') \<Longrightarrow> fresh w' = fresh w \<and> trace w' = trace w"
  by (auto simp: SetAncestors_def prog_simps split: option.splits)

lemma blocks_New_Inr:
  assumes "blocks_New E ethB parent ls w = (r, w')"
  shows "trace w' = trace w \<and> (\<forall>b. r = Inr b \<longrightarrow> b = fresh w \<and> b < fresh w')"
  using assms
  by (auto simp: blocks_New_def prog_simps split: option.splits sum.splits prod.splits
      dest!: fresh_SetAncestors)

lemma RestoreSettledBlock_cases:
  assumes "RestoreSettledBlock E ethB w = (r, w')"
  obtains (new) err where "blocks_New E ethB None None w = (Inl err, w')"
  | (restore) b w1 err where "blocks_New E ethB None None w = (Inr b, w1)"
      and "RestoreExecutionArtefacts E b w1 = (Inl err, w')" and "\<exists>err'. r = Inl err'"
  | (settle) b w1 w2 r2 where "blocks_New E ethB None None w = (Inr b, w1)"
      and "RestoreExecutionArtefacts E b w1 = (Inr (), w2)" and "markSettled E b None w2 = (r2, w')"
      and "r = Inr b \<longrightarrow> r2 = Inr () \<and> CheckInvariants E w' b StageSettled = None"
      and "\<forall>c. r = Inr c \<longrightarrow> c = b"
proof -
  obtain r0 w1 where n: "blocks_New E ethB None None w = (r0, w1)" by fastforce
  show thesis
  proof (cases r0)
    case (Inl err)
    then show ?thesis using assms n new by (auto simp: RestoreSettledBlock_def prog_simps)
  next
    case (Inr b)
    obtain r1 w2 where x: "RestoreExecutionArtefacts E b w1 = (r1, w2)" by fastforce
    show ?thesis
    proof (cases r1)
      case (Inl err)
      then show ?thesis
        using assms n Inr x restore by (auto simp: RestoreSettledBlock_def prog_simps)
    next
      case ok: (Inr u)
      obtain r2 w3 where m: "markSettled E b None w2 = (r2, w3)" by fastforce
      have f: "w3 = w' \<and> (\<forall>c. r = Inr c \<longrightarrow> c = b \<and> r2 = Inr () \<and> CheckInvariants E w' b StageSettled = None)"
        using assms n Inr x ok m
        by (auto simp: RestoreSettledBlock_def prog_simps split: sum.splits option.splits)
      have n': "blocks_New E ethB None None w = (Inr b, w1)" using n Inr by blast
      have x': "RestoreExecutionArtefacts E b w1 = (Inr (), w2)" using x ok by simp
      have m': "markSettled E b None w2 = (r2, w')" using m f by blast
      show ?thesis by (rule settle [OF n' x' m']) (use f in blast)+
    qed
  qed
qed

lemma heap_inv_RestoreSettledBlock:
  assumes "heap_inv E w" and "RestoreSettledBlock E ethB w = (r, w')"
  shows "heap_inv E w'"
proof -
  have N: "heap_inv E w1 \<and> (\<forall>b. q = Inr b \<longrightarrow> b < fresh w1)"
    if "blocks_New E ethB None None w = (q, w1)" for q w1
    using that heap_inv_blocks_New [OF assms(1) _ _ that] blocks_New_Inr [OF that]
    by (simp add: ptr_ok_def)
  from assms(2) show ?thesis
  proof (cases rule: RestoreSettledBlock_cases)
    case (restore b w1 err)
    then show ?thesis using N [OF restore(1)] heap_inv_RestoreExecutionArtefacts [OF _ _ restore(2)] by blast
  next
    case (settle b w1 w2 r2)
    have w1: "heap_inv E w1" "b < fresh w1" using N [OF settle(1)] by auto
    then have "heap_inv E w2" "b < fresh w2"
      using heap_inv_RestoreExecutionArtefacts [OF w1 settle(2)]
        fresh_RestoreExecutionArtefacts [OF settle(2) w1] by auto
    then show ?thesis using settle(3) by (rule heap_inv_markSettled)
  next
    case (new err)
    then show ?thesis using N by blast
  qed
qed

section \<open>Every operation respects the ordering\<close>

lemma ordered_executed_world:
  assumes "ordered (trace w)" and "requires (EvExecution b (NumberU64 w b) (Hash E w b)) (trace w)"
    and "c = None \<or> c = Some CellLastExecuted
      \<and> batch_has (\<lambda>x. x = WriteHeadBlockHash (Hash E w b)) (trace w)
      \<and> batch_has (\<lambda>x. x = WriteHeadHeaderHash (Hash E w b)) (trace w)"
  shows "ordered (trace (executed_world E b e c w))"
  using assms by (auto simp: executed_world_def)

lemma ordered_settled_world:
  assumes "ordered (trace w)" and "c \<in> {None, Some CellLastSettled, Some CellBlackhole}"
  shows "ordered (trace (settled_world E b c w))"
  using assms by (auto simp: settled_world_def)

lemma ordered_markExecutedOnDisk:
  assumes "ordered (trace w)" and "markExecutedOnDisk E b batch e setHd w = (r, w')"
  shows "ordered (trace w')"
  using assms(2) by (cases rule: markExecutedOnDisk_cases) (use assms(1) in auto)

lemma ordered_markExecuted:
  assumes "ordered (trace w)" and "c = None \<or> c = Some CellLastExecuted \<and> setHd"
    and "heap_inv E w" and "b < fresh w"
    and "markExecuted E b batch e setHd c w = (r, w')"
  shows "ordered (trace w')"
proof (cases r)
  case (Inr u)
  from assms(5)[unfolded Inr] show ?thesis
  proof (rule markExecuted_Inr)
    fix x1 x kv
    let ?v = "w\<lparr>xdb := x, kvdb := kv, trace := EvBatch (head_batch E w b batch setHd)
      # EvSync (NumberU64 w b) (NumberU64 w b) # EvPut (NumberU64 w b) # trace w\<rparr>"
    assume w': "w' = executed_world E b e c ?v"
    show ?thesis unfolding w'
      using assms(1,2)
      by (intro ordered_executed_world)
        (auto simp: head_batch_def SetAsHeadBlock_def Let_def)
  qed
next
  case (Inl err)
  obtain r1 w1 where d: "markExecutedOnDisk E b batch e setHd w = (r1, w1)" by fastforce
  have o1: "ordered (trace w1)" using ordered_markExecutedOnDisk [OF assms(1) d] .
  have h: "heap w1 = heap w" using d by (cases rule: markExecutedOnDisk_cases) auto
  obtain r2 w2 where m: "markExecutedAfterDiskArtefacts E b e c w1 = (r2, w2)" by fastforce
  have "ordered (trace w2)" if "r2 = Inl err2" for err2
    using m by (cases rule: markExecutedAfterDiskArtefacts_cases)
      (use that o1 assms(3,4) h in \<open>auto simp: heap_inv_def blk_ok_def\<close>)
  then show ?thesis
    using assms(5) d m o1 Inl by (auto simp: markExecuted_def prog_simps split: sum.splits)
qed

lemma ordered_MarkExecuted:
  assumes "ordered (trace w)" and "heap_inv E w" and "b < fresh w"
    and "c \<in> {None, Some CellLastExecuted}"
    and "MarkExecuted E b g wall bf rs postRoot c w = (r, w')"
  shows "ordered (trace w')"
  using assms(5)
proof (cases rule: MarkExecuted_cases)
  case (run e w1)
  then show ?thesis
    using ordered_markExecuted [OF _ _ _ _ run(3)] assms by (auto simp: log_only_simps)
qed (use assms in \<open>simp add: log_only_simps\<close>)

lemma ordered_RestoreExecutionArtefacts:
  assumes "ordered (trace w)" and "heap_inv E w" and "b < fresh w"
    and "RestoreExecutionArtefacts E b w = (r, w')"
  shows "ordered (trace w')"
  using assms(4)
proof (cases rule: RestoreExecutionArtefacts_cases)
  case (run e rs)
  from run(3) show ?thesis
  proof (cases rule: markExecutedAfterDiskArtefacts_cases)
    case ok
    then show ?thesis using assms(1) by (simp add: ordered_executed_world)
  qed (use assms in \<open>auto simp: heap_inv_def blk_ok_def\<close>)
qed (use assms in auto)

lemma ordered_markSettled:
  assumes "ordered (trace w)" and "heap_inv E w" and "b < fresh w"
    and "c \<in> {None, Some CellLastSettled, Some CellBlackhole}" and "markSettled E b c w = (r, w')"
  shows "ordered (trace w')"
  using assms(5)
proof (cases rule: markSettled_cases)
  case closed
  then show ?thesis using assms(2,3) by (auto simp: heap_inv_def blk_ok_def Settled_def)
qed (use assms ordered_settled_world in auto)

lemma ordered_MarkSynchronous:
  assumes "ordered (trace w)" and "heap_inv E w" and "b < fresh w"
    and "MarkSynchronous E H b x w = (r, w')"
  shows "ordered (trace w')"
  using assms(4)
proof (cases rule: MarkSynchronous_cases)
  case (exec_err e err)
  then show ?thesis using ordered_markExecuted [OF assms(1) _ assms(2,3)] by blast
next
  case (run e w1)
  have w1: "heap_inv E w1" "fresh w1 = fresh w" "ordered (trace w1)"
    using heap_inv_markExecuted [OF assms(2,3) run(1)]
      ordered_markExecuted [OF assms(1) _ assms(2,3) run(1)] by auto
  have "execution (heap w1 b) \<noteq> None"
    using run(1) by (rule markExecuted_Inr) (simp add: executed_world_def)
  then have "heap_inv E (upd_blk b (\<lambda>k. k\<lparr>synchronous := True\<rparr>) w1)"
    using w1 by (intro heap_inv_upd) (auto simp: blk_ok_def)
  then show ?thesis using ordered_markSettled [OF _ _ _ _ run(2)] w1 assms(3) by simp
qed (use assms in simp)

lemma ordered_RestoreSettledBlock:
  assumes "ordered (trace w)" and "heap_inv E w" and "RestoreSettledBlock E ethB w = (r, w')"
  shows "ordered (trace w')"
proof -
  have N: "heap_inv E w1 \<and> ordered (trace w1) \<and> (\<forall>b. q = Inr b \<longrightarrow> b < fresh w1)"
    if "blocks_New E ethB None None w = (q, w1)" for q w1
    using that heap_inv_blocks_New [OF assms(2) _ _ that] blocks_New_Inr [OF that] assms(1)
    by (simp add: ptr_ok_def)
  from assms(3) show ?thesis
  proof (cases rule: RestoreSettledBlock_cases)
    case (new err)
    then show ?thesis using N by blast
  next
    case (restore b w1 err)
    then show ?thesis using N [OF restore(1)] ordered_RestoreExecutionArtefacts by blast
  next
    case (settle b w1 w2 r2)
    have w1: "heap_inv E w1" "b < fresh w1" "ordered (trace w1)" using N [OF settle(1)] by auto
    then have "heap_inv E w2" "b < fresh w2" "ordered (trace w2)"
      using heap_inv_RestoreExecutionArtefacts [OF w1(1,2) settle(2)]
        ordered_RestoreExecutionArtefacts [OF w1(3,1,2) settle(2)]
        fresh_RestoreExecutionArtefacts [OF settle(2) w1(1,2)] by auto
    then show ?thesis using ordered_markSettled [OF _ _ _ _ settle(3)] by simp
  qed
qed

section \<open>Any sequence of operations\<close>

text \<open>
  One call of an exported operation of package \<^verbatim>\<open>blocks\<close>, with any outcome, under the
  preconditions its documentation states: pointers are to constructed blocks, ancestors are
  not set on a settled block, execution is announced through the last-executed pointer and
  settlement through a last-settled one.
\<close>

inductive block_step :: "('kv, 'x, 'e) env_scheme \<Rightarrow> ('db, 'a) points_scheme
    \<Rightarrow> ('kv, 'x, 'z) world_scheme \<Rightarrow> ('kv, 'x, 'z) world_scheme \<Rightarrow> bool"
  for E H where
  step_New: "\<lbrakk>ptr_ok w parent; ptr_ok w ls; blocks_New E ethB parent ls w = (r, w')\<rbrakk>
    \<Longrightarrow> block_step E H w w'"
| step_SetAncestors: "\<lbrakk>ptr_ok w parent; ptr_ok w ls; b < fresh w; \<not> settled_closed (heap w b);
    SetAncestors E b parent ls w = (r, w')\<rbrakk> \<Longrightarrow> block_step E H w w'"
| step_CopyAncestorsFrom: "\<lbrakk>b < fresh w; c < fresh w; \<not> settled_closed (heap w b);
    CopyAncestorsFrom E b c w = (r, w')\<rbrakk> \<Longrightarrow> block_step E H w w'"
| step_MarkExecuted: "\<lbrakk>b < fresh w; c \<in> {None, Some CellLastExecuted};
    MarkExecuted E b g wall bf rs postRoot c w = (r, w')\<rbrakk> \<Longrightarrow> block_step E H w w'"
| step_MarkSettled: "\<lbrakk>b < fresh w; c \<in> {None, Some CellLastSettled, Some CellBlackhole};
    MarkSettled E b c w = (r, w')\<rbrakk> \<Longrightarrow> block_step E H w w'"
| step_MarkSynchronous: "\<lbrakk>b < fresh w; MarkSynchronous E H b x w = (r, w')\<rbrakk> \<Longrightarrow> block_step E H w w'"
| step_RestoreExecutionArtefacts: "\<lbrakk>b < fresh w; RestoreExecutionArtefacts E b w = (r, w')\<rbrakk>
    \<Longrightarrow> block_step E H w w'"
| step_RestoreSettledBlock: "RestoreSettledBlock E ethB w = (r, w') \<Longrightarrow> block_step E H w w'"
| step_SetInterimExecutionTime: "\<lbrakk>b < fresh w; SetInterimExecutionTime b t w = (r, w')\<rbrakk>
    \<Longrightarrow> block_step E H w w'"
| step_SetWorstCaseBounds: "\<lbrakk>b < fresh w; SetWorstCaseBounds b lims w = (r, w')\<rbrakk>
    \<Longrightarrow> block_step E H w w'"

lemma MarkSettled_run:
  "MarkSettled E b c w = (r, w') \<Longrightarrow> w' = w \<or> markSettled E b c w = (r, w')"
  by (auto simp: MarkSettled_def prog_simps split: if_splits)

lemma CopyAncestorsFrom_run:
  assumes "CopyAncestorsFrom E b c w = (r, w')"
  shows "w' = w \<or> (\<exists>a. ancestry (heap w c) = Some a
    \<and> SetAncestors E b (anc_parent a) (anc_lastSettled a) w = (r, w'))"
  using assms by (auto simp: CopyAncestorsFrom_def prog_simps split: if_splits option.splits)

lemma link_ok_ptrs:
  "heap_inv E w \<Longrightarrow> c < fresh w \<Longrightarrow> ancestry (heap w c) = Some a
    \<Longrightarrow> ptr_ok w (anc_parent a) \<and> ptr_ok w (anc_lastSettled a)"
  by (auto simp: heap_inv_def link_ok_def split: option.splits)

lemma block_step_inv:
  assumes "block_step E H w w'" and "heap_inv E w" and "ordered (trace w)"
  shows "heap_inv E w' \<and> ordered (trace w')"
  using assms
proof (induction rule: block_step.induct)
  case (step_New w parent ls ethB r w')
  then show ?case using heap_inv_blocks_New blocks_New_Inr by metis
next
  case (step_SetAncestors w parent ls b r w')
  then show ?case
    using heap_inv_SetAncestors [OF _ _ _ _ step_SetAncestors(5)] fresh_SetAncestors by metis
next
  case (step_CopyAncestorsFrom b w c r w')
  from CopyAncestorsFrom_run [OF step_CopyAncestorsFrom(4)] show ?case
  proof (elim disjE exE conjE)
    fix a assume "ancestry (heap w c) = Some a"
      and s: "SetAncestors E b (anc_parent a) (anc_lastSettled a) w = (r, w')"
    then show ?thesis
      using heap_inv_SetAncestors [OF _ _ _ _ s] fresh_SetAncestors [OF s] link_ok_ptrs
        step_CopyAncestorsFrom by metis
  qed (use step_CopyAncestorsFrom in simp)
next
  case (step_MarkExecuted b w c g wall bf rs postRoot r w')
  then show ?case using heap_inv_MarkExecuted ordered_MarkExecuted by metis
next
  case (step_MarkSettled b w c r w')
  then show ?case using MarkSettled_run heap_inv_markSettled ordered_markSettled by metis
next
  case (step_MarkSynchronous b w x r w')
  then show ?case using heap_inv_MarkSynchronous ordered_MarkSynchronous by blast
next
  case (step_RestoreExecutionArtefacts b w r w')
  then show ?case using heap_inv_RestoreExecutionArtefacts ordered_RestoreExecutionArtefacts by blast
next
  case (step_RestoreSettledBlock ethB w r w')
  then show ?case using heap_inv_RestoreSettledBlock ordered_RestoreSettledBlock by blast
next
  case (step_SetInterimExecutionTime b w t r w')
  then show ?case
    by (auto simp: SetInterimExecutionTime_def prog_simps blk_ok_def intro!: heap_inv_upd)
next
  case (step_SetWorstCaseBounds b w lims r w')
  then show ?case
    by (auto simp: SetWorstCaseBounds_def prog_simps blk_ok_def intro!: heap_inv_upd)
qed

definition init_world :: "(ptr \<Rightarrow> blk) \<Rightarrow> 'kv \<Rightarrow> 'x \<Rightarrow> ('kv, 'x) world" where
  "init_world memory kv x = \<lparr>heap = memory, fresh = 0, inMemoryBlockCount = 0, kvdb = kv, xdb = x,
     cells = (\<lambda>_. None), trace = []\<rparr>"

lemma block_steps_inv:
  assumes "(block_step E H)\<^sup>*\<^sup>* w w'" and "heap_inv E w" and "ordered (trace w)"
  shows "heap_inv E w' \<and> ordered (trace w')"
  using assms by (induction rule: rtranclp_induct) (auto dest: block_step_inv)


definition sample_eth :: "nat \<Rightarrow> eth_block" where
  "sample_eth n = \<lparr>eb_header = sample_header\<lparr>Number := int n, ParentHash := n, hdr_extra := n + 1\<rparr>,
     eb_txs = []\<rparr>"

definition sample_world0 :: "(db_write list, (u64 \<times> encoding) list) world" where
  "sample_world0 = init_world (\<lambda>_. zero_blk (sample_eth 0)) [] []"

definition sample_world1 :: "(db_write list, (u64 \<times> encoding) list) world" where
  "sample_world1 = snd (blocks_New sample_env (Some (sample_eth 0)) None None sample_world0)"

definition sample_world2 :: "(db_write list, (u64 \<times> encoding) list) world" where
  "sample_world2 = snd (blocks_New sample_env (Some (sample_eth 1)) (Some 0) (Some 0) sample_world1)"

definition sample_world3 :: "(db_write list, (u64 \<times> encoding) list) world" where
  "sample_world3 = snd (MarkExecuted sample_env 1 sample_gtime 7 (Some 3) [] 9 (Some CellLastExecuted)
     sample_world2)"

lemmas sample_world_defs = sample_world0_def sample_world1_def sample_world2_def sample_world3_def
  init_world_def sample_env_def sample_eth_def

lemma sample_steps: "(block_step sample_env sample_points)\<^sup>*\<^sup>* sample_world0 sample_world3"
proof -
  have "block_step sample_env sample_points sample_world0 sample_world1"
    unfolding sample_world1_def
    by (rule step_New [OF _ _ prod.collapse [symmetric]]) (simp_all add: ptr_ok_def)
  moreover have "block_step sample_env sample_points sample_world1 sample_world2"
    unfolding sample_world2_def
    by (rule step_New [OF _ _ prod.collapse [symmetric]]) code_simp+
  moreover have "block_step sample_env sample_points sample_world2 sample_world3"
    unfolding sample_world3_def
    by (rule step_MarkExecuted [OF _ _ prod.collapse [symmetric]]) code_simp+
  ultimately show ?thesis by (meson r_into_rtranclp rtranclp_trans)
qed


section \<open>What marking does\<close>

lemma markExecuted_error:
  assumes "heap_inv E w" and "b < fresh w" and "markExecuted E b batch e setHd c w = (Inl err, w')"
  shows "heap w' = heap w \<and> cells w' = cells w"
proof -
  obtain r1 w1 where d: "markExecutedOnDisk E b batch e setHd w = (r1, w1)" by fastforce
  have w1: "heap w1 = heap w" "cells w1 = cells w"
    using d by (cases rule: markExecutedOnDisk_cases; simp)+
  obtain r2 w2 where m: "markExecutedAfterDiskArtefacts E b e c w1 = (r2, w2)" by fastforce
  have "heap w2 = heap w1 \<and> cells w2 = cells w1" if "r2 = Inl err2" for err2
    using m by (cases rule: markExecutedAfterDiskArtefacts_cases)
      (use that assms w1 in \<open>auto simp: heap_inv_def blk_ok_def\<close>)
  then show ?thesis
    using assms(3) d m w1 by (auto simp: markExecuted_def prog_simps split: sum.splits)
qed

lemma MarkExecuted_error:
  assumes "heap_inv E w" and "b < fresh w"
    and "MarkExecuted E b g wall bf rs postRoot c w = (Inl err, w')"
  shows "heap w' = heap w \<and> cells w' = cells w"
  using assms(3)
proof (cases rule: MarkExecuted_cases)
  case (run e w1)
  then show ?thesis using markExecuted_error [OF _ _ run(3)] assms by (simp add: log_only_simps)
qed (simp add: log_only_simps)

lemma gastime_Clone_id [simp]: "gastime_Clone g = g"
  by (simp add: gastime_Clone_def proxytime_Clone_def)

lemma setBaseFee_fields:
  assumes "setBaseFee bf e = Inr e'"
  shows "byGas e' = byGas e" "byWall e' = byWall e" "er_receipts e' = er_receipts e"
    "stateRootPost e' = stateRootPost e" "receiptRoot e' = receiptRoot e"
  using assms
  by (auto simp: setBaseFee_def split: option.splits if_splits prod.splits)

text \<open>C19: \<open>MarkExecuted\<close> either succeeds, on a block that was not executed, and then every reader
  of the execution artefacts returns exactly the values passed, waiters are released, the
  last-executed pointer is the block and no other block changed; or it fails and leaves all
  in-memory indicators as they were. A block already executed is never overwritten.\<close>

theorem MarkExecuted_spec:
  assumes "heap_inv E w" and "b < fresh w"
  shows "case MarkExecuted E b g wall bf rs postRoot c w of
      (Inl err, w') \<Rightarrow> heap w' = heap w \<and> cells w' = cells w
    | (Inr _, w') \<Rightarrow> \<not> Executed w b \<and> Executed w' b
        \<and> ExecutedByGasTime w' b = Inr g \<and> ExecutedByWallTime w' b = Inr wall
        \<and> Receipts w' b = Inr rs \<and> PostExecutionStateRoot w' b = Inr postRoot
        \<and> (\<forall>fee. bf = Some fee \<longrightarrow> 0 \<le> fee \<longrightarrow> map_sum id uint (ExecutedBaseFee w' b) = Inr fee)
        \<and> WaitUntilExecuted w' b False = [None]
        \<and> cells w' = (case c of None \<Rightarrow> cells w | Some p \<Rightarrow> (cells w)(p := Some b))
        \<and> (\<forall>b'. b' \<noteq> b \<longrightarrow> heap w' b' = heap w b')"
proof -
  obtain r w' where run: "MarkExecuted E b g wall bf rs postRoot c w = (r, w')" by fastforce
  show ?thesis
  proof (cases r)
    case (Inr u)
    from run obtain e w1 where e: "setBaseFee bf (results_of E g wall rs postRoot) = Inr e"
      and lo: "log_only w w1"
      and m: "markExecuted E b [WriteReceipts (Hash E w b) (NumberU64 w b) rs] e True c w1 = (Inr u, w')"
      using Inr by (cases rule: MarkExecuted_cases) auto
    have f: "byGas e = g" "byWall e = wall" "er_receipts e = rs" "stateRootPost e = postRoot"
      by (simp_all add: setBaseFee_fields [OF e] results_of_def)
    have fee: "uint (er_baseFee e) = v" if "bf = Some v" "0 \<le> v" for v
      using e that uint_SetFromBig [of v]
      by (auto simp: setBaseFee_def split: prod.splits if_splits)
    from m show ?thesis
      by (rule markExecuted_Inr)
        (use run Inr f fee in \<open>auto simp: executed_world_def Executed_def executionArtefact_def
          ExecutedByGasTime_def ExecutedByWallTime_def Receipts_def PostExecutionStateRoot_def
          ExecutedBaseFee_def WaitUntilExecuted_def log_only_simps [OF lo]
          split: option.splits\<close>)
  next
    case (Inl err)
    have "heap w' = heap w \<and> cells w' = cells w" by (rule MarkExecuted_error [OF assms run [unfolded Inl]])
    then show ?thesis using run Inl by simp
  qed
qed

lemma sample_world2_inv: "heap_inv sample_env sample_world2" "1 < fresh sample_world2"
proof -
  have "heap_inv sample_env sample_world0"
    by (simp add: sample_world0_def init_world_def heap_inv_def)
  then have 1: "heap_inv sample_env sample_world1"
    unfolding sample_world1_def
    by (rule heap_inv_blocks_New [OF _ _ _ prod.collapse [symmetric]]) (simp_all add: ptr_ok_def)
  then show "heap_inv sample_env sample_world2"
    unfolding sample_world2_def
    by (rule heap_inv_blocks_New [OF _ _ _ prod.collapse [symmetric]]) code_simp+
  show "1 < fresh sample_world2" by code_simp
qed

theorem MarkExecuted_spec_witness:
  "\<not> Executed sample_world2 1 \<and> ExecutedByGasTime sample_world3 1 = Inr sample_gtime
   \<and> PostExecutionStateRoot sample_world3 1 = Inr 9
   \<and> map_sum id uint (ExecutedBaseFee sample_world3 1) = Inr 3
   \<and> cells sample_world3 CellLastExecuted = Some 1"
proof -
  have "MarkExecuted sample_env 1 sample_gtime 7 (Some 3) [] 9 (Some CellLastExecuted) sample_world2
    = (Inr (), sample_world3)"
    unfolding sample_world3_def by (rule prod_eqI) (simp, code_simp, simp)
  then show ?thesis
    using MarkExecuted_spec [OF sample_world2_inv, where g = sample_gtime and wall = 7
        and bf = "Some 3" and rs = "[]" and postRoot = 9 and c = "Some CellLastExecuted"]
    by simp
qed

lemma MarkExecuted_persists:
  assumes "xdb_laws E" and "canoto_laws E"
    and "MarkExecuted E b g wall bf rs postRoot c w = (Inr u, w')"
    and "DeriveSha E rs < 2 ^ 256" and "postRoot < 2 ^ 256"
  obtains e where "setBaseFee bf (results_of E g wall rs postRoot) = Inr e"
    and "execution (heap w' b) = Some e" and "executed_closed (heap w' b)"
    and "loadExecutionResults E (xdb w') (NumberU64 w b) = Inr (without_ephemeral e)"
  using assms(3)
proof (cases rule: MarkExecuted_cases)
  case (run e w1)
  note lo = log_only_simps [OF run(2)]
  from run(3) show thesis
  proof (rule markExecuted_Inr)
    fix x1 x kv
    assume put: "xdb_Put E (NumberU64 w1 b) (MarshalCanoto E e) (xdb w1) = (None, x1)"
      and sync: "xdb_Sync E (NumberU64 w1 b) (NumberU64 w1 b) x1 = (None, x)"
      and w': "w' = executed_world E b e c (w1\<lparr>xdb := x, kvdb := kv, trace :=
        EvBatch (head_batch E w1 b [WriteReceipts (Hash E w b) (NumberU64 w b) rs] True)
          # EvSync (NumberU64 w1 b) (NumberU64 w1 b) # EvPut (NumberU64 w1 b) # trace w1\<rparr>)"
    have "xdb_Get E x (NumberU64 w b) = Inr (MarshalCanoto E e)"
      using assms(1) put sync unfolding xdb_laws_def lo by metis
    then have "loadExecutionResults E (xdb w') (NumberU64 w b) = Inr (without_ephemeral e)"
      using assms(2,4,5) setBaseFee_fields [OF run(1)]
      by (simp add: w' executed_world_def loadExecutionResults_def canoto_laws_def results_of_def)
    then show thesis
      by (intro that [OF run(1)]) (simp_all add: w' executed_world_def)
  qed
qed simp


lemma zero_blk_fields: "eth (zero_blk e) = e" "execution (zero_blk e) = None"
  "\<not> executed_closed (zero_blk e)"
  by (simp_all add: zero_blk_def)


text \<open>C20: A block is settled once. The first \<open>MarkSettled\<close> severs the ancestry, stores the
  last-settled pointer and releases waiters; a later call reports \<^verbatim>\<open>errBlockResettled\<close>, and a
  racing call that had already loaded the ancestry loses the compare-and-swap with
  \<^verbatim>\<open>errBlockAncestryChanged\<close>, both without touching any block or pointer.\<close>

theorem MarkSettled_once:
  assumes "heap_inv E w" and "b < fresh w" and "ancestry (heap w b) = Some a"
  shows "\<exists>w1. MarkSettled E b (Some c) w = (Inr (), w1)
    \<and> Settled w1 b \<and> ParentBlock w1 b = None
    \<and> cells w1 = (cells w)(c := Some b) \<and> WaitUntilSettled w1 b False = [None]
    \<and> (\<forall>b'. b' \<noteq> b \<longrightarrow> heap w1 b' = heap w b')
    \<and> (case MarkSettled E b (Some c') w1 of (r, w2) \<Rightarrow>
         r = Inl (Wrap [ErrBlockResettled]) \<and> heap w2 = heap w1 \<and> cells w2 = cells w1)
    \<and> (case markSettled_swap E b (Some c') a w1 of (r, w2) \<Rightarrow>
         r = Inl ErrBlockAncestryChanged \<and> heap w2 = heap w1 \<and> cells w2 = cells w1)"
proof -
  have "\<not> settled_closed (heap w b)" using assms by (auto simp: heap_inv_def blk_ok_def)
  then have "MarkSettled E b (Some c) w = (Inr (), settled_world E b (Some c) w)"
    using assms(3)
    by (simp add: MarkSettled_def markSettled_def markSettled_swap_def prog_simps settled_world_def
        announce_def)
  moreover have "ancestry (heap (settled_world E b (Some c) w) b) = None"
    "heap (settled_world E b (Some c) w) =
       (heap w)(b := (heap w b)\<lparr>ancestry := None, settled_closed := True\<rparr>)"
    "cells (settled_world E b (Some c) w) = (cells w)(c := Some b)"
    by (simp_all add: settled_world_def)
  ultimately show ?thesis
    by (simp add: MarkSettled_def markSettled_def markSettled_swap_def prog_simps Settled_def
        ParentBlock_def ancestor_def WaitUntilSettled_def)
qed

theorem MarkSettled_once_witness:
  "\<exists>w1. MarkSettled sample_env 1 (Some CellLastSettled) sample_world2 = (Inr (), w1)
    \<and> Settled w1 1 \<and> cells w1 CellLastSettled = Some 1"
proof -
  have "ancestry (heap sample_world2 1) = Some \<lparr>anc_parent = Some 0, anc_lastSettled = Some 0\<rparr>"
    by code_simp
  from MarkSettled_once [OF sample_world2_inv this, of CellLastSettled CellBlackhole]
  show ?thesis by auto
qed

end
