(* ===== verification/Settlement.thy ===== *)
theory Settlement
  imports Lifecycle
begin

text \<open>
  The walks over the ancestry of a block (\<^verbatim>\<open>src/blocks/settlement.go\<close>): \<open>Range\<close>, \<open>Settles\<close> and
  \<open>LastToSettleAt\<close>. \<open>walk w k b\<close> follows \<open>k\<close> parent pointers and \<open>path\<close> lists the blocks passed;
  the loops of the code are shown to be these, to end, and to return what the protocol
  asks for.
\<close>

section \<open>Walking up the chain\<close>

fun walk :: "('kv, 'x, 'z) world_scheme \<Rightarrow> nat \<Rightarrow> ptr \<Rightarrow> ptr option" where
  "walk w 0 b = Some b"
| "walk w (Suc k) b = (case ParentBlock w b of None \<Rightarrow> None | Some p \<Rightarrow> walk w k p)"

fun path :: "('kv, 'x, 'z) world_scheme \<Rightarrow> nat \<Rightarrow> ptr \<Rightarrow> ptr list" where
  "path w 0 b = []"
| "path w (Suc k) b = b # (case ParentBlock w b of None \<Rightarrow> [] | Some p \<Rightarrow> path w k p)"

lemma walk_add: "walk w j b = Some c \<Longrightarrow> walk w (j + k) b = walk w k c"
  by (induction j arbitrary: b) (auto split: option.splits)

lemma path_add: "walk w j b = Some c \<Longrightarrow> path w (j + k) b = path w j b @ path w k c"
  by (induction j arbitrary: b) (auto split: option.splits)

lemma length_path: "walk w k b = Some s \<Longrightarrow> length (path w k b) = k"
  by (induction k arbitrary: b) (auto split: option.splits)

lemma ParentBlock_inv:
  assumes "heap_inv E w" and "b < fresh w" and "ParentBlock w b = Some p"
  shows "p < fresh w" and "Block_Number w p = Block_Number w b - 1"
    and "Hash E w p = Block_ParentHash w b"
proof -
  obtain a where a: "ancestry (heap w b) = Some a" "anc_parent a = Some p"
    using assms(3) by (auto simp: ParentBlock_def ancestor_def split: option.splits)
  have "link_ok E w b" using assms(1,2) by (simp add: heap_inv_def)
  then have "p < fresh w \<and> SetAncestors_check E b (Some p) w = None"
    by (simp add: link_ok_def a ptr_ok_def)
  then show "p < fresh w" and "Block_Number w p = Block_Number w b - 1"
    and "Hash E w p = Block_ParentHash w b"
    by (simp_all add: SetAncestors_check_def split: if_splits)
qed

lemma walk_inv:
  assumes "heap_inv E w" and "b < fresh w" and "walk w k b = Some s"
  shows "s < fresh w \<and> Block_Number w s = Block_Number w b - int k"
  using assms(2,3)
proof (induction k arbitrary: b)
  case (Suc k)
  then obtain p where p: "ParentBlock w b = Some p" "walk w k p = Some s" by (auto split: option.splits)
  then show ?case using Suc.IH [OF _ p(2)] ParentBlock_inv [OF assms(1) Suc.prems(1) p(1)] by simp
qed simp

lemma path_numbers:
  assumes "heap_inv E w" and "b < fresh w" and "walk w k b = Some s"
  shows "map (Block_Number w) (path w k b) = map (\<lambda>i. Block_Number w b - int i) [0..<k]"
  using assms(2,3)
proof (induction k arbitrary: b)
  case (Suc k)
  then obtain p where p: "ParentBlock w b = Some p" "walk w k p = Some s" by (auto split: option.splits)
  have "map (Block_Number w) (path w k p) = map (\<lambda>i. Block_Number w b - int (Suc i)) [0..<k]"
    using Suc.IH [OF _ p(2)] ParentBlock_inv [OF assms(1) Suc.prems(1) p(1)] by simp
  then show ?case using p by (simp add: map_upt_Suc del: upt_Suc)
qed simp

lemma distinct_path:
  assumes "heap_inv E w" and "b < fresh w" and "walk w k b = Some s"
  shows "distinct (path w k b)"
proof -
  have "distinct (map (Block_Number w) (path w k b))"
    unfolding path_numbers [OF assms] by (simp add: distinct_map inj_on_def)
  then show ?thesis by (simp add: distinct_map)
qed

section \<open>Ranges\<close>

lemma Range_loop_path:
  "walk w k b = Some s \<Longrightarrow> Range_loop w k (Some b) = Inr (path w k b)"
proof (induction k arbitrary: b)
  case (Suc k)
  then obtain p where p: "ParentBlock w b = Some p" "walk w k p = Some s"
    by (auto split: option.splits)
  then show ?case using Suc.IH [OF p(2)] by (simp add: deref_def)
qed simp

definition u64_number :: "('kv, 'x, 'z) world_scheme \<Rightarrow> ptr \<Rightarrow> bool" where
  "u64_number w b \<longleftrightarrow> 0 \<le> Block_Number w b \<and> Block_Number w b < 2 ^ 64"

lemma unat_Height: "u64_number w b \<Longrightarrow> unat (Height w b) = nat (Block_Number w b)"
  by (simp add: u64_number_def Height_def NumberU64_def unat_word_of_int_u64)

lemma Range_path:
  assumes inv: "heap_inv E w" "e < fresh w" and walk: "walk w k e = Some s"
    and num: "u64_number w s" "u64_number w e"
  shows "Range w (Some s) (Some e) = Inr (rev (path w k e))"
proof -
  have "Block_Number w e = Block_Number w s + int k" using walk_inv [OF inv walk] by simp
  then have h: "unat (Height w e) = unat (Height w s) + k"
    using num by (simp add: unat_Height u64_number_def nat_add_distrib)
  show ?thesis
  proof (cases "k = 0")
    case True
    then show ?thesis using h by (simp add: Range_def deref_def u64_nat)
  next
    case False
    then have "unat (Height w e - Height w s) = k" "\<not> Height w e \<le> Height w s"
      using h by (simp_all add: unat_sub_u64 u64_le_iff)
    then show ?thesis by (simp add: Range_def deref_def Range_loop_path [OF walk])
  qed
qed

text \<open>Consecutive elements of a range are parent and child.\<close>

lemma path_links:
  "walk w k b = Some s \<Longrightarrow> Suc i < k \<Longrightarrow> ParentBlock w (path w k b ! i) = Some (path w k b ! Suc i)"
proof (induction k arbitrary: b i)
  case (Suc k)
  then obtain p where p: "ParentBlock w b = Some p" "walk w k p = Some s" by (auto split: option.splits)
  then obtain k' where k: "k = Suc k'" using Suc.prems by (cases k) auto
  show ?case using Suc.IH [OF p(2)] Suc.prems p k by (cases i) auto
qed simp

lemma path_last: "walk w (Suc k) b = Some s \<Longrightarrow> ParentBlock w (path w (Suc k) b ! k) = Some s"
proof (induction k arbitrary: b)
  case (Suc k)
  then obtain p where p: "ParentBlock w b = Some p" "walk w (Suc k) p = Some s"
    by (auto split: option.splits)
  then show ?case using Suc.IH [OF p(2)] by simp
qed (simp split: option.splits)

text \<open>When \<open>start\<close> is reached from \<open>end\<close> by \<open>k\<close> parent pointers, \<open>Range\<close> returns the \<open>k\<close> distinct
  blocks of the half-open interval (start, end] in order of height, linked by their parent
  pointers; it is empty exactly when the two are the same block.\<close>

theorem Range_spec:
  assumes "heap_inv E w" and "e < fresh w" and "walk w k e = Some s"
    and "u64_number w s" and "u64_number w e"
  shows "\<exists>bs. Range w (Some s) (Some e) = Inr bs \<and> length bs = k \<and> distinct bs
    \<and> map (Block_Number w) bs = map (\<lambda>i. Block_Number w s + 1 + int i) [0..<k]
    \<and> (\<forall>i. Suc i < k \<longrightarrow> ParentBlock w (bs ! Suc i) = Some (bs ! i))
    \<and> (bs = [] \<longleftrightarrow> s = e) \<and> (bs \<noteq> [] \<longrightarrow> last bs = e \<and> ParentBlock w (hd bs) = Some s)"
proof (intro exI conjI)
  let ?p = "path w k e"
  show "Range w (Some s) (Some e) = Inr (rev ?p)" by (rule Range_path [OF assms])
  show len: "length (rev ?p) = k" by (simp add: length_path [OF assms(3)])
  show "distinct (rev ?p)" using distinct_path [OF assms(1-3)] by simp
  have n: "Block_Number w e = Block_Number w s + int k" using walk_inv [OF assms(1-3)] by simp
  show "map (Block_Number w) (rev ?p) = map (\<lambda>i. Block_Number w s + 1 + int i) [0..<k]"
    by (rule nth_equalityI)
      (simp_all add: rev_map [symmetric] path_numbers [OF assms(1-3)] rev_nth n of_nat_diff)
  show "\<forall>i. Suc i < k \<longrightarrow> ParentBlock w (rev ?p ! Suc i) = Some (rev ?p ! i)"
  proof (intro allI impI)
    fix i assume "Suc i < k"
    then show "ParentBlock w (rev ?p ! Suc i) = Some (rev ?p ! i)"
      using path_links [OF assms(3), of "k - Suc (Suc i)"] len
      by (simp add: rev_nth Suc_diff_Suc)
  qed
  show "(rev ?p = []) = (s = e)"
    using assms(3) n by (cases k) auto
  show "rev ?p \<noteq> [] \<longrightarrow> last (rev ?p) = e \<and> ParentBlock w (hd (rev ?p)) = Some s"
  proof
    assume "rev ?p \<noteq> []"
    then obtain j where "k = Suc j" by (cases k) auto
    moreover from \<open>rev ?p \<noteq> []\<close> have "?p \<noteq> []" by simp
    ultimately have "hd (rev ?p) = ?p ! j" using len
      by (metis diff_Suc_1 hd_rev last_conv_nth length_rev)
    then show "last (rev ?p) = e \<and> ParentBlock w (hd (rev ?p)) = Some s"
      using path_last [of w j e s] assms(3) \<open>k = Suc j\<close> by simp
  qed
qed

theorem Range_spec_witness:
  "\<exists>bs. Range sample_world2 (Some 0) (Some 1) = Inr bs \<and> length bs = 1 \<and> distinct bs"
proof -
  have "walk sample_world2 1 1 = Some 0" "u64_number sample_world2 0" "u64_number sample_world2 1"
    by code_simp+
  from Range_spec [OF sample_world2_inv this] show ?thesis by blast
qed

text \<open>C21: The blocks settled by a block and by its parent are disjoint, and together they are the
  contiguous range from what the grandparent had settled: no block is settled twice and none
  is skipped along the chain.\<close>

theorem Settles_partition:
  assumes "heap_inv E w" and "b < fresh w" and "\<not> synchronous (heap w b)" and "\<not> synchronous (heap w p)"
    and "ParentBlock w b = Some p" and "ParentBlock w p = Some q"
    and "LastSettled w q = Some s0" and "LastSettled w p = Some s1" and "LastSettled w b = Some s2"
    and "s2 < fresh w" and "walk w i s2 = Some s1" and "walk w j s1 = Some s0"
    and "u64_number w s0" and "u64_number w s2"
  shows "\<exists>xs ys. Settles w p = Inr xs \<and> Settles w b = Inr ys
    \<and> set xs \<inter> set ys = {} \<and> Range w (Some s0) (Some s2) = Inr (xs @ ys)"
proof -
  have s1: "s1 < fresh w" "u64_number w s1"
    using walk_inv [OF assms(1,10,11)] walk_inv [OF assms(1) _ assms(12)] assms(13,14)
    by (auto simp: u64_number_def)
  have w2: "walk w (i + j) s2 = Some s0" using walk_add [OF assms(11)] assms(12) by simp
  have "Settles w p = Inr (rev (path w j s1))"
    using Range_path [OF assms(1) s1(1) assms(12,13) s1(2)] assms by (simp add: Settles_def deref_def)
  moreover have "Settles w b = Inr (rev (path w i s2))"
    using Range_path [OF assms(1,10,11) s1(2) assms(14)] assms by (simp add: Settles_def deref_def)
  moreover have "Range w (Some s0) (Some s2) = Inr (rev (path w j s1) @ rev (path w i s2))"
    using Range_path [OF assms(1,10) w2 assms(13,14)] by (simp add: path_add [OF assms(11)])
  moreover have "distinct (path w i s2 @ path w j s1)"
    using distinct_path [OF assms(1,10) w2] by (simp add: path_add [OF assms(11)])
  ultimately show ?thesis by auto
qed

definition sample_world4 :: "(db_write list, (u64 \<times> encoding) list) world" where
  "sample_world4 = snd (blocks_New sample_env (Some (sample_eth 2)) (Some 1) (Some 1) sample_world2)"

definition sample_world5 :: "(db_write list, (u64 \<times> encoding) list) world" where
  "sample_world5 = snd (blocks_New sample_env (Some (sample_eth 3)) (Some 2) (Some 2) sample_world4)"

lemma sample_world5_inv: "heap_inv sample_env sample_world5"
proof -
  have "heap_inv sample_env sample_world4"
    unfolding sample_world4_def
    by (rule heap_inv_blocks_New [OF sample_world2_inv(1) _ _ prod.collapse [symmetric]]) code_simp+
  then show ?thesis
    unfolding sample_world5_def
    by (rule heap_inv_blocks_New [OF _ _ _ prod.collapse [symmetric]]) code_simp+
qed

theorem Settles_partition_witness:
  "\<exists>xs ys. Settles sample_world5 2 = Inr xs \<and> Settles sample_world5 3 = Inr ys
    \<and> set xs \<inter> set ys = {} \<and> Range sample_world5 (Some 0) (Some 2) = Inr (xs @ ys)"
  by (rule Settles_partition [OF sample_world5_inv, where q = 1 and ?s0.0 = 0 and ?s1.0 = 1 and ?s2.0 = 2
        and i = 1 and j = 1]) code_simp+

section \<open>The last block to settle\<close>

text \<open>
  \<open>late\<close>: the block is known not to have finished execution by the given time. \<open>finished\<close>: it is
  settled already, or executed and not late. A block that is neither has an unknown end time.
\<close>

definition late :: "('db, 'a) points_scheme \<Rightarrow> ('kv, 'x, 'z) world_scheme \<Rightarrow> gotime \<Rightarrow> ptime \<Rightarrow> ptr \<Rightarrow> bool" where
  "late H w settleAt tm b \<longleftrightarrow> PreciseTime H (Header w b) > settleAt
     \<or> (case interimExecutionTime (heap w b) of None \<Rightarrow> False | Some t \<Rightarrow> proxytime_Compare t tm > 0)
     \<or> (case execution (heap w b) of None \<Rightarrow> False
        | Some e \<Rightarrow> proxytime_Compare (gt_time (byGas e)) tm > 0)"

definition finished :: "('db, 'a) points_scheme \<Rightarrow> ('kv, 'x, 'z) world_scheme \<Rightarrow> gotime \<Rightarrow> ptime \<Rightarrow> ptr \<Rightarrow> bool" where
  "finished H w settleAt tm b \<longleftrightarrow> Settled w b \<or> Executed w b \<and> \<not> late H w settleAt tm b"

lemma LastToSettleAt_loop_step:
  "LastToSettleAt_loop H w settleAt tm known (Some b) =
     (if finished H w settleAt tm b then Some (Inr (b, known))
      else LastToSettleAt_loop H w settleAt tm (late H w settleAt tm b) (ParentBlock w b))"
proof -
  define early where "early \<longleftrightarrow> PreciseTime H (Header w b) > settleAt
    \<or> (case interimExecutionTime (heap w b) of None \<Rightarrow> False | Some t \<Rightarrow> proxytime_Compare t tm > 0)"
  have late: "late H w settleAt tm b \<longleftrightarrow> early \<or> (case execution (heap w b) of None \<Rightarrow> False
      | Some e \<Rightarrow> proxytime_Compare (gt_time (byGas e)) tm > 0)"
    by (simp add: late_def early_def)
  note step = LastToSettleAt_loop.simps [of H w settleAt tm known "Some b"]
  show ?thesis
  proof (cases "Settled w b")
    case True
    then show ?thesis by (simp add: step finished_def)
  next
    case False
    then show ?thesis
      by (cases early; cases "execution (heap w b)")
        (auto simp: step finished_def Executed_def late early_def)
  qed
qed

text \<open>Block numbers fall along parent pointers, so a walk visits each block at most once.\<close>

definition below :: "('kv, 'x, 'z) world_scheme \<Rightarrow> ptr \<Rightarrow> nat" where
  "below w b = card {c. c < fresh w \<and> Block_Number w c < Block_Number w b}"

lemma below_parent:
  assumes "heap_inv E w" and "b < fresh w" and "ParentBlock w b = Some p"
  shows "below w p < below w b"
proof -
  note p = ParentBlock_inv [OF assms]
  let ?S = "\<lambda>d. {c. c < fresh w \<and> Block_Number w c < Block_Number w d}"
  have "finite (?S b)" by simp
  moreover have "?S p \<subseteq> ?S b" using p(2) by force
  moreover have "p \<in> ?S b" "p \<notin> ?S p" using p(1,2) by simp_all
  ultimately show ?thesis unfolding below_def by (metis psubsetI psubset_card_mono)
qed

definition complete_history :: "('kv, 'x, 'z) world_scheme \<Rightarrow> ptr \<Rightarrow> bool" where
  "complete_history w b \<longleftrightarrow> (\<forall>k c. walk w k b = Some c \<longrightarrow> \<not> Settled w c \<longrightarrow> ParentBlock w c \<noteq> None)"

lemma complete_history_parent:
  "complete_history w b \<Longrightarrow> ParentBlock w b = Some p \<Longrightarrow> complete_history w p"
  unfolding complete_history_def
proof (intro allI impI)
  fix k c assume "\<forall>k c. walk w k b = Some c \<longrightarrow> \<not> Settled w c \<longrightarrow> ParentBlock w c \<noteq> None"
    and "ParentBlock w b = Some p" and "walk w k p = Some c" and "\<not> Settled w c"
  moreover from this have "walk w (Suc k) b = Some c" by simp
  ultimately show "ParentBlock w c \<noteq> None" by blast
qed

lemma LastToSettleAt_loop_spec:
  assumes "heap_inv E w" and "b < fresh w" and "complete_history w b"
  shows "\<exists>k c. walk w k b = Some c \<and> finished H w settleAt tm c
    \<and> (\<forall>j<k. \<exists>d. walk w j b = Some d \<and> \<not> finished H w settleAt tm d)
    \<and> LastToSettleAt_loop H w settleAt tm known (Some b) = Some (Inr (c,
        if k = 0 then known else late H w settleAt tm (the (walk w (k - 1) b))))"
  using assms(2,3)
proof (induction "below w b" arbitrary: b known rule: less_induct)
  case less
  show ?case
  proof (cases "finished H w settleAt tm b")
    case True
    then show ?thesis
      by (intro exI [of _ 0] exI [of _ b]) (simp add: LastToSettleAt_loop_step)
  next
    case False
    then have "\<not> Settled w b" by (simp add: finished_def)
    moreover have "walk w 0 b = Some b" by simp
    ultimately obtain p where p: "ParentBlock w b = Some p"
      using less.prems(2) unfolding complete_history_def by blast
    obtain k c where kc: "walk w k p = Some c" "finished H w settleAt tm c"
      "\<forall>j<k. \<exists>d. walk w j p = Some d \<and> \<not> finished H w settleAt tm d"
      "LastToSettleAt_loop H w settleAt tm (late H w settleAt tm b) (Some p) = Some (Inr (c,
        if k = 0 then late H w settleAt tm b else late H w settleAt tm (the (walk w (k - 1) p))))"
      using less.hyps [OF below_parent [OF assms(1) less.prems(1) p]]
        ParentBlock_inv(1) [OF assms(1) less.prems(1) p] complete_history_parent [OF less.prems(2) p]
      by blast
    have "\<forall>j<Suc k. \<exists>d. walk w j b = Some d \<and> \<not> finished H w settleAt tm d"
    proof (intro allI impI)
      fix j assume "j < Suc k"
      then show "\<exists>d. walk w j b = Some d \<and> \<not> finished H w settleAt tm d"
        using kc(3) p False by (cases j) auto
    qed
    moreover have "LastToSettleAt_loop H w settleAt tm known (Some b) = Some (Inr (c,
        late H w settleAt tm (the (walk w k b))))"
      using False p kc(4) by (cases k) (simp_all add: LastToSettleAt_loop_step)
    ultimately show ?thesis using p kc(1,2) by (intro exI [of _ "Suc k"] exI [of _ c]) simp
  qed
qed

text \<open>C15: \<open>LastToSettleAt\<close> returns, and its result is the closest ancestor of the parent (or the
  parent itself) that has finished execution by the given time; every younger block on the
  way has not. The flag is true exactly when there is no younger block or the next younger
  one is known to finish too late, and the block is withheld otherwise.\<close>

theorem LastToSettleAt_spec:
  assumes "heap_inv E w" and "p < fresh w" and "complete_history w p"
    and "0 \<le> settleAt" and "Time_Unix settleAt < 2 ^ 64"
  shows "\<exists>tm k c ok. proxytime_Of settleAt = Inr tm \<and> instant tm = rat_of_int settleAt / 1000000000
    \<and> LastToSettleAt H w settleAt (Some p) = Some (Inr (if ok then Some c else None, ok))
    \<and> walk w k p = Some c \<and> finished H w settleAt tm c
    \<and> (\<forall>j<k. \<exists>d. walk w j p = Some d \<and> \<not> finished H w settleAt tm d)
    \<and> (ok \<longleftrightarrow> k = 0 \<or> late H w settleAt tm (the (walk w (k - 1) p)))"
proof -
  obtain tm where tm: "proxytime_Of settleAt = Inr tm" "ptime_inv tm" "hertz tm = 1000000000"
    "int (ticks tm) = settleAt"
    using Of_ticks [OF assms(4,5)] .
  have "instant tm = rat_of_int settleAt / 1000000000"
    by (simp add: instant_def tm(3) flip: tm(4))
  moreover obtain k c where "walk w k p = Some c" "finished H w settleAt tm c"
    "\<forall>j<k. \<exists>d. walk w j p = Some d \<and> \<not> finished H w settleAt tm d"
    "LastToSettleAt_loop H w settleAt tm True (Some p) = Some (Inr (c,
      if k = 0 then True else late H w settleAt tm (the (walk w (k - 1) p))))"
    using LastToSettleAt_loop_spec [OF assms(1-3)] by blast
  ultimately show ?thesis
    using tm(1)
    by (intro exI [of _ tm] exI [of _ k] exI [of _ c]
        exI [of _ "k = 0 \<or> late H w settleAt tm (the (walk w (k - 1) p))"])
      (auto simp: LastToSettleAt_def)
qed

definition sample_world6 :: "(db_write list, (u64 \<times> encoding) list) world" where
  "sample_world6 = snd (markSettled sample_env 0 None sample_world2)"

lemma sample_world6_inv:
  "heap_inv sample_env sample_world6" "1 < fresh sample_world6" "complete_history sample_world6 1"
proof -
  show "heap_inv sample_env sample_world6"
    unfolding sample_world6_def
    by (rule heap_inv_markSettled [OF sample_world2_inv(1) _ prod.collapse [symmetric]]) code_simp
  show "1 < fresh sample_world6" by code_simp
  have p: "ParentBlock sample_world6 1 = Some 0" "Settled sample_world6 0" by code_simp+
  have "ParentBlock sample_world6 0 = None" by code_simp
  then have "c = 1 \<or> c = 0" if "walk sample_world6 k 1 = Some c" for k c
    using that p by (cases k; cases "k - 1") (auto split: option.splits)
  then show "complete_history sample_world6 1"
    using p unfolding complete_history_def by (metis option.distinct(1))
qed

theorem LastToSettleAt_spec_witness:
  "\<exists>tm k c ok. proxytime_Of 1000000000 = Inr tm
    \<and> LastToSettleAt sample_points sample_world6 1000000000 (Some 1)
        = Some (Inr (if ok then Some c else None, ok))
    \<and> walk sample_world6 k 1 = Some c \<and> finished sample_points sample_world6 1000000000 tm c"
proof -
  have "0 \<le> (1000000000 :: int)" "Time_Unix 1000000000 < 2 ^ 64"
    by (simp_all add: Time_Unix_def time_Second_def)
  from LastToSettleAt_spec [OF sample_world6_inv this, of sample_points]
  show ?thesis by (elim exE conjE) (intro exI conjI; assumption)
qed

end
