(* ===== verification/Worstcase.thy ===== *)
theory Worstcase
  imports Settlement
begin

text \<open>
  Package \<^verbatim>\<open>worstcase\<close> (\<^verbatim>\<open>src/worstcase/state.go\<close>): the worst-case state in which the block
  builder replays unsettled blocks and admits new transactions. \<open>wc_state\<close> is the struct
  \<^verbatim>\<open>State\<close>; \<open>st_baseFee\<close> and \<open>curr\<close> are nil before the first \<open>StartBlock\<close>. A method is a program
  over that state, and an error leaves behind whatever the Go method had changed by then.

  The lemmas show that an operation is admitted exactly under the documented conditions and
  otherwise changes nothing, that the gas arithmetic of the closed queue cannot overflow,
  that what a transaction is charged is the exact worst-case cost, and that this covers
  the cost at any lower base fee.
\<close>

section \<open>The state\<close>

record 'db wc_state =
  st_db :: 'db
  clock :: gtime
  expectedParentHash :: hash
  qSize :: gas
  blockSize :: gas
  maxBlockSize :: gas
  st_baseFee :: "u256 option"
  curr :: "header option"
  st_signer :: signer
  minOpBurnerBalances :: "(address \<times> u256) list list"

definition NewState :: "('kv, 'x, 'e) env_scheme \<Rightarrow> (hash \<Rightarrow> 'db res) \<Rightarrow> ('kv, 'x, 'z) world_scheme
    \<Rightarrow> ptr \<Rightarrow> 'db wc_state res" where
  "NewState E openStateDB w settled =
     (if \<not> Executed w settled then Inl ErrSettledBlockNotExecuted
      else res_bind (PostExecutionStateRoot w settled) (\<lambda>postRoot.
           res_bind (openStateDB postRoot) (\<lambda>db.
           res_bind (ExecutedByGasTime w settled) (\<lambda>gt.
           Inr \<lparr>st_db = db, clock = gt, expectedParentHash = Hash E w settled, qSize = 0, blockSize = 0,
                maxBlockSize = 0, st_baseFee = None, curr = None, st_signer = (0, 0),
                minOpBurnerBalances = []\<rparr>))))"

definition maxGasSecondsPerBlock :: u64 where
  "maxGasSecondsPerBlock = TauSeconds * Lambda"

definition safeMaxBlockSize :: "gtime \<Rightarrow> gas" where
  "safeMaxBlockSize clk =
     (let maxGasSecondsInClosedQueue = MaxFullBlocksInClosedQueue * maxGasSecondsPerBlock;
          maxGasInClosedQueue = MaxUint64;
          maxSafeRate = maxGasInClosedQueue div maxGasSecondsInClosedQueue
      in min (proxytime_Rate (gt_time clk)) maxSafeRate * maxGasSecondsPerBlock)"

definition StartBlock :: "('kv, 'x, 'e) env_scheme \<Rightarrow> price_fun \<Rightarrow> ('db, 'a) points_scheme \<Rightarrow> header
    \<Rightarrow> ('db wc_state, unit) prog" where
  "StartBlock E calc H h =
     mbind (mget (\<lambda>s. ParentHash h = expectedParentHash s)) (\<lambda>consecutive.
     mbind (mguard consecutive (Wrap [ErrNonConsecutiveBlocks])) (\<lambda>_.
     mbind (mget clock) (\<lambda>clk.
     mbind (mlift (BeforeBlock H clk h)) (\<lambda>clk.
     mbind (mmod (\<lambda>s. s\<lparr>clock := clk, blockSize := 0, maxBlockSize := safeMaxBlockSize clk\<rparr>)) (\<lambda>_.
     mbind (mget (\<lambda>s. qSize s \<le> MaxFullBlocksInOpenQueue * maxBlockSize s)) (\<lambda>fits.
     mbind (mguard fits (Wrap [ErrQueueFull])) (\<lambda>_.
     mmod (\<lambda>s.
       let bf = gastime_BaseFee calc (clock s)
       in s\<lparr>st_baseFee := Some bf, minOpBurnerBalances := [], expectedParentHash := HeaderHash E h,
            curr := Some (h\<lparr>GasLimit := maxBlockSize s, BaseFee := Some (uint bf)\<rparr>),
            st_signer := (Number h, hdr_Time h)\<rparr>))))))))"

definition wc_GasLimit :: "'db wc_state \<Rightarrow> u64" where
  "wc_GasLimit s = maxBlockSize s"

definition wc_BaseFee :: "'db wc_state \<Rightarrow> u256 option" where
  "wc_BaseFee s = st_baseFee s"

definition wc_GasUsed :: "'db wc_state \<Rightarrow> u64" where
  "wc_GasUsed s = blockSize s"

section \<open>Transactions as operations\<close>

definition bigToUint256 :: "int \<Rightarrow> u256 \<times> bool" where
  "bigToUint256 v = SetFromBig v"

definition mulAdd :: "u64 \<Rightarrow> u256 \<Rightarrow> u256 \<Rightarrow> u256 \<times> bool" where
  "mulAdd a b c =
     (let (x, overflow) = MulOverflow (ucast a) b
      in if overflow then (0, True) else AddOverflow x c)"

definition txToOp :: "address \<Rightarrow> transaction \<Rightarrow> u256 \<Rightarrow> op res" where
  "txToOp from tx baseFee =
     (let (gasFeeCap, overflow) = bigToUint256 (tx_GasFeeCap tx)
      in if overflow then Inl ErrFeeCapVeryHigh
      else let (val, overflow) = bigToUint256 (tx_Value tx)
      in if overflow then Inl ErrInsufficientFundsForTransfer
      else let (minBalance, overflow) = mulAdd (tx_Gas tx) gasFeeCap val
      in if overflow then Inl ErrCostOverflow
      else let (gasTipCap, overflow) = bigToUint256 (tx_GasTipCap tx)
      in if overflow then Inl ErrTipVeryHigh
      else let (sum, overflow) = AddOverflow baseFee gasTipCap;
               effectiveGasPrice = (if overflow \<or> gasFeeCap < sum then gasFeeCap else sum);
               (amount, overflow) = mulAdd (tx_Gas tx) effectiveGasPrice val
      in if overflow then Inl ErrCostOverflow
      else Inr \<lparr>op_ID = 0, op_Gas = tx_Gas tx, op_GasFeeCap = gasFeeCap,
                Burn = [(from, \<lparr>ad_Nonce = tx_Nonce tx, Amount = amount, MinBalance = minBalance\<rparr>)],
                Mint = []\<rparr>)"

section \<open>Applying operations\<close>

fun Apply_burners :: "'db statedb \<Rightarrow> 'db \<Rightarrow> (address \<times> account_debit) list
    \<Rightarrow> (address \<times> u256) list res" where
  "Apply_burners S db [] = Inr []"
| "Apply_burners S db ((from, ad) # rest) =
     (let nonce = ad_Nonce ad; next = GetNonce S db from
      in if nonce < next then Inl (Wrap [ErrNonceTooLow])
         else if nonce > next then Inl (Wrap [ErrNonceTooHigh])
         else if next = MaxUint64 then Inl ErrNonceMax
         else res_bind (Apply_burners S db rest) (\<lambda>bals. Inr ((from, GetBalance S db from) # bals)))"

definition Apply :: "'db statedb \<Rightarrow> op \<Rightarrow> ('db wc_state, unit) prog" where
  "Apply S o1 =
     mbind (mget (\<lambda>s. op_Gas o1 \<le> maxBlockSize s - blockSize s)) (\<lambda>fits.
     mbind (mguard fits ErrGasLimitReached) (\<lambda>_.
     mbind (mget st_baseFee) (\<lambda>bf.
     mbind (mlift (case bf of None \<Rightarrow> Inl nil_deref | Some f \<Rightarrow> Inr f)) (\<lambda>bf.
     mbind (mguard (\<not> op_GasFeeCap o1 < bf) ErrFeeCapTooLow) (\<lambda>_.
     mbind (mget (\<lambda>s. Apply_burners S (st_db s) (Burn o1))) (\<lambda>r.
     mbind (mlift r) (\<lambda>burnerBalances.
     mbind (mget (\<lambda>s. ApplyTo S o1 (st_db s))) (\<lambda>(err, db).
     mbind (mmod (\<lambda>s. s\<lparr>st_db := db\<rparr>)) (\<lambda>_.
     mbind (case err of Some e \<Rightarrow> mfail e | None \<Rightarrow> mreturn ()) (\<lambda>_.
     mmod (\<lambda>s. s\<lparr>minOpBurnerBalances := minOpBurnerBalances s @ [burnerBalances],
                blockSize := blockSize s + op_Gas o1\<rparr>)))))))))))"

definition ApplyTx :: "('kv, 'x, 'e) env_scheme \<Rightarrow> ('db, 'a) points_scheme \<Rightarrow> 'db statedb \<Rightarrow> transaction
    \<Rightarrow> ('db wc_state, unit) prog" where
  "ApplyTx E H S tx =
     mbind (mget curr) (\<lambda>hdr.
     mbind (mlift (case hdr of None \<Rightarrow> Inl nil_deref | Some h \<Rightarrow> Inr h)) (\<lambda>hdr.
     mbind (mget st_signer) (\<lambda>sig.
     mbind (case ValidateTransaction E tx hdr sig of Some e \<Rightarrow> mfail (Wrap [e]) | None \<Rightarrow> mreturn ()) (\<lambda>_.
     mbind (mmap_err (\<lambda>e. Wrap [e]) (mlift (Sender E sig tx))) (\<lambda>from.
     mbind (mget (\<lambda>s. GetCodeHash S (st_db s) from)) (\<lambda>codeHash.
     mbind (mguard (codeHash = 0 \<or> codeHash = EmptyCodeHash E) (Wrap [ErrSenderNoEOA])) (\<lambda>_.
     mbind (mget (\<lambda>s. CanExecuteTransaction H from (tx_To tx) (st_db s))) (\<lambda>blocked.
     mbind (case blocked of Some e \<Rightarrow> mfail (Wrap [e]) | None \<Rightarrow> mreturn ()) (\<lambda>_.
     mbind (mget st_baseFee) (\<lambda>bf.
     mbind (mlift (case bf of None \<Rightarrow> Inl nil_deref | Some f \<Rightarrow> Inr f)) (\<lambda>bf.
     mbind (mmap_err (\<lambda>e. Wrap [e]) (mlift (txToOp from tx bf))) (\<lambda>o1.
     Apply S o1))))))))))))"

definition FinishBlock :: "price_fun \<Rightarrow> ('db, 'a) points_scheme \<Rightarrow> ('db wc_state, worst_case_bounds) prog" where
  "FinishBlock calc H =
     mbind (mget curr) (\<lambda>hdr.
     mbind (mlift (case hdr of None \<Rightarrow> Inl nil_deref | Some h \<Rightarrow> Inr h)) (\<lambda>hdr.
     mbind (mget (\<lambda>s. AfterBlock calc H (clock s) (blockSize s) hdr)) (\<lambda>r.
     mbind (mlift r) (\<lambda>(clk, err).
     mbind (mmod (\<lambda>s. s\<lparr>clock := clk\<rparr>)) (\<lambda>_.
     mbind (case err of Some e \<Rightarrow> mfail (Wrap [e]) | None \<Rightarrow> mreturn ()) (\<lambda>_.
     mbind (mmod (\<lambda>s. s\<lparr>qSize := qSize s + blockSize s\<rparr>)) (\<lambda>_.
     mbind (mget (\<lambda>s. (st_baseFee s, minOpBurnerBalances s))) (\<lambda>(bf, bals).
     mlift (case bf of None \<Rightarrow> Inl nil_deref
       | Some f \<Rightarrow> Inr \<lparr>MaxBaseFee = f, LatestEndTime = gastime_Clone clk, MinOpBurnerBalances = bals\<rparr>)))))))))"

section \<open>Admission of operations\<close>

definition burner_ok :: "'db statedb \<Rightarrow> 'db \<Rightarrow> address \<times> account_debit \<Rightarrow> bool" where
  "burner_ok S db = (\<lambda>(a, d). ad_Nonce d = GetNonce S db a \<and> ad_Nonce d \<noteq> MaxUint64)"

text \<open>The documented conditions under which an operation is valid.\<close>

definition op_admissible :: "'db statedb \<Rightarrow> 'db wc_state \<Rightarrow> op \<Rightarrow> bool" where
  "op_admissible S s o1 \<longleftrightarrow> unat (blockSize s) + unat (op_Gas o1) \<le> unat (maxBlockSize s)
     \<and> (\<exists>bf. st_baseFee s = Some bf \<and> bf \<le> op_GasFeeCap o1)
     \<and> list_all (burner_ok S (st_db s)) (Burn o1) \<and> op_affordable S (st_db s) o1"

definition op_applied :: "'db statedb \<Rightarrow> op \<Rightarrow> 'db wc_state \<Rightarrow> 'db wc_state" where
  "op_applied S o1 s = s\<lparr>st_db := snd (ApplyTo S o1 (st_db s)),
     minOpBurnerBalances := minOpBurnerBalances s @
       [map (\<lambda>(a, _). (a, GetBalance S (st_db s) a)) (Burn o1)],
     blockSize := blockSize s + op_Gas o1\<rparr>"

lemma Apply_burners_value:
  "if list_all (burner_ok S db) bs
   then Apply_burners S db bs = Inr (map (\<lambda>(a, _). (a, GetBalance S db a)) bs)
   else (\<exists>e. Apply_burners S db bs = Inl e)"
  by (induction bs) (auto simp: burner_ok_def Let_def not_less word_order.extremum_unique split: if_splits)

lemma gas_fits_iff:
  "blockSize s \<le> maxBlockSize s \<Longrightarrow>
    op_Gas o1 \<le> maxBlockSize s - blockSize s \<longleftrightarrow>
    unat (blockSize s) + unat (op_Gas o1) \<le> unat (maxBlockSize s)"
  by (auto simp: u64_le_iff unat_sub_u64)

lemma Apply_value:
  assumes "blockSize s \<le> maxBlockSize s"
  shows "if op_admissible S s o1 then Apply S o1 s = (Inr (), op_applied S o1 s)
    else (\<exists>e. Apply S o1 s = (Inl e, s))"
proof -
  obtain err db where a: "ApplyTo S o1 (st_db s) = (err, db)" by fastforce
  have err: "err = None \<longleftrightarrow> op_affordable S (st_db s) o1"
    using ApplyTo_None_iff [of S o1 "st_db s"] a by simp
  have same: "db = st_db s" if "err = Some e" for e
    using ApplyTo_error [of S o1 "st_db s" e db] a that by simp
  have b: "if list_all (burner_ok S (st_db s)) (Burn o1)
    then Apply_burners S (st_db s) (Burn o1) = Inr (map (\<lambda>(a, _). (a, GetBalance S (st_db s) a)) (Burn o1))
    else (\<exists>e. Apply_burners S (st_db s) (Burn o1) = Inl e)"
    by (rule Apply_burners_value)
  show ?thesis
  proof (cases "op_admissible S s o1")
    case True
    then show ?thesis
      using b a err gas_fits_iff [OF assms, of o1]
      by (auto simp: Apply_def prog_simps op_admissible_def op_applied_def not_less)
  next
    case False
    have "\<exists>e. Apply S o1 s = (Inl e, s)"
    proof (cases "op_Gas o1 \<le> maxBlockSize s - blockSize s \<and> (\<exists>bf. st_baseFee s = Some bf \<and> bf \<le> op_GasFeeCap o1)
        \<and> list_all (burner_ok S (st_db s)) (Burn o1)")
      case True
      then have "err \<noteq> None"
        using False err gas_fits_iff [OF assms, of o1] by (auto simp: op_admissible_def)
      then show ?thesis
        using True b a same by (auto simp: Apply_def prog_simps not_less)
    next
      case outer: False
      then show ?thesis
        using b a by (auto simp: Apply_def prog_simps not_less split: option.splits if_splits)
    qed
    then show ?thesis using False by simp
  qed
qed

text \<open>\<open>Apply\<close> admits an operation exactly when its gas fits in what is left of the block, its
  fee cap covers the base fee, every burner's nonce is the account's next one and not the
  maximum, and every debit is affordable. An admitted operation is charged to the state, its
  gas is added without overflow, and the burners' balances from before it are recorded; any
  other operation returns an error and changes nothing.\<close>

theorem Apply_spec:
  assumes "blockSize s \<le> maxBlockSize s"
  shows "case Apply S o1 s of
      (Inl e, s') \<Rightarrow> \<not> op_admissible S s o1 \<and> s' = s
    | (Inr _, s') \<Rightarrow> op_admissible S s o1 \<and> s' = op_applied S o1 s
        \<and> ApplyTo S o1 (st_db s) = (None, st_db s')
        \<and> unat (blockSize s') = unat (blockSize s) + unat (op_Gas o1) \<and> blockSize s' \<le> maxBlockSize s'"
proof (cases "op_admissible S s o1")
  case True
  then have le: "unat (blockSize s) + unat (op_Gas o1) \<le> unat (maxBlockSize s)"
    by (simp add: op_admissible_def)
  then have "unat (blockSize s + op_Gas o1) = unat (blockSize s) + unat (op_Gas o1)"
    using unat_lt_2_64 [of "maxBlockSize s"] by (simp add: unat_add_u64)
  moreover have "fst (ApplyTo S o1 (st_db s)) = None"
    using True by (simp add: ApplyTo_None_iff op_admissible_def)
  ultimately show ?thesis
    using True le Apply_value [OF assms, of S o1]
    by (auto simp: op_applied_def u64_le_iff prod_eq_iff)
next
  case False
  then show ?thesis using Apply_value [OF assms, of S o1] by auto
qed

section \<open>The gas of the closed queue\<close>

text \<open>
  The invariant while a block is open: it does not exceed its limit, the queue before it
  fits in the open queue, and the limit is small enough that a full closed queue fits in 64
  bits.
\<close>

definition wc_open :: "'db wc_state \<Rightarrow> bool" where
  "wc_open s \<longleftrightarrow> unat (blockSize s) \<le> unat (maxBlockSize s)
     \<and> unat (qSize s) \<le> 2 * unat (maxBlockSize s) \<and> 3 * unat (maxBlockSize s) < 2 ^ 64"

lemma unat_safeMaxBlockSize:
  "unat (safeMaxBlockSize clk) = 10 * min (unat (hertz (gt_time clk))) 614891469123651720"
proof -
  have c: "MaxFullBlocksInClosedQueue = 3" "maxGasSecondsPerBlock = 10"
    by (simp_all add: MaxFullBlocksInClosedQueue_def MaxFullBlocksInOpenQueue_def
        maxGasSecondsPerBlock_def TauSeconds_def Lambda_def)
  have m: "unat (MaxUint64 div 30) = 614891469123651720"
    by (simp add: unat_div_u64 unat_minus_1_u64)
  have "unat (min r (MaxUint64 div 30)) = min (unat r) 614891469123651720" for r :: u64
    unfolding m [symmetric] by (simp add: min_def u64_le_iff)
  then have "unat (min (hertz (gt_time clk)) (MaxUint64 div 30) * 10) =
      10 * min (unat (hertz (gt_time clk))) 614891469123651720"
    by (simp add: unat_mult_u64 mult.commute del: min.absorb1 min.absorb2)
  then show ?thesis by (simp add: safeMaxBlockSize_def c proxytime_Rate_def mult.commute)
qed

lemma StartBlock_open:
  assumes "StartBlock E calc H h s = (Inr u, s')"
  shows "wc_open s' \<and> qSize s' = qSize s \<and> blockSize s' = 0
    \<and> (\<exists>clk. BeforeBlock H (clock s) h = Inr clk \<and> clock s' = clk
        \<and> st_baseFee s' = Some (gastime_BaseFee calc clk))
    \<and> curr s' = Some (h\<lparr>GasLimit := maxBlockSize s', BaseFee := map_option uint (st_baseFee s')\<rparr>)"
proof -
  obtain clk where c: "BeforeBlock H (clock s) h = Inr clk"
    and q: "qSize s \<le> MaxFullBlocksInOpenQueue * safeMaxBlockSize clk"
    and s': "s' = s\<lparr>clock := clk, blockSize := 0, maxBlockSize := safeMaxBlockSize clk,
      st_baseFee := Some (gastime_BaseFee calc clk), minOpBurnerBalances := [],
      expectedParentHash := HeaderHash E h,
      curr := Some (h\<lparr>GasLimit := safeMaxBlockSize clk, BaseFee := Some (uint (gastime_BaseFee calc clk))\<rparr>),
      st_signer := (Number h, hdr_Time h)\<rparr>"
    using assms
    by (auto simp: StartBlock_def prog_simps Let_def split: if_splits sum.splits)
  have "unat (MaxFullBlocksInOpenQueue * safeMaxBlockSize clk) = 2 * unat (safeMaxBlockSize clk)"
    by (simp add: MaxFullBlocksInOpenQueue_def unat_mult_u64 unat_safeMaxBlockSize)
  then have "unat (qSize s) \<le> 2 * unat (safeMaxBlockSize clk)" using q by (simp add: u64_le_iff)
  then show ?thesis using c unat_safeMaxBlockSize [of clk] by (simp add: s' wc_open_def)
qed

lemma wc_open_Apply:
  assumes "wc_open s"
  shows "wc_open (snd (Apply S o1 s)) \<and> qSize (snd (Apply S o1 s)) = qSize s"
proof (cases "op_admissible S s o1")
  case True
  have "blockSize s \<le> maxBlockSize s" using assms by (simp add: wc_open_def u64_le_iff)
  from Apply_value [OF this, of S o1] have "Apply S o1 s = (Inr (), op_applied S o1 s)"
    using True by simp
  moreover have "unat (blockSize s) + unat (op_Gas o1) \<le> unat (maxBlockSize s)"
    using True by (simp add: op_admissible_def)
  ultimately show ?thesis
    using assms unat_lt_2_64 [of "maxBlockSize s"] by (simp add: wc_open_def op_applied_def unat_add_u64)
next
  case False
  have "blockSize s \<le> maxBlockSize s" using assms by (simp add: wc_open_def u64_le_iff)
  from Apply_value [OF this, of S o1] obtain e where "Apply S o1 s = (Inl e, s)" using False by auto
  then show ?thesis using assms by simp
qed

lemma ApplyTx_cases:
  "(\<exists>e. ApplyTx E H S tx s = (Inl e, s)) \<or>
   (\<exists>hdr sdr bf o1. curr s = Some hdr \<and> ValidateTransaction E tx hdr (st_signer s) = None
      \<and> Sender E (st_signer s) tx = Inr sdr \<and> GetCodeHash S (st_db s) sdr \<in> {0, EmptyCodeHash E}
      \<and> CanExecuteTransaction H sdr (tx_To tx) (st_db s) = None
      \<and> st_baseFee s = Some bf \<and> txToOp sdr tx bf = Inr o1 \<and> ApplyTx E H S tx s = Apply S o1 s)"
  by (cases "curr s"; cases "ValidateTransaction E tx (the (curr s)) (st_signer s)";
      cases "Sender E (st_signer s) tx"; cases "st_baseFee s";
      cases "CanExecuteTransaction H (projr (Sender E (st_signer s) tx)) (tx_To tx) (st_db s)";
      cases "txToOp (projr (Sender E (st_signer s) tx)) tx (the (st_baseFee s))")
    (simp_all add: ApplyTx_def prog_simps)

lemma ApplyTx_run:
  obtains (err) e where "ApplyTx E H S tx s = (Inl e, s)"
  | (run) hdr sdr bf o1 where "curr s = Some hdr" and "ValidateTransaction E tx hdr (st_signer s) = None"
      and "Sender E (st_signer s) tx = Inr sdr"
      and "GetCodeHash S (st_db s) sdr \<in> {0, EmptyCodeHash E}"
      and "CanExecuteTransaction H sdr (tx_To tx) (st_db s) = None"
      and "st_baseFee s = Some bf" and "txToOp sdr tx bf = Inr o1"
      and "ApplyTx E H S tx s = Apply S o1 s"
  using ApplyTx_cases [of E H S tx s] by blast

text \<open>The operations of a block, in the order in which the builder offers them; the builder
  skips those that are refused.\<close>

datatype item = ItemTx transaction | ItemOp op

fun apply_item :: "('kv, 'x, 'e) env_scheme \<Rightarrow> ('db, 'a) points_scheme \<Rightarrow> 'db statedb \<Rightarrow> item
    \<Rightarrow> ('db wc_state, unit) prog" where
  "apply_item E H S (ItemTx tx) = ApplyTx E H S tx"
| "apply_item E H S (ItemOp o1) = Apply S o1"

definition run_block :: "('kv, 'x, 'e) env_scheme \<Rightarrow> price_fun \<Rightarrow> ('db, 'a) points_scheme \<Rightarrow> 'db statedb
    \<Rightarrow> header \<Rightarrow> item list \<Rightarrow> ('db wc_state, worst_case_bounds) prog" where
  "run_block E calc H S h items =
     mbind (StartBlock E calc H h) (\<lambda>_.
     mbind (mmod (fold (\<lambda>i s. snd (apply_item E H S i s)) items)) (\<lambda>_.
     FinishBlock calc H))"

lemma apply_item_open:
  assumes "wc_open s"
  shows "wc_open (snd (apply_item E H S i s)) \<and> qSize (snd (apply_item E H S i s)) = qSize s"
proof (cases i)
  case (ItemTx tx)
  show ?thesis unfolding ItemTx apply_item.simps
    by (rule ApplyTx_run [of E H S tx s]) (use assms wc_open_Apply in auto)
next
  case (ItemOp o1)
  then show ?thesis using assms wc_open_Apply by auto
qed

lemma apply_items_open:
  "wc_open s \<Longrightarrow> wc_open (fold (\<lambda>i s. snd (apply_item E H S i s)) items s)
    \<and> qSize (fold (\<lambda>i s. snd (apply_item E H S i s)) items s) = qSize s"
proof (induction items arbitrary: s)
  case (Cons i items)
  then show ?case using apply_item_open [OF Cons.prems, of E H S i] by auto
qed simp

lemma FinishBlock_Inr:
  assumes "FinishBlock calc H s = (Inr b, s')"
  obtains hdr clk bf where "curr s = Some hdr" and "AfterBlock calc H (clock s) (blockSize s) hdr = Inr (clk, None)"
    and "s' = s\<lparr>clock := clk, qSize := qSize s + blockSize s\<rparr>" and "st_baseFee s = Some bf"
    and "b = \<lparr>MaxBaseFee = bf, LatestEndTime = clk, MinOpBurnerBalances = minOpBurnerBalances s\<rparr>"
  using assms
  by (auto simp: FinishBlock_def prog_simps gastime_Clone_id split: option.splits sum.splits prod.splits)

text \<open>C26: The gas arithmetic of the queue never overflows. Whatever a block is offered, when it is
  finished the queue is exactly the queue before plus the block, the block is within its
  limit, the queue within the closed-queue bound of three full blocks, and that bound fits
  in 64 bits.\<close>

theorem closed_queue_bound:
  assumes "run_block E calc H S h items s = (Inr b, s')"
  shows "unat (qSize s') = unat (qSize s) + unat (blockSize s')
    \<and> unat (blockSize s') \<le> unat (wc_GasLimit s')
    \<and> unat (qSize s') \<le> unat MaxFullBlocksInClosedQueue * unat (wc_GasLimit s')
    \<and> unat MaxFullBlocksInClosedQueue * unat (wc_GasLimit s') < 2 ^ 64"
proof -
  obtain u s1 where s1: "StartBlock E calc H h s = (Inr u, s1)"
    and fin: "FinishBlock calc H (fold (\<lambda>i s. snd (apply_item E H S i s)) items s1) = (Inr b, s')"
    using assms by (auto simp: run_block_def mbind_Inr mmod_apply)
  define s2 where "s2 = fold (\<lambda>i s. snd (apply_item E H S i s)) items s1"
  have "wc_open s1" "qSize s1 = qSize s" using StartBlock_open [OF s1] by auto
  then have o2: "wc_open s2" "qSize s2 = qSize s"
    using apply_items_open [of s1 E H S items] by (auto simp: s2_def)
  obtain clk where s': "s' = s2\<lparr>clock := clk, qSize := qSize s2 + blockSize s2\<rparr>"
    using fin by (elim FinishBlock_Inr) (simp add: s2_def)
  have "unat (qSize s2 + blockSize s2) = unat (qSize s2) + unat (blockSize s2)"
    using o2(1) by (simp add: wc_open_def unat_add_u64)
  then show ?thesis
    using o2 by (simp add: s' wc_open_def wc_GasLimit_def MaxFullBlocksInClosedQueue_def
        MaxFullBlocksInOpenQueue_def)
qed

section \<open>The cost of a transaction\<close>

lemma uint_ucast_256: "uint (ucast (a :: u64) :: u256) = uint a"
  by (simp add: uint_up_ucast is_up_def source_size_def target_size_def word_size)

lemma uint_mulAdd:
  assumes "uint (a :: u64) * uint b + uint c < 2 ^ 256"
  shows "uint (ucast a * b + c :: u256) = uint a * uint b + uint c"
proof -
  have "0 \<le> uint a * uint b" "0 \<le> uint c" by simp_all
  then have "(uint a * uint b + uint c) mod 2 ^ 256 = uint a * uint b + uint c"
    using assms by (intro mod_pos_pos_trivial) linarith+
  then show ?thesis by (simp add: uint_word_ariths uint_ucast_256 mod_simps)
qed

lemma mulAdd_value:
  "mulAdd a b c = (if uint a * uint b + uint c < 2 ^ 256 then (ucast a * b + c, False)
     else (fst (mulAdd a b c), True))"
proof -
  define P Q where "P = uint a * uint b" and "Q = uint c"
  have Q: "0 \<le> Q" "0 \<le> P" by (simp_all add: P_def Q_def)
  have m: "uint (ucast a * b :: u256) = P" if "P < 2 ^ 256"
    using uint_MulOverflow [of "ucast a" b "ucast a * b"] that
    by (simp add: MulOverflow_def uint_ucast_256 P_def)
  have "snd (mulAdd a b c) \<longleftrightarrow> \<not> P + Q < 2 ^ 256"
    using m Q by (auto simp: mulAdd_def MulOverflow_def AddOverflow_def Let_def uint_ucast_256
        P_def [symmetric] Q_def [symmetric])
  moreover have "fst (mulAdd a b c) = ucast a * b + c" if "P + Q < 2 ^ 256"
    using that Q by (auto simp: mulAdd_def MulOverflow_def AddOverflow_def Let_def uint_ucast_256
        P_def [symmetric] Q_def [symmetric])
  ultimately show ?thesis by (auto simp: prod_eq_iff P_def Q_def)
qed

definition worst_cost :: "transaction \<Rightarrow> int" where
  "worst_cost tx = uint (tx_Gas tx) * tx_GasFeeCap tx + tx_Value tx"

definition cost_at :: "transaction \<Rightarrow> int \<Rightarrow> int" where
  "cost_at tx baseFee = uint (tx_Gas tx) * min (tx_GasFeeCap tx) (baseFee + tx_GasTipCap tx) + tx_Value tx"

definition tx_wf :: "transaction \<Rightarrow> bool" where
  "tx_wf tx \<longleftrightarrow> 0 \<le> tx_GasFeeCap tx \<and> 0 \<le> tx_GasTipCap tx \<and> 0 \<le> tx_Value tx"

lemma cost_at_mono: "a \<le> b \<Longrightarrow> cost_at tx a \<le> cost_at tx b"
  by (auto simp: cost_at_def intro!: mult_left_mono)

lemma cost_at_le_worst: "cost_at tx a \<le> worst_cost tx"
  by (auto simp: cost_at_def worst_cost_def intro!: mult_left_mono)

lemma uint_big: "0 \<le> v \<Longrightarrow> v < 2 ^ 256 \<Longrightarrow> uint (word_of_int v :: u256) = v"
  by (simp add: uint_word_of_int)

text \<open>The price charged: the fee cap, or the base fee plus the tip when that is smaller.\<close>

lemma effective_price:
  assumes "uint cap = C" and "uint tip = T" and "AddOverflow bf tip = (tot, ovf)"
  shows "uint (if ovf \<or> cap < tot then cap else tot) = min C (uint bf + T)"
proof -
  have "uint cap < 2 ^ 256" using uint_lt2p [of cap] by simp
  moreover have "uint tot = uint bf + uint tip" if "\<not> ovf" using uint_AddOverflow assms(3) that by simp
  moreover have "2 ^ 256 \<le> uint bf + uint tip" if "ovf" using assms(3) that by (simp add: AddOverflow_def)
  ultimately show ?thesis using assms(1,2) by (cases ovf) (auto simp: word_less_def min_def)
qed

lemma txToOp_exact:
  assumes "tx_wf tx"
  shows "case txToOp sdr tx bf of
      Inr o1 \<Rightarrow> worst_cost tx < 2 ^ 256 \<and> tx_GasTipCap tx < 2 ^ 256
        \<and> op_Gas o1 = tx_Gas tx \<and> uint (op_GasFeeCap o1) = tx_GasFeeCap tx \<and> Mint o1 = []
        \<and> (\<exists>d. Burn o1 = [(sdr, d)] \<and> ad_Nonce d = tx_Nonce tx
             \<and> uint (MinBalance d) = worst_cost tx \<and> uint (Amount d) = cost_at tx (uint bf))
    | Inl e \<Rightarrow> e = ErrFeeCapVeryHigh \<and> 2 ^ 256 \<le> tx_GasFeeCap tx
        \<or> e = ErrInsufficientFundsForTransfer \<and> 2 ^ 256 \<le> tx_Value tx
        \<or> e = ErrCostOverflow \<and> 2 ^ 256 \<le> worst_cost tx
        \<or> e = ErrTipVeryHigh \<and> 2 ^ 256 \<le> tx_GasTipCap tx"
proof -
  define cap val tip where "cap = (word_of_int (tx_GasFeeCap tx) :: u256)"
    and "val = (word_of_int (tx_Value tx) :: u256)" and "tip = (word_of_int (tx_GasTipCap tx) :: u256)"
  obtain tot ovf where tot: "AddOverflow bf tip = (tot, ovf)" by fastforce
  define eff where "eff = (if ovf \<or> cap < tot then cap else tot)"
  note nn = assms [unfolded tx_wf_def]
  consider "2 ^ 256 \<le> tx_GasFeeCap tx" | "tx_GasFeeCap tx < 2 ^ 256" "2 ^ 256 \<le> tx_Value tx"
    | "tx_GasFeeCap tx < 2 ^ 256" "tx_Value tx < 2 ^ 256" "2 ^ 256 \<le> worst_cost tx"
    | "tx_GasFeeCap tx < 2 ^ 256" "tx_Value tx < 2 ^ 256" "worst_cost tx < 2 ^ 256"
        "2 ^ 256 \<le> tx_GasTipCap tx"
    | "tx_GasFeeCap tx < 2 ^ 256" "tx_Value tx < 2 ^ 256" "worst_cost tx < 2 ^ 256"
        "tx_GasTipCap tx < 2 ^ 256"
    by linarith
  then show ?thesis
  proof cases
    case 5
    have u: "uint cap = tx_GasFeeCap tx" "uint val = tx_Value tx" "uint tip = tx_GasTipCap tx"
      using 5 nn by (simp_all add: cap_def val_def tip_def uint_big)
    have e: "uint eff = min (tx_GasFeeCap tx) (uint bf + tx_GasTipCap tx)"
      unfolding eff_def by (rule effective_price [OF u(1,3) tot])
    have w: "uint (tx_Gas tx) * uint cap + uint val < 2 ^ 256"
      using 5 u by (simp add: worst_cost_def)
    have c: "uint (tx_Gas tx) * uint eff + uint val < 2 ^ 256"
      using 5(3) cost_at_le_worst [of tx "uint bf"] u e by (simp add: cost_at_def)
    have "txToOp sdr tx bf = Inr \<lparr>op_ID = 0, op_Gas = tx_Gas tx, op_GasFeeCap = cap,
      Burn = [(sdr, \<lparr>ad_Nonce = tx_Nonce tx, Amount = ucast (tx_Gas tx) * eff + val,
        MinBalance = ucast (tx_Gas tx) * cap + val\<rparr>)], Mint = []\<rparr>"
      using 5 nn tot w c
      by (simp add: txToOp_def bigToUint256_def SetFromBig_def mulAdd_value [of "tx_Gas tx" cap val]
          mulAdd_value [of "tx_Gas tx" eff val] not_le eff_def [symmetric]
          flip: cap_def val_def tip_def)
    then show ?thesis
      using 5 uint_mulAdd [OF w] uint_mulAdd [OF c] u e by (simp add: worst_cost_def cost_at_def)
  next
    case 3
    have u: "uint cap = tx_GasFeeCap tx" "uint val = tx_Value tx"
      using 3 nn by (simp_all add: cap_def val_def uint_big)
    then have "\<not> uint (tx_Gas tx) * uint cap + uint val < 2 ^ 256" using 3 by (simp add: worst_cost_def)
    then obtain x where "mulAdd (tx_Gas tx) cap val = (x, True)"
      using mulAdd_value [of "tx_Gas tx" cap val] by metis
    then show ?thesis
      using 3 nn by (simp add: txToOp_def bigToUint256_def SetFromBig_def flip: cap_def val_def)
  next
    case 4
    have u: "uint cap = tx_GasFeeCap tx" "uint val = tx_Value tx"
      using 4 nn by (simp_all add: cap_def val_def uint_big)
    then have "uint (tx_Gas tx) * uint cap + uint val < 2 ^ 256" using 4 by (simp add: worst_cost_def)
    then obtain x where "mulAdd (tx_Gas tx) cap val = (x, False)"
      using mulAdd_value [of "tx_Gas tx" cap val] by metis
    then show ?thesis
      using 4 nn by (simp add: txToOp_def bigToUint256_def SetFromBig_def flip: cap_def val_def)
  qed (use nn in \<open>simp_all add: txToOp_def bigToUint256_def SetFromBig_def\<close>)
qed

text \<open>Converting a transaction to an operation computes its costs exactly: the balance it
  requires is gas times fee cap plus value, the amount it burns is gas times the effective price
  at the worst-case base fee plus value, and nothing is minted. It fails exactly when the fee
  cap, the value, the required balance or the tip do not fit in 256 bits, with the respective
  error; the burnt amount then always fits.\<close>

theorem txToOp_spec:
  assumes "tx_wf tx"
  shows "case txToOp sdr tx bf of
      Inr o1 \<Rightarrow> worst_cost tx < 2 ^ 256 \<and> tx_GasTipCap tx < 2 ^ 256
        \<and> op_Gas o1 = tx_Gas tx \<and> uint (op_GasFeeCap o1) = tx_GasFeeCap tx \<and> Mint o1 = []
        \<and> (\<exists>d. Burn o1 = [(sdr, d)] \<and> ad_Nonce d = tx_Nonce tx
             \<and> uint (MinBalance d) = worst_cost tx \<and> uint (Amount d) = cost_at tx (uint bf))
    | Inl e \<Rightarrow> e = ErrFeeCapVeryHigh \<and> 2 ^ 256 \<le> tx_GasFeeCap tx
        \<or> e = ErrInsufficientFundsForTransfer \<and> 2 ^ 256 \<le> tx_Value tx
        \<or> e = ErrCostOverflow \<and> 2 ^ 256 \<le> worst_cost tx
        \<or> e = ErrTipVeryHigh \<and> 2 ^ 256 \<le> tx_GasTipCap tx"
  using assms by (rule txToOp_exact)

definition sample_tx :: transaction where
  "sample_tx = \<lparr>tx_Hash = 7, tx_Nonce = 0, tx_Gas = 21000, tx_GasFeeCap = 100, tx_GasTipCap = 2,
     tx_Value = 5, tx_To = None, tx_extra = 3\<rparr>"

lemma sample_tx_wf: "tx_wf sample_tx"
  by (simp add: tx_wf_def sample_tx_def)

theorem txToOp_spec_witness:
  "\<exists>d. Burn (projr (txToOp 3 sample_tx 50)) = [(3, d)] \<and> uint (MinBalance d) = 2100005
    \<and> uint (Amount d) = 1092005"
proof -
  have "isl (txToOp 3 sample_tx 50) = False" by code_simp
  then obtain o1 where "txToOp 3 sample_tx 50 = Inr o1" by (cases "txToOp 3 sample_tx 50") auto
  then show ?thesis
    using txToOp_spec [OF sample_tx_wf, of 3 50]
    by (auto simp: worst_cost_def cost_at_def sample_tx_def)
qed

text \<open>C27: A transaction that \<open>ApplyTx\<close> accepts can be paid for. Its sender's balance covers the
  maximal cost; exactly the cost at the worst-case base fee is deducted, without underflow; that
  cost bounds the cost at every base fee up to the worst-case one; the nonce advances by one; no
  other account is touched; and the balance from before is recorded as the bound to check at
  execution.\<close>

theorem ApplyTx_covers_cost:
  assumes "statedb_laws S" and "tx_wf tx" and "wc_open s" and "ApplyTx E H S tx s = (Inr u, s')"
  shows "\<exists>sdr bf. Sender E (st_signer s) tx = Inr sdr \<and> wc_BaseFee s = Some bf
    \<and> uint bf \<le> tx_GasFeeCap tx
    \<and> worst_cost tx \<le> uint (GetBalance S (st_db s) sdr)
    \<and> uint (GetBalance S (st_db s') sdr) = uint (GetBalance S (st_db s) sdr) - cost_at tx (uint bf)
    \<and> (\<forall>actual. actual \<le> uint bf \<longrightarrow> cost_at tx actual \<le> cost_at tx (uint bf))
    \<and> GetNonce S (st_db s) sdr = tx_Nonce tx
    \<and> unat (GetNonce S (st_db s') sdr) = unat (tx_Nonce tx) + 1
    \<and> (\<forall>a. a \<noteq> sdr \<longrightarrow> GetBalance S (st_db s') a = GetBalance S (st_db s) a)
    \<and> minOpBurnerBalances s' = minOpBurnerBalances s @ [[(sdr, GetBalance S (st_db s) sdr)]]"
proof -
  obtain sdr bf o1 where t: "Sender E (st_signer s) tx = Inr sdr" "st_baseFee s = Some bf"
    "txToOp sdr tx bf = Inr o1" "Apply S o1 s = (Inr u, s')"
    by (rule ApplyTx_run [of E H S tx s]) (use assms(4) in auto)
  obtain d where d: "op_Gas o1 = tx_Gas tx" "uint (op_GasFeeCap o1) = tx_GasFeeCap tx" "Mint o1 = []"
    "Burn o1 = [(sdr, d)]" "ad_Nonce d = tx_Nonce tx" "uint (MinBalance d) = worst_cost tx"
    "uint (Amount d) = cost_at tx (uint bf)"
    using txToOp_exact [OF assms(2), of sdr bf] t(3) by auto
  have bs: "blockSize s \<le> maxBlockSize s" using assms(3) by (simp add: wc_open_def u64_le_iff)
  then have adm: "op_admissible S s o1" and s': "s' = op_applied S o1 s"
    using Apply_value [OF bs, of S o1] t(4) by (auto split: if_splits)
  have db: "ApplyTo S o1 (st_db s) = (None, st_db s')"
    using adm ApplyTo_None_iff [of S o1 "st_db s"]
    by (simp add: s' op_applied_def op_admissible_def prod_eq_iff)
  have wf: "op_wf o1" by (simp add: op_wf_def d)
  have ok: "Amount d \<le> MinBalance d" "MinBalance d \<le> GetBalance S (st_db s) sdr"
    "tx_Nonce tx = GetNonce S (st_db s) sdr" "tx_Nonce tx \<noteq> MaxUint64" "bf \<le> op_GasFeeCap o1"
    using adm t(2) d by (auto simp: op_admissible_def op_affordable_def burner_ok_def)
  have bal: "GetBalance S (st_db s') a = GetBalance S (st_db s) a - burn_of o1 a + mint_of o1 a" for a
    using assms(1) wf db by (rule ApplyTo_balance)
  have "GetBalance S (st_db s') sdr = GetBalance S (st_db s) sdr - Amount d"
    by (simp add: bal burn_of_def mint_of_def d)
  moreover have "Amount d \<le> GetBalance S (st_db s) sdr" using ok by simp
  ultimately have "uint (GetBalance S (st_db s') sdr) = uint (GetBalance S (st_db s) sdr) - cost_at tx (uint bf)"
    by (simp add: d(7) uint_minus_simple_iff [symmetric] word_le_def uint_sub_if')
  moreover have "unat (GetNonce S (st_db s') sdr) = unat (tx_Nonce tx) + 1"
    using ApplyTo_nonce [OF assms(1) wf db, of sdr] ok(3,4) unat_le_max [of "tx_Nonce tx"]
    by (auto simp: d bump_nonce_def u64_nat unat_add_u64 u64_eq_iff)
  moreover have "worst_cost tx \<le> uint (GetBalance S (st_db s) sdr)"
    using ok(2) by (simp add: word_le_def d)
  moreover have "GetBalance S (st_db s') a = GetBalance S (st_db s) a" if "a \<noteq> sdr" for a
    using that by (simp add: bal burn_of_def mint_of_def d)
  moreover have "uint bf \<le> tx_GasFeeCap tx" using ok(5) by (simp add: word_le_def d)
  ultimately show ?thesis
    using t ok(3) cost_at_mono [of _ "uint bf" tx]
    by (intro exI [of _ sdr] exI [of _ bf]) (simp add: wc_BaseFee_def s' op_applied_def d)
qed

section \<open>A concrete block\<close>

definition flat_points :: "((address \<Rightarrow> u256) \<times> (address \<Rightarrow> u64)) points" where
  "flat_points = \<lparr>GasConfigAfter = (\<lambda>_. (5, DefaultGasPriceConfig)), SubSecondBlockTime = (\<lambda>_. 0),
     SettledHeight = (\<lambda>_. 0), EndOfBlockOps = (\<lambda>_. Inr []), CanExecuteTransaction = (\<lambda>_ _ _. None)\<rparr>"

definition sample_clock :: gtime where
  "sample_clock = \<lparr>gt_time = \<lparr>seconds = 8, fraction = 0, hertz = 2000000\<rparr>, target = 1000000, excess = 0,
     gt_config = gt_config sample_gtime\<rparr>"

definition sample_wc :: "((address \<Rightarrow> u256) \<times> (address \<Rightarrow> u64)) wc_state" where
  "sample_wc = \<lparr>st_db = ((\<lambda>_. 1000000000), (\<lambda>_. 0)), clock = sample_clock, expectedParentHash = 1,
     qSize = 0, blockSize = 0, maxBlockSize = 0, st_baseFee = None, curr = None, st_signer = (0, 0),
     minOpBurnerBalances = []\<rparr>"

definition sample_started :: "((address \<Rightarrow> u256) \<times> (address \<Rightarrow> u64)) wc_state" where
  "sample_started = sample_wc\<lparr>maxBlockSize := 20000000, st_baseFee := Some 1, curr := Some sample_header\<rparr>"

lemma sample_started_open: "wc_open sample_started"
  by (simp add: sample_started_def sample_wc_def wc_open_def)

definition sample_op :: "u256 \<Rightarrow> op" where
  "sample_op cap = \<lparr>op_ID = 0, op_Gas = 21000, op_GasFeeCap = cap, Burn = [], Mint = []\<rparr>"

theorem Apply_spec_witness:
  "\<not> op_admissible flat_statedb sample_started (sample_op 0)
   \<and> Apply flat_statedb (sample_op 0) sample_started = (Inl ErrFeeCapTooLow, sample_started)"
proof -
  have "blockSize sample_started \<le> maxBlockSize sample_started"
    using sample_started_open by (simp add: wc_open_def u64_le_iff)
  note spec = Apply_spec [OF this, of flat_statedb "sample_op 0"]
  have "fst (Apply flat_statedb (sample_op 0) sample_started) = Inl ErrFeeCapTooLow"
    by (simp add: Apply_def prog_simps sample_started_def sample_wc_def sample_op_def)
  then show ?thesis
    using spec by (cases "Apply flat_statedb (sample_op 0) sample_started") auto
qed

lemma sample_clock_inv: "gtime_inv sample_clock" "in_range sample_clock"
  by (simp_all add: sample_clock_def sample_gtime_def gtime_inv_def ptime_inv_def MinTarget_def
      u64_le_iff unat_MaxTarget rateOf_def TargetToRate_def config_ok_def in_range_def)

lemma flat_points_subsecond: "hooks_subsecond flat_points"
  by (simp add: hooks_subsecond_def flat_points_def time_Second_def)

lemma sample_run_block:
  "\<exists>b s'. run_block sample_env (\<lambda>m x k. max m x) flat_points flat_statedb sample_header
      [ItemOp (sample_op (- 1))] sample_wc = (Inr b, s') \<and> blockSize s' = 21000"
proof -
  let ?calc = "\<lambda>m x k :: u64. max m x"
  obtain clk where clk: "BeforeBlock flat_points sample_clock sample_header = Inr clk"
    "gtime_inv clk" "in_range clk" "target clk = target sample_clock"
    using BeforeBlock_in_range [OF sample_clock_inv flat_points_subsecond sample_header_in_range(1)]
      BeforeBlock_abs [OF sample_clock_inv(1) flat_points_subsecond sample_header_in_range(2)]
    by (metis Inr_inject)
  define s1 where "s1 = snd (StartBlock sample_env ?calc flat_points sample_header sample_wc)"
  have r1: "StartBlock sample_env ?calc flat_points sample_header sample_wc = (Inr (), s1)"
    using clk(1) by (simp add: s1_def StartBlock_def prog_simps sample_wc_def sample_header_def)
  have "unat (hertz (gt_time clk)) = 2000000"
    using gtime_inv_nat(3) [OF clk(2)] clk(4) by (simp add: sample_clock_def)
  then have "unat (safeMaxBlockSize clk) = 20000000" by (simp add: unat_safeMaxBlockSize)
  then have s1: "unat (maxBlockSize s1) = 20000000" "blockSize s1 = 0" "clock s1 = clk"
    "\<exists>bf. st_baseFee s1 = Some bf" "\<exists>h. curr s1 = Some h"
    using clk(1) by (simp_all add: s1_def StartBlock_def prog_simps sample_wc_def sample_header_def Let_def)
  then have "op_admissible flat_statedb s1 (sample_op (- 1))"
    by (auto simp: op_admissible_def sample_op_def op_affordable_def)
  then have r2: "Apply flat_statedb (sample_op (- 1)) s1 = (Inr (), op_applied flat_statedb (sample_op (- 1)) s1)"
    using Apply_value [of s1 flat_statedb "sample_op (- 1)"] s1 by (simp add: u64_le_iff)
  define s2 where "s2 = op_applied flat_statedb (sample_op (- 1)) s1"
  obtain h where s2: "clock s2 = clk" "blockSize s2 = 21000" "curr s2 = Some h" "\<exists>bf. st_baseFee s2 = Some bf"
    using s1 by (auto simp: s2_def op_applied_def sample_op_def)
  have "GasPriceConfig_Validate (snd (GasConfigAfter flat_points h)) = None"
    by (simp add: flat_points_def DefaultGasPriceConfig_def GasPriceConfig_Validate_def)
  then obtain clk' where "AfterBlock ?calc flat_points clk 21000 h = Inr (clk', None)"
    using after_clock_defined [OF clk(2,3), of flat_points h ?calc 21000]
    by (auto simp: after_clock_def res_bind_eq_Inr split: option.splits prod.splits)
  then show ?thesis
    using r1 r2 s2 by (auto simp: run_block_def prog_simps FinishBlock_def s2_def [symmetric])
qed

theorem closed_queue_bound_witness:
  "\<exists>b s'. run_block sample_env (\<lambda>m x k. max m x) flat_points flat_statedb sample_header
      [ItemOp (sample_op (- 1))] sample_wc = (Inr b, s')
    \<and> unat (qSize s') = 21000 \<and> unat (qSize s') \<le> 3 * unat (wc_GasLimit s')"
proof -
  obtain b s' where r: "run_block sample_env (\<lambda>m x k. max m x) flat_points flat_statedb sample_header
      [ItemOp (sample_op (- 1))] sample_wc = (Inr b, s')" "blockSize s' = 21000"
    using sample_run_block by blast
  then show ?thesis
    using closed_queue_bound [OF r(1)]
    by (simp add: sample_wc_def MaxFullBlocksInClosedQueue_def MaxFullBlocksInOpenQueue_def)
qed

theorem ApplyTx_covers_cost_witness:
  "\<exists>sdr s'. ApplyTx sample_env flat_points flat_statedb sample_tx sample_started = (Inr (), s')
    \<and> worst_cost sample_tx \<le> uint (GetBalance flat_statedb (st_db sample_started) sdr)
    \<and> unat (GetNonce flat_statedb (st_db s') sdr) = 1"
proof -
  let ?r = "ApplyTx sample_env flat_points flat_statedb sample_tx sample_started"
  have "fst ?r = Inr ()"
    by (simp add: ApplyTx_def Apply_def prog_simps sample_started_def sample_wc_def sample_env_def
        flat_statedb_def flat_points_def sample_tx_def txToOp_def bigToUint256_def SetFromBig_def
        mulAdd_def MulOverflow_def AddOverflow_def ApplyTo_def Let_def)
  then have r: "?r = (Inr (), snd ?r)" by (simp add: prod_eq_iff)
  have "tx_Nonce sample_tx = 0" by (simp add: sample_tx_def)
  then show ?thesis
    using ApplyTx_covers_cost [OF flat_statedb_laws sample_tx_wf sample_started_open r] r by force
qed

end
