(* ===== verification/Saedb.thy ===== *)
theory Saedb
  imports Settlement
begin

text \<open>
  Package \<^verbatim>\<open>saedb\<close> (\<^verbatim>\<open>src/saedb\<close>): when state tries are committed to disk, and the reference
  counts that keep them in memory. The trie database and the snapshot tree are third-party
  code; \<open>triedb\<close> collects the calls made on them, and the locale \<open>root_tracking\<close> states what
  the code relies on for in-memory roots: a root stays available while it has been
  referenced more often than dereferenced.
\<close>

section \<open>Commit heights\<close>

record db_config =
  Archival :: bool
  TrieCommitInterval :: u64

definition defaultCommitInterval :: u64 where
  "defaultCommitInterval = 4096"

definition CommitInterval :: "db_config \<Rightarrow> u64" where
  "CommitInterval c = (if TrieCommitInterval c = 0 then defaultCommitInterval else TrieCommitInterval c)"

definition ShouldCommitTrieDB :: "u64 \<Rightarrow> u64 \<Rightarrow> bool res" where
  "ShouldCommitTrieDB blockNum commitInterval =
     res_bind (go_mod blockNum commitInterval) (\<lambda>r. Inr (r = 0))"

definition LastCommittedTrieDBHeight :: "u64 \<Rightarrow> u64 \<Rightarrow> u64 res" where
  "LastCommittedTrieDBHeight atOrBefore commitInterval =
     res_bind (go_mod atOrBefore commitInterval) (\<lambda>r. Inr (atOrBefore - r))"

section \<open>The tracker\<close>

record 't triedb =
  td_Reference :: "hash \<Rightarrow> 't \<Rightarrow> go_error option \<times> 't"
  td_Dereference :: "hash \<Rightarrow> 't \<Rightarrow> go_error option \<times> 't"
  td_Commit :: "hash \<Rightarrow> 't \<Rightarrow> go_error option \<times> 't"
  td_Close :: "'t \<Rightarrow> go_error option \<times> 't"
  snaps_DiskRoot :: "'t \<Rightarrow> hash"
  snaps_Cap :: "hash \<Rightarrow> 't \<Rightarrow> go_error option \<times> 't"
  snaps_Release :: "'t \<Rightarrow> 't"

record 't tracker =
  cache :: 't
  isHashDB :: bool
  tr_config :: db_config
  tr_log :: "event list"

definition Track :: "'t triedb \<Rightarrow> hash \<Rightarrow> 't tracker \<Rightarrow> 't tracker" where
  "Track D r t =
     (if \<not> isHashDB t then t
      else let (err, c) = td_Reference D r (cache t)
           in t\<lparr>cache := c, tr_log := (case err of None \<Rightarrow> []
                  | Some _ \<Rightarrow> [EvLogError ''*triedb.Database.Reference()'']) @ tr_log t\<rparr>)"

definition Untrack :: "'t triedb \<Rightarrow> hash \<Rightarrow> 't tracker \<Rightarrow> 't tracker" where
  "Untrack D r t =
     (if \<not> isHashDB t then t
      else let (err, c) = td_Dereference D r (cache t)
           in t\<lparr>cache := c, tr_log := (case err of None \<Rightarrow> []
                  | Some _ \<Rightarrow> [EvLogError ''*triedb.Database.Dereference()'']) @ tr_log t\<rparr>)"

text \<open>The root that \<^verbatim>\<open>MaybeCommit\<close> decides to commit.\<close>

definition MaybeCommit_root :: "db_config \<Rightarrow> hash \<Rightarrow> hash \<Rightarrow> u64 \<Rightarrow> hash option res" where
  "MaybeCommit_root c settledRoot executionRoot height =
     (if Archival c then Inr (Some executionRoot)
      else res_bind (ShouldCommitTrieDB height (CommitInterval c)) (\<lambda>b.
             Inr (if b then Some settledRoot else None)))"

definition MaybeCommit :: "'t triedb \<Rightarrow> hash \<Rightarrow> hash \<Rightarrow> u64 \<Rightarrow> ('t tracker, unit) prog" where
  "MaybeCommit D settledRoot executionRoot height =
     mbind (mget (\<lambda>t. MaybeCommit_root (tr_config t) settledRoot executionRoot height)) (\<lambda>r.
     mbind (mlift r) (\<lambda>commit.
     case commit of
       None \<Rightarrow> mreturn ()
     | Some rt \<Rightarrow>
         mbind (mget (\<lambda>t. td_Commit D rt (cache t))) (\<lambda>(err, c).
         mbind (mmod (\<lambda>t. t\<lparr>cache := c\<rparr>)) (\<lambda>_.
         case err of Some _ \<Rightarrow> mfail (ErrOther ''Commit()'') | None \<Rightarrow> mreturn ()))))"

definition LastHeightWithExecutionRootCommitted :: "('kv, 'x, 'e) env_scheme \<Rightarrow> 'kv \<Rightarrow> db_config
    \<Rightarrow> ('db, 'a) points_scheme \<Rightarrow> u64 \<Rightarrow> u64 res" where
  "LastHeightWithExecutionRootCommitted E kv c H lastSynchronous =
     (case ReadHeadHeader E kv of
        None \<Rightarrow> Inl nil_deref
      | Some headHdr \<Rightarrow>
          let head = word_of_int (Number headHdr)
          in if head \<le> lastSynchronous then Inr lastSynchronous
             else if Archival c then Inr head
             else res_bind (LastCommittedTrieDBHeight head (CommitInterval c)) (\<lambda>num.
                  if num \<le> lastSynchronous then Inr lastSynchronous
                  else case ReadHeader E kv (ReadCanonicalHash E kv num) num of
                         None \<Rightarrow> Inl nil_deref
                       | Some h \<Rightarrow> Inr (SettledHeight H h)))"

text \<open>\<^verbatim>\<open>errors.Join\<close> drops nil errors and is nil when nothing remains.\<close>

definition errors_Join :: "go_error option list \<Rightarrow> go_error option" where
  "errors_Join es = (case List.map_filter id es of [] \<Rightarrow> None | xs \<Rightarrow> Some (Wrap xs))"

definition Tracker_Close :: "'t triedb \<Rightarrow> hash \<Rightarrow> 't tracker \<Rightarrow> go_error option \<times> 't tracker" where
  "Tracker_Close D lastRoot t =
     (let (capErr, c1) = (if lastRoot \<noteq> snaps_DiskRoot D (cache t) then snaps_Cap D lastRoot (cache t)
                          else (None, cache t));
          errs = (case capErr of None \<Rightarrow> None | Some _ \<Rightarrow> errors_Join [None, Some (ErrOther ''snapshot.Tree.Cap()'')]);
          c2 = snaps_Release D c1;
          (closeErr, c3) = td_Close D c2;
          errs = (case closeErr of None \<Rightarrow> errs
                  | Some _ \<Rightarrow> errors_Join [errs, Some (ErrOther ''triedb.Database.Close()'')])
      in (errs, t\<lparr>cache := c3\<rparr>))"

section \<open>Commit heights are the multiples of the interval\<close>

lemma CommitInterval_pos: "0 < unat (CommitInterval c)"
  by (auto simp: CommitInterval_def defaultCommitInterval_def unat_pos_iff)

lemma ShouldCommitTrieDB_iff:
  "i \<noteq> 0 \<Longrightarrow> ShouldCommitTrieDB n i = Inr (unat i dvd unat n)"
  by (simp add: ShouldCommitTrieDB_def go_mod_def u64_eq_iff unat_mod_u64 dvd_eq_mod_eq_0)

lemma LastCommittedTrieDBHeight_value:
  "i \<noteq> 0 \<Longrightarrow> \<exists>h. LastCommittedTrieDBHeight n i = Inr h \<and> unat h = unat n - unat n mod unat i"
  by (simp add: LastCommittedTrieDBHeight_def go_mod_def unat_sub_u64 unat_mod_u64 u64_le_iff)

text \<open>\<open>LastCommittedTrieDBHeight\<close> is the greatest height at or before its argument at which
  \<open>ShouldCommitTrieDB\<close> holds. Neither divides by zero with the interval of a configuration.\<close>

theorem LastCommittedTrieDBHeight_spec:
  "\<exists>h. LastCommittedTrieDBHeight n (CommitInterval c) = Inr h \<and> h \<le> n
    \<and> ShouldCommitTrieDB h (CommitInterval c) = Inr True
    \<and> (\<forall>h'. h < h' \<and> h' \<le> n \<longrightarrow> ShouldCommitTrieDB h' (CommitInterval c) = Inr False)"
proof -
  let ?i = "CommitInterval c"
  have i: "?i \<noteq> 0" using CommitInterval_pos [of c] by (simp add: unat_pos_iff)
  obtain h where h: "LastCommittedTrieDBHeight n ?i = Inr h" "unat h = unat n - unat n mod unat ?i"
    using LastCommittedTrieDBHeight_value [OF i] by blast
  have "unat ?i dvd unat h" by (simp add: h(2) minus_mod_eq_mult_div)
  moreover have "\<not> unat ?i dvd unat h'" if "h < h'" "h' \<le> n" for h'
  proof
    assume "unat ?i dvd unat h'"
    then obtain q where q: "unat h' = unat ?i * q" by (auto simp: dvd_def)
    have "unat ?i * (unat n div unat ?i) < unat ?i * q"
      using that(1) q h(2) by (simp add: u64_less_iff minus_mod_eq_mult_div)
    then have "unat ?i * (unat n div unat ?i + 1) \<le> unat ?i * q" by (intro mult_le_mono2) simp
    moreover have "unat n < unat ?i * (unat n div unat ?i + 1)"
      using CommitInterval_pos [of c] by (simp add: dividend_less_times_div)
    ultimately show False using that(2) q by (simp add: u64_le_iff)
  qed
  ultimately show ?thesis
    using h by (intro exI [of _ h]) (simp add: ShouldCommitTrieDB_iff [OF i] u64_le_iff)
qed

definition default_db_config :: db_config where
  "default_db_config = \<lparr>Archival = False, TrieCommitInterval = 0\<rparr>"

theorem LastCommittedTrieDBHeight_spec_witness:
  "LastCommittedTrieDBHeight 5000 (CommitInterval default_db_config) = Inr 4096
   \<and> ShouldCommitTrieDB 4096 (CommitInterval default_db_config) = Inr True
   \<and> ShouldCommitTrieDB 4097 (CommitInterval default_db_config) = Inr False"
proof -
  have i: "CommitInterval default_db_config = 4096"
    by (simp add: CommitInterval_def default_db_config_def defaultCommitInterval_def)
  obtain h where h: "LastCommittedTrieDBHeight 5000 4096 = Inr h" "ShouldCommitTrieDB h 4096 = Inr True"
    "\<forall>h'. h < h' \<and> h' \<le> 5000 \<longrightarrow> ShouldCommitTrieDB h' 4096 = Inr False"
    using LastCommittedTrieDBHeight_spec [of 5000 default_db_config] by (auto simp: i)
  then have "h = 4096" by (simp add: LastCommittedTrieDBHeight_def go_mod_def res_bind_def)
  then show ?thesis using h by (simp add: i)
qed



section \<open>Roots kept in memory\<close>

text \<open>
  The contract of root tracking: on states where it is in force (\<open>ok\<close>), tracking adds one
  reference to a root and untracking removes one.
\<close>

locale root_tracking =
  fixes track :: "hash \<Rightarrow> 's \<Rightarrow> 's"
    and untrack :: "hash \<Rightarrow> 's \<Rightarrow> 's"
    and refs :: "'s \<Rightarrow> hash \<Rightarrow> nat"
    and ok :: "'s \<Rightarrow> bool"
  assumes refs_track: "ok s \<Longrightarrow> refs (track r s) q = refs s q + (if q = r then 1 else 0)"
    and refs_untrack: "ok s \<Longrightarrow> refs (untrack r s) q = refs s q - (if q = r then 1 else 0)"
    and ok_track: "ok s \<Longrightarrow> ok (track r s)"
    and ok_untrack: "ok s \<Longrightarrow> ok (untrack r s)"
begin

lemma track_all:
  "ok s \<Longrightarrow> ok (fold track rs s) \<and> refs (fold track rs s) q = refs s q + count_list rs q"
  by (induction rs arbitrary: s) (auto simp: refs_track ok_track)

lemma untrack_all:
  "ok s \<Longrightarrow> ok (fold untrack rs s) \<and> refs (fold untrack rs s) q = refs s q - count_list rs q"
  by (induction rs arbitrary: s) (auto simp: refs_untrack ok_untrack)

text \<open>A root is available until it has been untracked as often as it was tracked.\<close>

lemma available_until_untracked:
  assumes "ok s" and "refs s q = 0"
  shows "refs (fold untrack us (fold track ts s)) q = count_list ts q - count_list us q"
proof -
  have "ok (fold track ts s)" "refs (fold track ts s) q = count_list ts q"
    using track_all [OF assms(1), of ts q] assms(2) by auto
  then show ?thesis using untrack_all [of "fold track ts s" us q] by simp
qed

end

text \<open>What the hash-based trie database documents of its reference counts.\<close>

definition triedb_laws :: "'t triedb \<Rightarrow> ('t \<Rightarrow> hash \<Rightarrow> nat) \<Rightarrow> bool" where
  "triedb_laws D rf \<longleftrightarrow>
     (\<forall>r c. fst (td_Reference D r c) = None \<and> fst (td_Dereference D r c) = None)
   \<and> (\<forall>r c q. rf (snd (td_Reference D r c)) q = rf c q + (if q = r then 1 else 0))
   \<and> (\<forall>r c q. rf (snd (td_Dereference D r c)) q = rf c q - (if q = r then 1 else 0))"

interpretation tracker_roots: root_tracking "Track D" "Untrack D" "\<lambda>t. rf (cache t)"
  "\<lambda>t. isHashDB t \<and> triedb_laws D rf"
  for D :: "'t triedb" and rf
  by unfold_locales (auto simp: Track_def Untrack_def triedb_laws_def split_beta)

text \<open>With a hash-based trie database, after any roots have been tracked and then any
  untracked, a root that was not referenced before has exactly as many references left as it
  was tracked more often than untracked, and nothing is logged.\<close>

theorem Track_available_until_untracked:
  assumes "isHashDB t" and "triedb_laws D rf" and "rf (cache t) q = 0"
  shows "rf (cache (fold (Untrack D) us (fold (Track D) ts t))) q = count_list ts q - count_list us q"
  using assms by (intro tracker_roots.available_until_untracked) simp_all

definition count_triedb :: "(hash \<Rightarrow> nat) triedb" where
  "count_triedb = \<lparr>td_Reference = (\<lambda>r c. (None, c(r := c r + 1))),
     td_Dereference = (\<lambda>r c. (None, c(r := c r - 1))), td_Commit = (\<lambda>_ c. (None, c)),
     td_Close = (\<lambda>c. (None, c)), snaps_DiskRoot = (\<lambda>_. 0), snaps_Cap = (\<lambda>_ c. (None, c)),
     snaps_Release = id\<rparr>"

lemma count_triedb_laws: "triedb_laws count_triedb id"
  by (simp add: triedb_laws_def count_triedb_def)

theorem Track_available_until_untracked_witness:
  "cache (fold (Untrack count_triedb) [5, 6] (fold (Track count_triedb) [5, 5]
     \<lparr>cache = (\<lambda>_. 0), isHashDB = True, tr_config = \<lparr>Archival = False, TrieCommitInterval = 0\<rparr>, tr_log = []\<rparr>)) 5 = 1"
  using Track_available_until_untracked [OF _ count_triedb_laws, of
      "\<lparr>cache = (\<lambda>_. 0), isHashDB = True, tr_config = \<lparr>Archival = False, TrieCommitInterval = 0\<rparr>, tr_log = []\<rparr>"
      5 "[5, 6]" "[5, 5]"]
  by simp

end
