(* ===== verification/SyncMap.thy ===== *)
theory SyncMap
  imports Saedb "HOL-Library.AList"
begin

text \<open>
  The two concurrent maps: \<^verbatim>\<open>syncMap\<close> of \<^verbatim>\<open>src/sae/sae.go\<close>, which runs a callback on every store
  and delete, and the bucketed \<^verbatim>\<open>syncMap\<close> of \<^verbatim>\<open>src/saexec/receipts.go\<close>, whose keys are spread
  over 256 locks by their first byte. Both provide the interface \<open>kv_store\<close>. For the second the
  sequence of lock operations of a multi-key write is part of the model.
\<close>

section \<open>The interface of a map\<close>

locale kv_store =
  fixes load :: "'m \<Rightarrow> 'k \<Rightarrow> 'v option"
    and store :: "'k \<Rightarrow> 'v \<Rightarrow> 'm \<Rightarrow> 'm"
    and delete :: "'k \<Rightarrow> 'm \<Rightarrow> 'm"
    and ok :: "'m \<Rightarrow> bool"
  assumes load_store: "ok m \<Longrightarrow> load (store k v m) = (load m)(k \<mapsto> v)"
    and load_delete: "ok m \<Longrightarrow> load (delete k m) = (load m)(k := None)"
    and ok_store: "ok m \<Longrightarrow> ok (store k v m)"
    and ok_delete: "ok m \<Longrightarrow> ok (delete k m)"
begin

lemma load_stores:
  "ok m \<Longrightarrow> ok (fold (\<lambda>k. store k (f k)) ks m)
    \<and> load (fold (\<lambda>k. store k (f k)) ks m) = (\<lambda>k. if k \<in> set ks then Some (f k) else load m k)"
  by (induction ks arbitrary: m) (auto simp: load_store ok_store fun_eq_iff)

lemma load_deletes:
  "ok m \<Longrightarrow> ok (fold delete ks m)
    \<and> load (fold delete ks m) = (\<lambda>k. if k \<in> set ks then None else load m k)"
  by (induction ks arbitrary: m) (auto simp: load_delete ok_delete fun_eq_iff)

end

section \<open>The map with callbacks (sae.go)\<close>

text \<open>The state on which the callbacks act travels with the map.\<close>

record ('k, 'v, 's) sync_map =
  sm_m :: "('k \<times> 'v) list"
  sm_state :: 's

definition newSyncMap :: "'s \<Rightarrow> ('k, 'v, 's) sync_map" where
  "newSyncMap s = \<lparr>sm_m = [], sm_state = s\<rparr>"

definition sm_Load :: "('k, 'v, 's) sync_map \<Rightarrow> 'k \<Rightarrow> 'v option" where
  "sm_Load m k = map_of (sm_m m) k"

definition sm_Store :: "('v \<Rightarrow> 's \<Rightarrow> 's) \<Rightarrow> 'k \<Rightarrow> 'v \<Rightarrow> ('k, 'v, 's) sync_map \<Rightarrow> ('k, 'v, 's) sync_map" where
  "sm_Store onStore k v m =
     (let m = m\<lparr>sm_state := onStore v (sm_state m)\<rparr>
      in m\<lparr>sm_m := AList.update k v (sm_m m)\<rparr>)"

definition sm_Delete :: "('v \<Rightarrow> 's \<Rightarrow> 's) \<Rightarrow> 'k \<Rightarrow> ('k, 'v, 's) sync_map \<Rightarrow> ('k, 'v, 's) sync_map" where
  "sm_Delete onDelete k m =
     (let m = (case map_of (sm_m m) k of Some v \<Rightarrow> m\<lparr>sm_state := onDelete v (sm_state m)\<rparr> | None \<Rightarrow> m)
      in m\<lparr>sm_m := AList.delete k (sm_m m)\<rparr>)"

interpretation sae_map: kv_store sm_Load "sm_Store onStore" "sm_Delete onDelete" "\<lambda>_. True"
  for onStore onDelete :: "'v \<Rightarrow> 's \<Rightarrow> 's"
  by unfold_locales
    (auto simp: sm_Load_def sm_Store_def sm_Delete_def Let_def update_conv' delete_conv' split: option.split)

section \<open>The bucketed map (receipts.go)\<close>

definition byte0 :: "hash \<Rightarrow> nat" where
  "byte0 k = k div 2 ^ 248 mod 256"

type_synonym 'v buckets = "nat \<Rightarrow> (hash \<times> 'v) list"

datatype lock_op = Lock nat | Unlock nat

definition receipts_newSyncMap :: "'v buckets" where
  "receipts_newSyncMap = (\<lambda>_. [])"

text \<open>
  The loop of \<^verbatim>\<open>writeMany\<close> after sorting, with the bucket whose lock is held; it returns the lock
  operations in order. The sort is by first byte only, and the order of keys with the same
  byte is undefined, so the loop takes the sorted list as its argument.
\<close>

fun writeMany_loop :: "((hash \<times> 'v) list \<Rightarrow> hash \<Rightarrow> (hash \<times> 'v) list) \<Rightarrow> nat option \<Rightarrow> hash list
    \<Rightarrow> 'v buckets \<Rightarrow> lock_op list \<times> 'v buckets" where
  "writeMany_loop fn held [] m = (case held of None \<Rightarrow> [] | Some b \<Rightarrow> [Unlock b], m)"
| "writeMany_loop fn held (k # ks) m =
     (let next = byte0 k;
          ops = (if held = Some next then []
                 else (case held of None \<Rightarrow> [] | Some b \<Rightarrow> [Unlock b]) @ [Lock next]);
          (ops', m') = writeMany_loop fn (Some next) ks (m(next := fn (m next) k))
      in (ops @ ops', m'))"

definition writeMany :: "((hash \<times> 'v) list \<Rightarrow> hash \<Rightarrow> (hash \<times> 'v) list) \<Rightarrow> hash list
    \<Rightarrow> 'v buckets \<Rightarrow> lock_op list \<times> 'v buckets" where
  "writeMany fn ks m = writeMany_loop fn None (sort_key byte0 ks) m"

definition StoreFromFunc :: "(hash \<Rightarrow> 'v) \<Rightarrow> hash list \<Rightarrow> 'v buckets \<Rightarrow> 'v buckets" where
  "StoreFromFunc fn ks m = snd (writeMany (\<lambda>data k. AList.update k (fn k) data) ks m)"

definition receipts_Delete :: "hash list \<Rightarrow> 'v buckets \<Rightarrow> 'v buckets" where
  "receipts_Delete ks m = snd (writeMany (\<lambda>data k. AList.delete k data) ks m)"

definition receipts_Load :: "'v buckets \<Rightarrow> hash \<Rightarrow> 'v option" where
  "receipts_Load m k = map_of (m (byte0 k)) k"

lemma writeMany_loop_fold:
  "snd (writeMany_loop fn held ks m) = fold (\<lambda>k m. m(byte0 k := fn (m (byte0 k)) k)) ks m"
  by (induction ks arbitrary: held m) (simp_all add: Let_def split_beta)

definition bucket_store :: "hash \<Rightarrow> 'v \<Rightarrow> 'v buckets \<Rightarrow> 'v buckets" where
  "bucket_store k v m = StoreFromFunc (\<lambda>_. v) [k] m"

definition bucket_delete :: "hash \<Rightarrow> 'v buckets \<Rightarrow> 'v buckets" where
  "bucket_delete k m = receipts_Delete [k] m"

interpretation receipts_map: kv_store receipts_Load bucket_store bucket_delete "\<lambda>_. True"
  by unfold_locales
    (auto simp: receipts_Load_def bucket_store_def bucket_delete_def StoreFromFunc_def receipts_Delete_def
      writeMany_def writeMany_loop_fold update_conv' delete_conv' fun_eq_iff Let_def)

lemma StoreFromFunc_fold: "StoreFromFunc fn ks m = fold (\<lambda>k. bucket_store k (fn k)) (sort_key byte0 ks) m"
proof -
  have "(\<lambda>k m. m(byte0 k := AList.update k (fn k) (m (byte0 k)))) = (\<lambda>k. bucket_store k (fn k))"
    by (simp add: bucket_store_def StoreFromFunc_def writeMany_def writeMany_loop_fold fun_eq_iff Let_def)
  then show ?thesis by (simp only: StoreFromFunc_def writeMany_def writeMany_loop_fold Let_def)
qed

lemma receipts_Delete_fold: "receipts_Delete ks (m :: 'v buckets) = fold bucket_delete (sort_key byte0 ks) m"
proof -
  have "(\<lambda>k (m :: 'v buckets). m(byte0 k := AList.delete k (m (byte0 k)))) = bucket_delete"
    by (simp add: bucket_delete_def receipts_Delete_def writeMany_def writeMany_loop_fold fun_eq_iff Let_def)
  from this [symmetric] show ?thesis
    by (simp only: receipts_Delete_def writeMany_def writeMany_loop_fold)
qed

text \<open>The bucketed map is a map: after a multi-key store every stored key, and no other, has
  its new value, and after a multi-key delete exactly the deleted keys are gone, whatever
  buckets the keys fall into and however often a key is repeated.\<close>

theorem receipts_map_spec:
  "receipts_Load (StoreFromFunc fn ks m) = (\<lambda>k. if k \<in> set ks then Some (fn k) else receipts_Load m k)
   \<and> receipts_Load (receipts_Delete ks m) = (\<lambda>k. if k \<in> set ks then None else receipts_Load m k)
   \<and> receipts_Load receipts_newSyncMap = Map.empty"
  using receipts_map.load_stores [where m = m and f = fn and ks = "sort_key byte0 ks"]
    receipts_map.load_deletes [where m = m and ks = "sort_key byte0 ks"]
  by (simp add: StoreFromFunc_fold receipts_Delete_fold receipts_newSyncMap_def receipts_Load_def [abs_def])

section \<open>Locking\<close>

text \<open>A discipline in which at most one lock is held, and is released before the next.\<close>

fun lock_ok :: "nat option \<Rightarrow> lock_op list \<Rightarrow> bool" where
  "lock_ok held [] \<longleftrightarrow> held = None"
| "lock_ok None (Lock b # ops) \<longleftrightarrow> lock_ok (Some b) ops"
| "lock_ok (Some b) (Unlock b' # ops) \<longleftrightarrow> b = b' \<and> lock_ok None ops"
| "lock_ok _ _ \<longleftrightarrow> False"

fun locked :: "lock_op list \<Rightarrow> nat list" where
  "locked [] = []"
| "locked (Lock b # ops) = b # locked ops"
| "locked (Unlock b # ops) = locked ops"

lemma locked_append: "locked (xs @ ys) = locked xs @ locked ys"
  by (induction xs rule: locked.induct) simp_all

lemma writeMany_loop_locks:
  "lock_ok held (fst (writeMany_loop fn held ks m))"
proof (induction ks arbitrary: held m)
  case Nil
  then show ?case by (cases held) simp_all
next
  case (Cons k ks)
  then show ?case by (cases held) (simp_all add: Let_def split_beta)
qed

lemma writeMany_loop_distinct:
  assumes "sorted (map byte0 ks)" and "\<forall>b. held = Some b \<longrightarrow> (\<forall>k\<in>set ks. b \<le> byte0 k)"
  shows "sorted_wrt (<) (locked (fst (writeMany_loop fn held ks m)))
     \<and> (\<forall>b\<in>set (locked (fst (writeMany_loop fn held ks m))). b < 256 \<and> (\<forall>h. held = Some h \<longrightarrow> h < b))"
  using assms
proof (induction ks arbitrary: held m)
  case Nil
  then show ?case by (cases held) simp_all
next
  case (Cons k ks)
  have lt: "byte0 k < 256" by (simp add: byte0_def)
  define nx where "nx = byte0 k"
  define m1 where "m1 = m(nx := fn (m nx) k)"
  obtain ops m' where r: "writeMany_loop fn (Some nx) ks m1 = (ops, m')" by fastforce
  have ih: "sorted_wrt (<) (locked ops) \<and> (\<forall>b\<in>set (locked ops). b < 256 \<and> nx < b)"
    using Cons.IH [of "Some nx" m1] Cons.prems(1) r by (simp add: nx_def)
  have "h \<le> nx" if "held = Some h" for h using Cons.prems(2) that by (simp add: nx_def)
  then show ?case
    using ih lt unfolding nx_def [symmetric] writeMany_loop.simps Let_def m1_def [symmetric] r
    by (cases held) (auto simp: locked_append r order_le_less)
qed

text \<open>A multi-key write holds at most one lock at a time, releases every lock it takes, and takes
  each bucket's lock at most once, so that the number of locks taken is bounded by the number
  of buckets and not by the number of keys.\<close>

theorem writeMany_locks:
  "lock_ok None (fst (writeMany fn ks m)) \<and> distinct (locked (fst (writeMany fn ks m)))
   \<and> length (locked (fst (writeMany fn ks m))) \<le> 256"
proof -
  let ?bs = "locked (fst (writeMany fn ks m))"
  have s: "sorted_wrt (<) ?bs" "\<forall>b\<in>set ?bs. b < 256"
    using writeMany_loop_distinct [of "sort_key byte0 ks" None fn m]
    by (auto simp: writeMany_def)
  have d: "distinct ?bs" using s(1) by (simp add: strict_sorted_iff)
  then have "length ?bs = card (set ?bs)" by (simp add: distinct_card)
  also have "\<dots> \<le> card {..<256 :: nat}" using s(2) by (intro card_mono) auto
  finally show ?thesis using d by (simp add: writeMany_def writeMany_loop_locks)
qed

end
