(* ===== verification/Saexec.thy ===== *)
theory Saexec
  imports Worstcase SyncMap
begin

text \<open>
  Package \<^verbatim>\<open>saexec\<close> (\<^verbatim>\<open>src/saexec\<close>): the executor, its FIFO queue and the execution of a block.

  \<open>exec_world\<close> adds the fields of \<^verbatim>\<open>Executor\<close> to the \<open>world\<close>; its last-executed pointer is the
  cell \<open>CellLastExecuted\<close>. \<open>evm\<close> collects what libevm and the header cache provide. An
  \<^verbatim>\<open>eventual.Value\<close> in the receipt map is an option that is \<open>None\<close> until a receipt is put.
  \<open>exec_step\<close> interleaves \<^verbatim>\<open>Enqueue\<close>, \<^verbatim>\<open>Close\<close>, the goroutine \<^verbatim>\<open>processQueue\<close> and the calls that
  consensus makes on blocks in the meantime.
\<close>

section \<open>What the executor calls\<close>

record 'db exec_points = "'db points" +
  BeforeExecutingBlock :: "eth_block \<Rightarrow> 'db \<Rightarrow> go_error option \<times> 'db"
  AfterExecutingBlock :: "eth_block \<Rightarrow> receipt list \<Rightarrow> 'db \<Rightarrow> go_error option \<times> 'db"

record ('db, 't, 'c) evm =
  OpenStateDB :: "hash \<Rightarrow> 't \<Rightarrow> 'db res"
  SetTxContext :: "hash \<Rightarrow> nat \<Rightarrow> 'db \<Rightarrow> 'db"
  ApplyTransaction :: "(hash \<Rightarrow> u64 \<Rightarrow> header option) \<Rightarrow> header \<Rightarrow> transaction \<Rightarrow> u64 \<Rightarrow> u64 \<Rightarrow> 'db
    \<Rightarrow> (receipt \<times> u64 \<times> u64 \<times> 'db) res"
  EffectiveGasTipValue :: "transaction \<Rightarrow> int \<Rightarrow> int"
  StateDB_Commit :: "u64 \<Rightarrow> 'db \<Rightarrow> 't \<Rightarrow> hash res \<times> 't"
  lru_Put :: "u64 \<Rightarrow> header \<Rightarrow> 'c \<Rightarrow> 'c"
  lru_Get :: "'c \<Rightarrow> u64 \<Rightarrow> header option"

section \<open>The executor\<close>

record tx_receipt =
  tr_Receipt :: receipt
  tr_Signer :: signer
  tr_Tx :: transaction

datatype feed_event =
    ChainHeadEvent eth_block
  | ChainEvent eth_block hash "log_entry list"
  | LogsEvent "log_entry list"

record ('kv, 'x, 't, 'c) exec_world = "('kv, 'x) world" +
  ex_tracker :: "'t tracker"
  queue :: "ptr list"
  queue_cap :: nat
  quit_closed :: bool
  done_closed :: bool
  receipt_map :: "tx_receipt option buckets"
  recent :: 'c
  feeds :: "feed_event list"

definition LastExecuted :: "('kv, 'x, 'z) world_scheme \<Rightarrow> ptr option" where
  "LastExecuted w = cells w CellLastExecuted"

text \<open>\<^verbatim>\<open>headers\<close> is the header source given to the constructor.\<close>

definition GetHeader :: "('kv, 'x, 'e) env_scheme \<Rightarrow> ('db, 't, 'c, 'v) evm_scheme \<Rightarrow> (hash \<Rightarrow> u64 \<Rightarrow> header option)
    \<Rightarrow> 'c \<Rightarrow> hash \<Rightarrow> u64 \<Rightarrow> header option" where
  "GetHeader E V headers rec h n =
     (case lru_Get V rec n of
        Some hdr \<Rightarrow> if HeaderHash E hdr = h then Some hdr else headers h n
      | None \<Rightarrow> headers h n)"

definition with_tracker :: "('t tracker, 'a) prog \<Rightarrow> (('kv, 'x, 't, 'c, 'z) exec_world_scheme, 'a) prog" where
  "with_tracker m = (\<lambda>w. case m (ex_tracker w) of (r, t) \<Rightarrow> (r, w\<lparr>ex_tracker := t\<rparr>))"

section \<open>Receipts (receipts.go)\<close>

definition createReceiptBuffers :: "ptr \<Rightarrow> (('kv, 'x, 't, 'c, 'z) exec_world_scheme, unit) prog" where
  "createReceiptBuffers b =
     mmod (\<lambda>w. w\<lparr>receipt_map := StoreFromFunc (\<lambda>_. None) (map tx_Hash (Transactions w b)) (receipt_map w)\<rparr>)"

text \<open>The clean-up that runs when the block is garbage collected.\<close>

definition receipt_cleanup :: "ptr \<Rightarrow> (('kv, 'x, 't, 'c, 'z) exec_world_scheme, unit) prog" where
  "receipt_cleanup b =
     mmod (\<lambda>w. w\<lparr>receipt_map := receipts_Delete (map tx_Hash (Transactions w b)) (receipt_map w)\<rparr>)"

text \<open>The possible results of \<^verbatim>\<open>RecentReceipt\<close>; none while it blocks.\<close>

definition RecentReceipt :: "('kv, 'x, 't, 'c, 'z) exec_world_scheme \<Rightarrow> bool \<Rightarrow> hash
    \<Rightarrow> (tx_receipt option \<times> bool \<times> go_error option) list" where
  "RecentReceipt w ctxDone tx =
     (case receipts_Load (receipt_map w) tx of
        None \<Rightarrow> [(None, False, None)]
      | Some v \<Rightarrow> (if ctxDone then [(None, True, Some ErrContextDone)] else []) @
                 (case v of None \<Rightarrow> [] | Some r \<Rightarrow> [(Some r, True, None)]))"

datatype receipt_store = ExecutorReceipts | NullReceiptStore

definition ReceiptStore_Load :: "receipt_store \<Rightarrow> ('kv, 'x, 't, 'c, 'z) exec_world_scheme \<Rightarrow> hash \<Rightarrow> tx_receipt option option" where
  "ReceiptStore_Load rs w h =
     (case rs of NullReceiptStore \<Rightarrow> None | ExecutorReceipts \<Rightarrow> receipts_Load (receipt_map w) h)"

definition put_receipt :: "receipt_store \<Rightarrow> hash \<Rightarrow> tx_receipt
    \<Rightarrow> (('kv, 'x, 't, 'c, 'z) exec_world_scheme, unit) prog" where
  "put_receipt rs h r =
     mmod (\<lambda>w. case ReceiptStore_Load rs w h of
       None \<Rightarrow> w
     | Some _ \<Rightarrow> w\<lparr>receipt_map := bucket_store h (Some r) (receipt_map w)\<rparr>)"

section \<open>Execution of a block (execution.go)\<close>

record 'db exec_loop =
  lp_db :: 'db
  gasPool :: u64
  blockGasConsumed :: gas
  perTxClock :: ptime

definition log_all :: "event list \<Rightarrow> ('kv, 'x, 'z) world_scheme \<Rightarrow> ('kv, 'x, 'z) world_scheme" where
  "log_all evs w = fold emit evs w"

definition fix_receipt :: "hash \<Rightarrow> int \<Rightarrow> receipt \<Rightarrow> receipt" where
  "fix_receipt bh price r = r\<lparr>r_BlockHash := bh, r_Logs := map (\<lambda>l. l\<lparr>l_BlockHash := bh\<rparr>) (r_Logs r),
     r_EffectiveGasPrice := Some price\<rparr>"

text \<open>The body of the loop over the transactions.\<close>

definition Execute_tx :: "('kv, 'x, 'e) env_scheme \<Rightarrow> 'db statedb \<Rightarrow> ('db, 't, 'c, 'v) evm_scheme
    \<Rightarrow> (hash \<Rightarrow> u64 \<Rightarrow> header option) \<Rightarrow> receipt_store \<Rightarrow> ptr \<Rightarrow> header \<Rightarrow> int \<Rightarrow> signer \<Rightarrow> nat \<Rightarrow> transaction
    \<Rightarrow> 'db exec_loop \<Rightarrow> (('kv, 'x, 't, 'c, 'z) exec_world_scheme, receipt \<times> 'db exec_loop) prog" where
  "Execute_tx E S V chainCtx rstore b hdr baseFee sig ti tx lp =
     (let db = SetTxContext V (tx_Hash tx) ti (lp_db lp) in
     mbind (mmod (\<lambda>w. log_all (CheckSenderBalanceBound E (WorstCaseBounds w b) (GetBalance S db) ti sig tx) w)) (\<lambda>_.
     case ApplyTransaction V chainCtx hdr tx (gasPool lp) (blockGasConsumed lp) db of
       Inl _ \<Rightarrow> mfail (Wrap [ErrFatal])
     | Inr (receipt, pool, used, db) \<Rightarrow>
         mbind (mlift (proxytime_Tick (perTxClock lp) (r_GasUsed receipt))) (\<lambda>clk.
         mbind (SetInterimExecutionTime b clk) (\<lambda>_.
         mbind (mget (\<lambda>w. Hash E w b)) (\<lambda>bh.
         let tip = EffectiveGasTipValue V tx baseFee;
             receipt = fix_receipt bh (baseFee + tip) receipt
         in mbind (put_receipt rstore (tx_Hash tx) \<lparr>tr_Receipt = receipt, tr_Signer = sig, tr_Tx = tx\<rparr>) (\<lambda>_.
            mreturn (receipt, \<lparr>lp_db = db, gasPool = pool, blockGasConsumed = used, perTxClock = clk\<rparr>)))))))"

fun Execute_txs :: "('kv, 'x, 'e) env_scheme \<Rightarrow> 'db statedb \<Rightarrow> ('db, 't, 'c, 'v) evm_scheme
    \<Rightarrow> (hash \<Rightarrow> u64 \<Rightarrow> header option) \<Rightarrow> receipt_store \<Rightarrow> ptr \<Rightarrow> header \<Rightarrow> int \<Rightarrow> signer \<Rightarrow> nat \<Rightarrow> transaction list
    \<Rightarrow> 'db exec_loop \<Rightarrow> (('kv, 'x, 't, 'c, 'z) exec_world_scheme, receipt list \<times> 'db exec_loop) prog" where
  "Execute_txs E S V chainCtx rstore b hdr baseFee sig ti [] lp = mreturn ([], lp)"
| "Execute_txs E S V chainCtx rstore b hdr baseFee sig ti (tx # txs) lp =
     mbind (Execute_tx E S V chainCtx rstore b hdr baseFee sig ti tx lp) (\<lambda>(r, lp).
     mbind (Execute_txs E S V chainCtx rstore b hdr baseFee sig (Suc ti) txs lp) (\<lambda>(rs, lp).
     mreturn (r # rs, lp)))"

text \<open>The loop over the end-of-block operations; \<open>i\<close> counts from the number of transactions.\<close>

fun Execute_ops :: "'db statedb \<Rightarrow> ptr \<Rightarrow> nat \<Rightarrow> op list \<Rightarrow> 'db exec_loop
    \<Rightarrow> (('kv, 'x, 'z) world_scheme, 'db exec_loop) prog" where
  "Execute_ops S b i [] lp = mreturn lp"
| "Execute_ops S b i (o1 # ops) lp =
     mbind (mmod (\<lambda>w. log_all (CheckOpBurnerBalanceBounds (WorstCaseBounds w b) (GetBalance S (lp_db lp)) i o1) w)) (\<lambda>_.
     mbind (mlift (proxytime_Tick (perTxClock lp) (op_Gas o1))) (\<lambda>clk.
     mbind (SetInterimExecutionTime b clk) (\<lambda>_.
     case ApplyTo S o1 (lp_db lp) of
       (Some _, _) \<Rightarrow> mfail (Wrap [ErrFatal])
     | (None, db) \<Rightarrow>
         Execute_ops S b (Suc i) ops
           (lp\<lparr>lp_db := db, blockGasConsumed := blockGasConsumed lp + op_Gas o1, perTxClock := clk\<rparr>))))"

record 'db execution_outputs =
  xr_BaseFee :: u256
  xr_StateDB :: 'db
  xr_Signer :: signer
  xr_BlockCtx :: header
  xr_Receipts :: "receipt list"
  FinishBy_Gas :: gtime
  FinishBy_Wall :: gotime

definition hook_err :: "go_error option \<times> 'db \<Rightarrow> go_error \<Rightarrow> 'db res" where
  "hook_err r err = (case r of (Some _, _) \<Rightarrow> Inl err | (None, db) \<Rightarrow> Inr db)"

text \<open>\<open>maxNumTxs\<close> is \<open>None\<close> for \<^verbatim>\<open>math.MaxInt\<close>; \<open>now\<close> is the wall-clock time at the end.\<close>

definition Execute :: "('kv, 'x, 'e) env_scheme \<Rightarrow> price_fun \<Rightarrow> ('db, 'a) exec_points_scheme \<Rightarrow> 'db statedb
    \<Rightarrow> ('db, 't, 'c, 'v) evm_scheme \<Rightarrow> (hash \<Rightarrow> 'db res) \<Rightarrow> (hash \<Rightarrow> u64 \<Rightarrow> header option) \<Rightarrow> receipt_store
    \<Rightarrow> nat option \<Rightarrow> gotime \<Rightarrow> ptr \<Rightarrow> (('kv, 'x, 't, 'c, 'z) exec_world_scheme, 'db execution_outputs) prog" where
  "Execute E calc H S V openDB chainCtx rstore maxNumTxs now b =
     mbind (mget (\<lambda>w. deref (ParentBlock w b))) (\<lambda>p.
     mbind (mlift p) (\<lambda>parent.
     mbind (mget (\<lambda>w. ExecutedByGasTime w parent)) (\<lambda>g.
     mbind (mlift g) (\<lambda>g.
     mbind (mget (\<lambda>w. EthBlock w b)) (\<lambda>eb.
     mbind (mlift (BeforeBlock H (gastime_Clone g) (eb_header eb))) (\<lambda>gasClock.
     mbind (mget (\<lambda>w. PostExecutionStateRoot w parent)) (\<lambda>rt.
     mbind (mlift rt) (\<lambda>rt.
     mbind (mlift (openDB rt)) (\<lambda>db.
     mbind (mlift (hook_err (BeforeExecutingBlock H eb db) (ErrOther ''before-block hook''))) (\<lambda>db.
     let baseFee = gastime_BaseFee calc gasClock;
         hdr = (eb_header eb)\<lparr>BaseFee := Some (uint baseFee)\<rparr>;
         txs = (case maxNumTxs of None \<Rightarrow> eb_txs eb | Some m \<Rightarrow> take m (eb_txs eb))
     in
     mbind (mmod (\<lambda>w. log_all (CheckBaseFeeBound (WorstCaseBounds w b) baseFee) w)) (\<lambda>_.
     mbind (mget (\<lambda>w. Signer w b)) (\<lambda>sig.
     mbind (Execute_txs E S V chainCtx rstore b hdr (uint baseFee) sig 0 txs
       \<lparr>lp_db = db, gasPool = MaxUint64, blockGasConsumed = 0, perTxClock = proxytime_Clone (gt_time gasClock)\<rparr>)
       (\<lambda>(receipts, lp).
     mbind (mmap_err (\<lambda>_. Wrap [ErrFatal]) (mlift (EndOfBlockOps H eb))) (\<lambda>ops.
     mbind (Execute_ops S b (length (eb_txs eb)) ops lp) (\<lambda>lp.
     mbind (mlift (hook_err (AfterExecutingBlock H eb receipts (lp_db lp)) (ErrOther ''after-block hook''))) (\<lambda>db.
     mbind (mlift (AfterBlock calc H gasClock (blockGasConsumed lp) (eb_header eb))) (\<lambda>(gasClock, err).
     case err of
       Some e \<Rightarrow> mfail (Wrap [e])
     | None \<Rightarrow> mreturn \<lparr>xr_BaseFee = baseFee, xr_StateDB = db, xr_Signer = sig, xr_BlockCtx = hdr,
                 xr_Receipts = receipts, FinishBy_Gas = gasClock, FinishBy_Wall = now\<rparr>)))))))))))))))))"

definition sendPostExecutionEvents :: "('kv, 'x, 'e) env_scheme \<Rightarrow> eth_block \<Rightarrow> receipt list
    \<Rightarrow> (('kv, 'x, 't, 'c, 'z) exec_world_scheme, unit) prog" where
  "sendPostExecutionEvents E eb receipts =
     (let logs = concat (map r_Logs receipts)
      in mmod (\<lambda>w. w\<lparr>feeds := feeds w @
           [ChainHeadEvent eb, ChainEvent eb (HeaderHash E (eb_header eb)) logs, LogsEvent logs]\<rparr>))"

text \<open>\<open>EvSendExecuted\<close> records the broadcast in the trace.\<close>

definition afterExecution :: "('kv, 'x, 'e) env_scheme \<Rightarrow> 't triedb \<Rightarrow> ('db, 't, 'c, 'v) evm_scheme \<Rightarrow> ptr
    \<Rightarrow> 'db execution_outputs \<Rightarrow> (('kv, 'x, 't, 'c, 'z) exec_world_scheme, unit) prog" where
  "afterExecution E D V b r =
     mbind (mmod (\<lambda>w. w\<lparr>recent := lru_Put V (NumberU64 w b) (Header w b) (recent w)\<rparr>)) (\<lambda>_.
     mbind (mget (\<lambda>w. (NumberU64 w b, SettledStateRoot w b, EthBlock w b))) (\<lambda>(num, settledRoot, eb).
     mbind (mmap_err (\<lambda>e. Wrap [e]) (with_tracker (\<lambda>t.
       case StateDB_Commit V num (xr_StateDB r) (cache t) of (rt, c) \<Rightarrow> (rt, t\<lparr>cache := c\<rparr>)))) (\<lambda>rt.
     mbind (with_tracker (MaybeCommit D settledRoot rt num)) (\<lambda>_.
     mbind (with_tracker (mmod (Track D rt))) (\<lambda>_.
     mbind (MarkExecuted E b (gastime_Clone (FinishBy_Gas r)) (FinishBy_Wall r) (Some (uint (xr_BaseFee r)))
       (xr_Receipts r) rt (Some CellLastExecuted)) (\<lambda>_.
     mbind (mmod (emit (EvSendExecuted b))) (\<lambda>_.
     sendPostExecutionEvents E eb (xr_Receipts r))))))))"

definition execute :: "('kv, 'x, 'e) env_scheme \<Rightarrow> price_fun \<Rightarrow> ('db, 'a) exec_points_scheme \<Rightarrow> 'db statedb
    \<Rightarrow> 't triedb \<Rightarrow> ('db, 't, 'c, 'v) evm_scheme \<Rightarrow> (hash \<Rightarrow> u64 \<Rightarrow> header option) \<Rightarrow> gotime \<Rightarrow> ptr
    \<Rightarrow> (('kv, 'x, 't, 'c, 'z) exec_world_scheme, unit) prog" where
  "execute E calc H S D V headers now b =
     mbind (mget (\<lambda>w. deref (LastExecuted w))) (\<lambda>l.
     mbind (mlift l) (\<lambda>l.
     mbind (mget (\<lambda>w. Hash E w l = Block_ParentHash w b)) (\<lambda>consecutive.
     mbind (mguard consecutive (ErrOther ''executing block built on parent when last executed'')) (\<lambda>_.
     mbind (mget (\<lambda>w. (\<lambda>rt. OpenStateDB V rt (cache (ex_tracker w)), GetHeader E V headers (recent w)))) (\<lambda>(openDB, chainCtx).
     mbind (Execute E calc H S V openDB chainCtx ExecutorReceipts None now b) (\<lambda>result.
     afterExecution E D V b result))))))"

section \<open>The queue\<close>

text \<open>
  The outcomes of the \<^verbatim>\<open>select\<close> of \<^verbatim>\<open>Enqueue\<close> that are ready, after the receipt buffers were
  created; none while it blocks.
\<close>

definition Enqueue_push :: "ptr \<Rightarrow> (('kv, 'x, 't, 'c, 'z) exec_world_scheme, unit) prog" where
  "Enqueue_push b =
     mbind (mmod (\<lambda>w. emit (EvEnqueue b) (w\<lparr>queue := queue w @ [b]\<rparr>))) (\<lambda>_.
     mmod (\<lambda>w. if length (queue w) = queue_cap w
       then emit (EvLogWarn ''Execution queue buffer full'') w else w))"

definition Enqueue :: "ptr \<Rightarrow> bool \<Rightarrow> ('kv, 'x, 't, 'c, 'z) exec_world_scheme
    \<Rightarrow> (unit res \<times> ('kv, 'x, 't, 'c, 'z) exec_world_scheme) list" where
  "Enqueue b ctxDone w =
     (let w = snd (createReceiptBuffers b w)
      in (if length (queue w) < queue_cap w then [Enqueue_push b w] else []) @
         (if ctxDone then [(Inl ErrContextDone, w)] else []) @
         (if quit_closed w then [(Inl ErrExecutorClosed, w)] else []) @
         (if done_closed w then [(Inl ErrExecutorClosed, w)] else []))"

text \<open>
  One iteration of \<^verbatim>\<open>processQueue\<close>, one result for each ready case of its \<^verbatim>\<open>select\<close>. A panic in
  \<^verbatim>\<open>execute\<close> ends the process and a blocked call the iteration, so neither has a result.
\<close>

fun stops :: "go_error \<Rightarrow> bool" where
  "stops (Panic _) \<longleftrightarrow> True"
| "stops Blocked \<longleftrightarrow> True"
| "stops _ \<longleftrightarrow> False"

definition processQueue_iter :: "('kv, 'x, 'e) env_scheme \<Rightarrow> price_fun \<Rightarrow> ('db, 'a) exec_points_scheme \<Rightarrow> 'db statedb
    \<Rightarrow> 't triedb \<Rightarrow> ('db, 't, 'c, 'v) evm_scheme \<Rightarrow> (hash \<Rightarrow> u64 \<Rightarrow> header option) \<Rightarrow> gotime
    \<Rightarrow> ('kv, 'x, 't, 'c, 'z) exec_world_scheme \<Rightarrow> ('kv, 'x, 't, 'c, 'z) exec_world_scheme list" where
  "processQueue_iter E calc H S D V headers now w =
     (if done_closed w then []
      else (if quit_closed w then [w\<lparr>done_closed := True\<rparr>] else []) @
           (case queue w of
              [] \<Rightarrow> []
            | b # bs \<Rightarrow>
                (case execute E calc H S D V headers now b (w\<lparr>queue := bs\<rparr>) of
                   (Inl err, w') \<Rightarrow>
                     if stops err then []
                     else [(emit (if errors_Is err ErrFatal then EvLogFatal ''Block execution failed''
                             else EvLogError ''Error of unknown severity in block execution'') w')
                        \<lparr>done_closed := True\<rparr>]
                 | (Inr _, w') \<Rightarrow> [w'])))"

text \<open>\<^verbatim>\<open>Close\<close>: the part before waiting for \<^verbatim>\<open>done\<close>, and the part after it.\<close>

definition Close_quit :: "(('kv, 'x, 't, 'c, 'z) exec_world_scheme, unit) prog" where
  "Close_quit =
     mbind (mget quit_closed) (\<lambda>q.
     mbind (mguard (\<not> q) (Panic ''close of closed channel'')) (\<lambda>_.
     mmod (\<lambda>w. w\<lparr>quit_closed := True\<rparr>)))"

definition Close_tracker :: "'t triedb \<Rightarrow> (('kv, 'x, 't, 'c, 'z) exec_world_scheme, unit) prog" where
  "Close_tracker D =
     mbind (mget done_closed) (\<lambda>d.
     mbind (mguard d Blocked) (\<lambda>_.
     mbind (mget (\<lambda>w. res_bind (deref (LastExecuted w)) (PostExecutionStateRoot w))) (\<lambda>rt.
     mbind (mlift rt) (\<lambda>rt.
     mbind (mget (\<lambda>w. Tracker_Close D rt (ex_tracker w))) (\<lambda>(err, t).
     mbind (mmod (\<lambda>w. w\<lparr>ex_tracker := t\<rparr>)) (\<lambda>_.
     case err of Some e \<Rightarrow> mfail e | None \<Rightarrow> mreturn ()))))))"

text \<open>
  \<^verbatim>\<open>New\<close>, given the tracker that \<^verbatim>\<open>NewTracker\<close> returned. Nobody shares the last-executed pointer
  yet, so its first value is not an event of the trace.
\<close>

definition saexec_New :: "'t tracker \<Rightarrow> 'c \<Rightarrow> ptr \<Rightarrow> ('kv, 'x) world
    \<Rightarrow> ('kv, 'x, 't, 'c) exec_world" where
  "saexec_New t lru lastExecuted w =
     world.extend (w\<lparr>cells := (cells w)(CellLastExecuted := Some lastExecuted)\<rparr>)
       \<lparr>ex_tracker = t, queue = [], queue_cap = unat (2 * CommitInterval (tr_config t)),
        quit_closed = False, done_closed = False, receipt_map = receipts_newSyncMap, recent = lru,
        feeds = []\<rparr>"

section \<open>What execution leaves alone\<close>

text \<open>
  Until it marks the block executed, execution changes of the shared state only the interim
  execution time of that block, and logs.
\<close>

fun is_log :: "event \<Rightarrow> bool" where
  "is_log (EvLogWarn _) \<longleftrightarrow> True"
| "is_log (EvLogError _) \<longleftrightarrow> True"
| "is_log (EvLogFatal _) \<longleftrightarrow> True"
| "is_log _ \<longleftrightarrow> False"

definition quiet :: "ptr \<Rightarrow> ('kv, 'x, 't, 'c, 'z) exec_world_scheme \<Rightarrow> ('kv, 'x, 't, 'c, 'z) exec_world_scheme \<Rightarrow> bool" where
  "quiet b w w' \<longleftrightarrow>
     cells w' = cells w \<and> fresh w' = fresh w \<and> kvdb w' = kvdb w \<and> xdb w' = xdb w
     \<and> queue w' = queue w \<and> queue_cap w' = queue_cap w \<and> quit_closed w' = quit_closed w
     \<and> done_closed w' = done_closed w \<and> feeds w' = feeds w
     \<and> (\<exists>t. heap w' = (heap w)(b := (heap w b)\<lparr>interimExecutionTime := t\<rparr>))
     \<and> (\<exists>ls. trace w' = ls @ trace w \<and> list_all is_log ls)"

lemma quiet_refl: "quiet b w w"
  unfolding quiet_def by (auto intro!: exI [of _ "interimExecutionTime (heap w b)"])

lemma quiet_trans: "quiet b w w' \<Longrightarrow> quiet b w' w'' \<Longrightarrow> quiet b w w''"
  unfolding quiet_def by fastforce

lemma preserves_quiet_mmod: "(\<And>v. quiet b v (f v)) \<Longrightarrow> preserves (quiet b w) (mmod f)"
  by (auto intro!: preserves_mmod elim: quiet_trans)

lemma quiet_emit: "is_log ev \<Longrightarrow> quiet b w (emit ev w)"
  using quiet_refl [of b w] by (auto simp: quiet_def emit_def)

lemma quiet_log_all: "list_all is_log evs \<Longrightarrow> quiet b w (log_all evs w)"
proof (induction evs arbitrary: w)
  case (Cons ev evs)
  then show ?case by (auto simp: log_all_def intro: quiet_trans quiet_emit)
qed (simp add: log_all_def quiet_refl)

lemma checkBalanceBounds_logs: "list_all is_log (checkBalanceBounds bs bal i as)"
  by (auto simp: checkBalanceBounds_def Let_def list_all_iff split: option.splits if_splits)

lemma checks_are_logs:
  "list_all is_log (CheckBaseFeeBound bs f)"
  "list_all is_log (CheckSenderBalanceBound E bs bal i sig tx)"
  "list_all is_log (CheckOpBurnerBalanceBounds bs bal i o1)"
  by (simp_all add: CheckBaseFeeBound_def CheckSenderBalanceBound_def CheckOpBurnerBalanceBounds_def
      checkBalanceBounds_logs split: option.split sum.split)

lemma quiet_interim: "preserves (quiet b w) (SetInterimExecutionTime b t)"
  by (auto simp: SetInterimExecutionTime_def upd_blk_def quiet_def intro!: preserves_quiet_mmod)

lemma quiet_put_receipt: "preserves (quiet b w) (put_receipt rs h r)"
  using quiet_refl [of b]
  by (auto simp: put_receipt_def quiet_def split: option.splits intro!: preserves_quiet_mmod)

lemma quiet_recent: "quiet b w (w\<lparr>recent := c\<rparr>)"
  using quiet_refl [of b w] by (simp add: quiet_def)

lemma quiet_with_tracker: "preserves (quiet b w) (with_tracker m)"
  by (auto simp: preserves_def with_tracker_def quiet_def split: prod.splits)

lemmas quiet_rules = preserves_rules quiet_interim quiet_put_receipt quiet_with_tracker
  preserves_quiet_mmod quiet_log_all checks_are_logs

lemma quiet_Execute_txs:
  "preserves (quiet b w) (Execute_txs E S V cc rs b hdr bf sig ti txs lp)"
  by (induction txs arbitrary: ti lp)
    (auto simp: Execute_tx_def Let_def intro!: quiet_rules)

lemma quiet_Execute_ops: "preserves (quiet b w) (Execute_ops S b i ops lp)"
  by (induction ops arbitrary: i lp) (auto intro!: quiet_rules)

lemma quiet_Execute:
  "preserves (quiet b w) (Execute E calc H S V openDB cc rs m now b)"
  unfolding Execute_def Let_def
  by (intro quiet_rules quiet_Execute_txs quiet_Execute_ops)

lemma quiet_mbind_Inr:
  assumes "mbind m f w = (r, w')" and "preserves (quiet b w) m"
  obtains (fail) e where "r = Inl e" and "quiet b w w'"
  | (continue) x w1 where "m w = (Inr x, w1)" and "quiet b w w1" and "f x w1 = (r, w')"
proof -
  obtain r1 w1 where m: "m w = (r1, w1)" by fastforce
  then have "quiet b w w1" using preservesD [OF assms(2) quiet_refl] by blast
  then show ?thesis using that m assms(1) by (cases r1) (auto simp: mbind_def)
qed

section \<open>First in, first out\<close>

text \<open>The blocks pushed to the queue, and the blocks marked executed, oldest first.\<close>

fun enqueued :: "event list \<Rightarrow> ptr list" where
  "enqueued [] = []"
| "enqueued (ev # past) = enqueued past @ (case ev of EvEnqueue b \<Rightarrow> [b] | _ \<Rightarrow> [])"

fun executed_seq :: "event list \<Rightarrow> ptr list" where
  "executed_seq [] = []"
| "executed_seq (ev # past) =
     executed_seq past @ (case ev of EvStore CellLastExecuted b _ \<Rightarrow> [b] | _ \<Rightarrow> [])"

fun hash_chain :: "('kv, 'x, 'e) env_scheme \<Rightarrow> ('kv, 'x, 'z) world_scheme \<Rightarrow> ptr list \<Rightarrow> bool" where
  "hash_chain E w (a # b # bs) \<longleftrightarrow> Hash E w a = Block_ParentHash w b \<and> hash_chain E w (b # bs)"
| "hash_chain E w _ \<longleftrightarrow> True"

lemma hash_chain_snoc:
  "hash_chain E w (xs @ [b]) \<longleftrightarrow> hash_chain E w xs
     \<and> (xs = [] \<or> Hash E w (last xs) = Block_ParentHash w b)"
  by (induction E w xs rule: hash_chain.induct) auto

lemma hash_chain_cong:
  assumes "\<And>b. b \<in> set bs \<Longrightarrow> eth (heap w' b) = eth (heap w b)"
  shows "hash_chain E w' bs = hash_chain E w bs"
  using assms by (induction E w bs rule: hash_chain.induct) (auto simp: accessor_defs)

lemma seqs_logs:
  "list_all is_log ls \<Longrightarrow> enqueued (ls @ tr) = enqueued tr \<and> executed_seq (ls @ tr) = executed_seq tr
    \<and> (ordered (ls @ tr) \<longleftrightarrow> ordered tr)"
proof (induction ls)
  case (Cons ev ls)
  then show ?case by (cases ev) simp_all
qed simp

lemma more_fields:
  fixes w w' :: "('kv, 'x, 't, 'c, 'z) exec_world_scheme"
  assumes "world.more w' = world.more w"
  shows "queue w' = queue w" "queue_cap w' = queue_cap w" "done_closed w' = done_closed w"
    "quit_closed w' = quit_closed w" "feeds w' = feeds w" "receipt_map w' = receipt_map w"
  using assms by (cases w; cases w'; simp)+

text \<open>\<open>MarkExecuted\<close> as the executor calls it.\<close>

lemma markExecuted_summary:
  assumes inv: "heap_inv E w" "b < fresh w"
    and run: "markExecuted E b batch e True (Some CellLastExecuted) w = (r, w')"
  shows "world.more w' = world.more w \<and> fresh w' = fresh w \<and> enqueued (trace w') = enqueued (trace w)
    \<and> (case r of
         Inl _ \<Rightarrow> heap w' = heap w \<and> cells w' = cells w \<and> executed_seq (trace w') = executed_seq (trace w)
       | Inr _ \<Rightarrow> execution (heap w b) = None
           \<and> heap w' = (heap w)(b := (heap w b)\<lparr>execution := Some e, executed_closed := True\<rparr>)
           \<and> cells w' = (cells w)(CellLastExecuted \<mapsto> b)
           \<and> executed_seq (trace w') = executed_seq (trace w) @ [b]
           \<and> EvCloseExecuted b (Some CellLastExecuted) \<in> set (trace w'))"
proof (cases r)
  case (Inr u)
  show ?thesis
    by (rule markExecuted_Inr [OF run [unfolded Inr]])
      (simp add: Inr executed_world_def announce_def emit_def upd_blk_def store_cell_def)
next
  case (Inl err)
  obtain r1 w1 where d: "markExecutedOnDisk E b batch e True w = (r1, w1)" by fastforce
  have w1: "world.more w1 = world.more w \<and> fresh w1 = fresh w \<and> heap w1 = heap w \<and> cells w1 = cells w
    \<and> enqueued (trace w1) = enqueued (trace w) \<and> executed_seq (trace w1) = executed_seq (trace w)"
    using d by (cases rule: markExecutedOnDisk_cases) auto
  obtain r2 w2 where m: "markExecutedAfterDiskArtefacts E b e (Some CellLastExecuted) w1 = (r2, w2)" by fastforce
  have "world.more w2 = world.more w \<and> fresh w2 = fresh w \<and> heap w2 = heap w \<and> cells w2 = cells w
    \<and> enqueued (trace w2) = enqueued (trace w) \<and> executed_seq (trace w2) = executed_seq (trace w)"
    if "r2 = Inl err2" for err2
    using m by (cases rule: markExecutedAfterDiskArtefacts_cases)
      (use that inv w1 in \<open>auto simp: heap_inv_def blk_ok_def emit_def\<close>)
  then show ?thesis
    using run d m w1 Inl by (auto simp: markExecuted_def prog_simps split: sum.splits)
qed

lemma MarkExecuted_summary:
  assumes inv: "heap_inv E w" "b < fresh w"
    and run: "MarkExecuted E b g wall bf rs rt (Some CellLastExecuted) w = (r, w')"
  shows "world.more w' = world.more w \<and> fresh w' = fresh w \<and> enqueued (trace w') = enqueued (trace w)
    \<and> (case r of
         Inl _ \<Rightarrow> heap w' = heap w \<and> cells w' = cells w \<and> executed_seq (trace w') = executed_seq (trace w)
       | Inr _ \<Rightarrow> execution (heap w b) = None
           \<and> (\<exists>e. heap w' = (heap w)(b := (heap w b)\<lparr>execution := Some e, executed_closed := True\<rparr>))
           \<and> cells w' = (cells w)(CellLastExecuted \<mapsto> b)
           \<and> executed_seq (trace w') = executed_seq (trace w) @ [b]
           \<and> EvCloseExecuted b (Some CellLastExecuted) \<in> set (trace w'))"
  using run
proof (cases rule: MarkExecuted_cases)
  case (fee err)
  then show ?thesis by (auto simp: log_only_def emit_def)
next
  case (run e w1)
  then have "world.more w1 = world.more w" "executed_seq (trace w1) = executed_seq (trace w)"
    "enqueued (trace w1) = enqueued (trace w)"
    by (auto simp: log_only_def emit_def)
  then show ?thesis
    using markExecuted_summary [OF _ _ run(3)] inv by (auto simp: log_only_simps [OF run(2)] split: sum.splits)
qed

lemma quiet_heap_inv:
  assumes "quiet b w w'" and "heap_inv E w"
  shows "heap_inv E w'"
proof -
  obtain t where h: "heap w' = (heap w)(b := (heap w b)\<lparr>interimExecutionTime := t\<rparr>)"
    and f: "fresh w' = fresh w" using assms(1) by (auto simp: quiet_def)
  have "heap_inv E (upd_blk b (\<lambda>k. k\<lparr>interimExecutionTime := t\<rparr>) w)"
    using assms(2) by (intro heap_inv_upd) (auto simp: blk_ok_def)
  moreover have "heap_inv E w' \<longleftrightarrow> heap_inv E (upd_blk b (\<lambda>k. k\<lparr>interimExecutionTime := t\<rparr>) w)"
    by (rule heap_inv_cong) (simp_all add: h f)
  ultimately show ?thesis by blast
qed

lemma quiet_facts:
  assumes "quiet b w w'"
  shows "cells w' = cells w" "fresh w' = fresh w" "queue w' = queue w" "done_closed w' = done_closed w"
    "quit_closed w' = quit_closed w"
    "enqueued (trace w') = enqueued (trace w)" "executed_seq (trace w') = executed_seq (trace w)"
    "ordered (trace w') = ordered (trace w)" "same_eth w w'"
    "execution (heap w' c) = execution (heap w c)"
  using assms seqs_logs by (auto simp: quiet_def same_eth_def)

lemma mbind_assoc: "mbind (mbind m f) g = mbind m (\<lambda>x. mbind (f x) g)"
  by (auto simp: mbind_def fun_eq_iff split: prod.splits sum.splits)

lemma mbind_mreturn: "mbind (mreturn x) f = f x"
  by (simp add: mbind_def mreturn_def)

lemma mbind_run: "mbind (mmod u) f w = f () (u w)" "mbind (mget h) g w = g (h w) w"
  by (simp_all add: mbind_def mmod_def mget_def)

lemma afterExecution_run:
  fixes w :: "('kv, 'x, 't, 'c, 'z) exec_world_scheme"
  assumes "afterExecution E D V b x w = (r, w')"
  obtains (fail) err where "r = Inl err" and "quiet b w w'"
  | (mark) w1 g wall bf rs rt r2 w2 where "quiet b w w1"
      and "MarkExecuted E b g wall bf rs rt (Some CellLastExecuted) w1 = (r2, w2)" and "r = r2"
      and "w' = (case r2 of Inl _ \<Rightarrow> w2 | Inr _ \<Rightarrow>
        snd (sendPostExecutionEvents E (EthBlock w b) rs (emit (EvSendExecuted b) w2)))"
proof -
  define m :: "(('kv, 'x, 't, 'c, 'z) exec_world_scheme, hash) prog" where "m =
     mbind (mmod (\<lambda>w. w\<lparr>recent := lru_Put V (NumberU64 w b) (Header w b) (recent w)\<rparr>)) (\<lambda>_.
     mbind (mmap_err (\<lambda>e. Wrap [e]) (with_tracker (\<lambda>t.
       case StateDB_Commit V (NumberU64 w b) (xr_StateDB x) (cache t) of (rt, c) \<Rightarrow> (rt, t\<lparr>cache := c\<rparr>)))) (\<lambda>rt.
     mbind (with_tracker (MaybeCommit D (SettledStateRoot w b) rt (NumberU64 w b))) (\<lambda>_.
     mbind (with_tracker (mmod (Track D rt))) (\<lambda>_. mreturn rt))))"
  define f :: "hash \<Rightarrow> (('kv, 'x, 't, 'c, 'z) exec_world_scheme, unit) prog" where
    "f = (\<lambda>rt. mbind (MarkExecuted E b (gastime_Clone (FinishBy_Gas x)) (FinishBy_Wall x)
       (Some (uint (xr_BaseFee x))) (xr_Receipts x) rt (Some CellLastExecuted)) (\<lambda>_.
     mbind (mmod (emit (EvSendExecuted b))) (\<lambda>_. sendPostExecutionEvents E (EthBlock w b) (xr_Receipts x))))"
  have acc: "NumberU64 (w\<lparr>recent := c\<rparr>) b = NumberU64 w b" "SettledStateRoot (w\<lparr>recent := c\<rparr>) b = SettledStateRoot w b"
    "EthBlock (w\<lparr>recent := c\<rparr>) b = EthBlock w b" for c by (simp_all add: accessor_defs)
  have "mbind m f w = (r, w')"
    using assms unfolding afterExecution_def m_def f_def mbind_assoc mbind_mreturn mbind_run acc prod.case .
  moreover have "preserves (quiet b w) m"
    unfolding m_def by (intro quiet_rules quiet_recent)
  ultimately show thesis
  proof (rule quiet_mbind_Inr)
    fix rt w1 assume q: "quiet b w w1" and fx: "f rt w1 = (r, w')"
    obtain r2 w2 where mk: "MarkExecuted E b (gastime_Clone (FinishBy_Gas x)) (FinishBy_Wall x)
       (Some (uint (xr_BaseFee x))) (xr_Receipts x) rt (Some CellLastExecuted) w1 = (r2, w2)" by fastforce
    show thesis
      by (rule mark [OF q mk]) (use fx mk in \<open>auto simp: f_def prog_simps sendPostExecutionEvents_def Let_def split: sum.splits\<close>)
  qed (use fail in blast)
qed

text \<open>Execution either fails with nothing marked, or marks the block and then broadcasts.\<close>

lemma execute_run:
  assumes "execute E calc H S D V headers now b w = (r, w')"
  obtains (fail) err where "r = Inl err" and "quiet b w w'"
  | (mark) l w1 g wall bf rs rt r2 w2 where "LastExecuted w = Some l" and "Hash E w l = Block_ParentHash w b"
      and "quiet b w w1" and "MarkExecuted E b g wall bf rs rt (Some CellLastExecuted) w1 = (r2, w2)"
      and "r = r2"
      and "w' = (case r2 of Inl _ \<Rightarrow> w2 | Inr _ \<Rightarrow>
        snd (sendPostExecutionEvents E (EthBlock w b) rs (emit (EvSendExecuted b) w2)))"
proof (cases "\<exists>l. LastExecuted w = Some l \<and> Hash E w l = Block_ParentHash w b")
  case False
  then have "w' = w \<and> (\<exists>err. r = Inl err)"
    using assms by (cases "LastExecuted w") (auto simp: execute_def prog_simps deref_def)
  then show thesis using fail quiet_refl by blast
next
  case True
  then obtain l where l: "LastExecuted w = Some l" "Hash E w l = Block_ParentHash w b" by blast
  let ?ex = "Execute E calc H S V (\<lambda>rt. OpenStateDB V rt (cache (ex_tracker w)))
    (GetHeader E V headers (recent w)) ExecutorReceipts None now b"
  have "mbind ?ex (\<lambda>result. afterExecution E D V b result) w = (r, w')"
    using assms l by (simp add: execute_def prog_simps deref_def)
  then show thesis
  proof (rule quiet_mbind_Inr [OF _ quiet_Execute])
    fix x w1 assume q: "quiet b w w1" and a: "afterExecution E D V b x w1 = (r, w')"
    have eb: "EthBlock w1 b = EthBlock w b" using quiet_facts(9) [OF q] by (simp add: same_eth_def EthBlock_def)
    from a show thesis
      by (cases rule: afterExecution_run) (use fail mark l quiet_trans [OF q] eb in metis)+
  qed (use fail in blast)
qed

text \<open>
  The invariant: the pushed blocks are the executed ones, followed by at most one whose
  execution failed, after which the goroutine has stopped, followed by the queue. The executed
  blocks extend the chain of the block the executor started from.
\<close>

definition exec_inv :: "('kv, 'x, 'e) env_scheme \<Rightarrow> ptr \<Rightarrow> ('kv, 'x, 't, 'c, 'z) exec_world_scheme \<Rightarrow> bool" where
  "exec_inv E l0 w \<longleftrightarrow> heap_inv E w \<and> ordered (trace w) \<and> l0 < fresh w \<and> (\<forall>b\<in>set (queue w). b < fresh w)
     \<and> (\<exists>failed. enqueued (trace w) = executed_seq (trace w) @ failed @ queue w
          \<and> length failed \<le> 1 \<and> (failed \<noteq> [] \<longrightarrow> done_closed w))
     \<and> cells w CellLastExecuted = Some (last (l0 # executed_seq (trace w)))
     \<and> hash_chain E w (l0 # executed_seq (trace w)) \<and> distinct (executed_seq (trace w))
     \<and> (\<forall>b\<in>set (executed_seq (trace w)). b < fresh w \<and> Executed w b)"

text \<open>What a step of another goroutine leaves alone.\<close>

definition frame :: "('kv, 'x, 't, 'c, 'z) exec_world_scheme \<Rightarrow> ('kv, 'x, 't, 'c, 'z) exec_world_scheme \<Rightarrow> bool" where
  "frame w w' \<longleftrightarrow> fresh w \<le> fresh w'
     \<and> (\<forall>b < fresh w. eth (heap w' b) = eth (heap w b) \<and> (Executed w b \<longrightarrow> Executed w' b))
     \<and> cells w' CellLastExecuted = cells w CellLastExecuted \<and> queue w' = queue w
     \<and> (done_closed w \<longrightarrow> done_closed w')
     \<and> enqueued (trace w') = enqueued (trace w) \<and> executed_seq (trace w') = executed_seq (trace w)"

lemma exec_inv_frame:
  assumes "exec_inv E l0 w" and "frame w w'" and "heap_inv E w'" and "ordered (trace w')"
  shows "exec_inv E l0 w'"
proof -
  have "hash_chain E w' (l0 # executed_seq (trace w)) = hash_chain E w (l0 # executed_seq (trace w))"
    using assms(1,2) by (intro hash_chain_cong) (auto simp: exec_inv_def frame_def)
  then show ?thesis using assms by (fastforce simp: exec_inv_def frame_def)
qed

text \<open>
  The steps: \<^verbatim>\<open>Enqueue\<close> of an accepted block, an iteration of \<^verbatim>\<open>processQueue\<close>, the two parts of
  \<^verbatim>\<open>Close\<close>, the clean-up of receipts, and what consensus does to blocks concurrently: it
  constructs, bounds, accepts and settles them.
\<close>

inductive exec_step :: "('kv, 'x, 'e) env_scheme \<Rightarrow> price_fun \<Rightarrow> ('db, 'a) exec_points_scheme \<Rightarrow> 'db statedb
    \<Rightarrow> 't triedb \<Rightarrow> ('db, 't, 'c, 'v) evm_scheme \<Rightarrow> (hash \<Rightarrow> u64 \<Rightarrow> header option)
    \<Rightarrow> ('kv, 'x, 't, 'c, 'z) exec_world_scheme \<Rightarrow> ('kv, 'x, 't, 'c, 'z) exec_world_scheme \<Rightarrow> bool"
  for E calc H S D V headers where
  es_Enqueue: "\<lbrakk>b < fresh w; stored_before CellLastAccepted b (trace w);
    (r, w') \<in> set (Enqueue b ctxDone w)\<rbrakk> \<Longrightarrow> exec_step E calc H S D V headers w w'"
| es_process: "w' \<in> set (processQueue_iter E calc H S D V headers now w)
    \<Longrightarrow> exec_step E calc H S D V headers w w'"
| es_quit: "Close_quit w = (r, w') \<Longrightarrow> exec_step E calc H S D V headers w w'"
| es_close: "Close_tracker D w = (r, w') \<Longrightarrow> exec_step E calc H S D V headers w w'"
| es_cleanup: "receipt_cleanup b w = (r, w') \<Longrightarrow> exec_step E calc H S D V headers w w'"
| es_New: "\<lbrakk>ptr_ok w parent; ptr_ok w ls; blocks_New E ethB parent ls w = (r, w')\<rbrakk>
    \<Longrightarrow> exec_step E calc H S D V headers w w'"
| es_Bounds: "\<lbrakk>b < fresh w; SetWorstCaseBounds b lims w = (r, w')\<rbrakk>
    \<Longrightarrow> exec_step E calc H S D V headers w w'"
| es_batch: "write_batch E ws w = (r, w') \<Longrightarrow> exec_step E calc H S D V headers w w'"
| es_accept: "batch_has (\<lambda>x. case x of WriteCanonicalHash h _ \<Rightarrow> h = Hash E w b | _ \<Rightarrow> False) (trace w)
    \<Longrightarrow> exec_step E calc H S D V headers w (store_cell E CellLastAccepted b w)"
| es_settle: "\<lbrakk>b < fresh w; MarkSettled E b (Some CellLastSettled) w = (r, w')\<rbrakk>
    \<Longrightarrow> exec_step E calc H S D V headers w w'"

lemma frame_New:
  assumes "blocks_New E ethB parent ls w = (r, w')"
  shows "frame w w'"
  using assms
  by (auto simp: frame_def blocks_New_def SetAncestors_def prog_simps Executed_def upd_blk_def
      split: option.splits)

lemma frame_MarkSettled:
  assumes "MarkSettled E b (Some CellLastSettled) w = (r, w')" and "heap_inv E w" and "b < fresh w"
  shows "frame w w'"
proof -
  have "w' = w \<or> markSettled E b (Some CellLastSettled) w = (r, w')" using MarkSettled_run assms(1) by blast
  then show ?thesis
  proof
    assume "markSettled E b (Some CellLastSettled) w = (r, w')"
    then show ?thesis
    proof (cases rule: markSettled_cases)
      case closed
      then show ?thesis using assms(2,3) by (auto simp: heap_inv_def blk_ok_def Settled_def)
    qed (auto simp: frame_def settled_world_def announce_def store_cell_def upd_blk_def emit_def Executed_def)
  qed (simp add: frame_def)
qed

lemma exec_inv_other:
  assumes "exec_step E calc H S D V headers w w'" and "exec_inv E l0 w"
    and "\<not> (\<exists>b ctxDone r. b < fresh w \<and> stored_before CellLastAccepted b (trace w) \<and> (r, w') \<in> set (Enqueue b ctxDone w))"
    and "\<not> (\<exists>now. w' \<in> set (processQueue_iter E calc H S D V headers now w))"
  shows "exec_inv E l0 w'"
proof -
  have inv: "heap_inv E w" "ordered (trace w)" using assms(2) by (simp_all add: exec_inv_def)
  have "frame w w' \<and> heap_inv E w' \<and> ordered (trace w')"
    using assms(1,3,4)
  proof (cases rule: exec_step.cases)
    case (es_quit r)
    then show ?thesis using inv heap_inv_cong [of w' w E]
      by (auto simp: Close_quit_def prog_simps frame_def Executed_def split: if_splits)
  next
    case (es_close r)
    then have "heap w' = heap w \<and> fresh w' = fresh w \<and> trace w' = trace w \<and> queue w' = queue w \<and> cells w' = cells w
      \<and> done_closed w' = done_closed w"
      by (auto simp: Close_tracker_def prog_simps split: if_splits sum.splits prod.splits option.splits)
    then show ?thesis using inv heap_inv_cong [of w' w E] by (simp add: frame_def Executed_def)
  next
    case (es_cleanup b r)
    then show ?thesis using inv heap_inv_cong [of w' w E]
      by (auto simp: receipt_cleanup_def prog_simps frame_def Executed_def)
  next
    case (es_New parent ls ethB r)
    then show ?thesis using inv frame_New heap_inv_blocks_New blocks_New_Inr by metis
  next
    case (es_Bounds b lims r)
    then have "heap_inv E w'" using inv
      by (auto simp: SetWorstCaseBounds_def prog_simps blk_ok_def intro!: heap_inv_upd)
    then show ?thesis using es_Bounds inv
      by (auto simp: SetWorstCaseBounds_def prog_simps upd_blk_def frame_def Executed_def)
  next
    case (es_batch ws r)
    then have "heap w' = heap w \<and> fresh w' = fresh w \<and> queue w' = queue w \<and> cells w' = cells w
      \<and> done_closed w' = done_closed w \<and> (trace w' = trace w \<or> trace w' = EvBatch ws # trace w)"
      by (auto simp: write_batch_def emit_def split: prod.splits option.splits)
    then show ?thesis using inv heap_inv_cong [of w' w E] by (auto simp: frame_def Executed_def)
  next
    case (es_accept b)
    then show ?thesis using inv heap_inv_cong [of w' w E]
      by (auto simp: frame_def Executed_def store_cell_def emit_def)
  next
    case (es_settle b r)
    then show ?thesis
      using inv frame_MarkSettled MarkSettled_run heap_inv_markSettled ordered_markSettled
      by (metis insertCI)
  qed blast+
  then show ?thesis using exec_inv_frame assms(2) by blast
qed

lemma exec_inv_Enqueue:
  assumes "exec_inv E l0 w" and "b < fresh w" and "stored_before CellLastAccepted b (trace w)"
    and "(r, w') \<in> set (Enqueue b ctxDone w)"
  shows "exec_inv E l0 w'"
proof -
  define w1 where "w1 = snd (createReceiptBuffers b w)"
  have w1: "heap w1 = heap w" "fresh w1 = fresh w" "trace w1 = trace w" "queue w1 = queue w"
    "cells w1 = cells w" "done_closed w1 = done_closed w"
    by (simp_all add: w1_def createReceiptBuffers_def prog_simps)
  have "heap_inv E w1" using assms(1) heap_inv_cong [OF w1(1,2), of E] by (simp add: exec_inv_def)
  moreover have "frame w w1" by (simp add: frame_def w1 Executed_def)
  ultimately have inv1: "exec_inv E l0 w1"
    using assms(1) exec_inv_frame w1(3) by (metis exec_inv_def)
  show ?thesis
  proof (cases "w' = w1")
    case False
    define tr where "tr = (if Suc (length (queue w)) = queue_cap w1
      then [EvLogWarn ''Execution queue buffer full''] else []) @ [EvEnqueue b]"
    have "w' = w1\<lparr>queue := queue w @ [b], trace := tr @ trace w\<rparr>"
      using False assms(4) unfolding Enqueue_def w1_def [symmetric] Let_def
      by (auto simp: Enqueue_push_def prog_simps tr_def emit_def w1 split: if_splits)
    moreover have "enqueued (tr @ trace w) = enqueued (trace w) @ [b]" "executed_seq (tr @ trace w) = executed_seq (trace w)"
      "ordered (tr @ trace w)" using assms(1,3) by (simp_all add: tr_def exec_inv_def)
    moreover have "heap_inv E w'" using \<open>heap_inv E w1\<close> heap_inv_cong [of w' w1 E] calculation(1) by simp
    moreover have "hash_chain E w' bs = hash_chain E w bs" for bs
      by (rule hash_chain_cong) (simp add: calculation(1) w1)
    ultimately show ?thesis using assms(1,2) by (auto simp: exec_inv_def w1 Executed_def)
  qed (use inv1 in simp)
qed

lemma exec_inv_execute_ok:
  assumes "exec_inv E l0 w" and "queue w = b # bs" and "\<not> done_closed w"
    and "execute E calc H S D V headers now b (w\<lparr>queue := bs\<rparr>) = (Inr u, w')"
  shows "exec_inv E l0 w'"
  using assms(4)
proof (cases rule: execute_run)
  case (mark l w1 g wall bf rs rt r2 w2)
  let ?w0 = "w\<lparr>queue := bs\<rparr>"
  note q = quiet_facts [OF mark(3)]
  have h0: "heap_inv E ?w0" using assms(1) heap_inv_cong [of ?w0 w E] by (simp add: exec_inv_def)
  have h1: "heap_inv E w1" by (rule quiet_heap_inv [OF mark(3) h0])
  have b: "b < fresh w" using assms(1,2) by (simp add: exec_inv_def)
  then have b1: "b < fresh w1" by (simp add: q(2))
  have h2: "heap_inv E w2" by (rule heap_inv_MarkExecuted [OF h1 b1 mark(4)])
  have o2: "ordered (trace w2)"
    by (rule ordered_MarkExecuted [OF _ h1 b1 _ mark(4)]) (use assms(1) q(8) in \<open>simp_all add: exec_inv_def\<close>)
  note m = MarkExecuted_summary [OF h1 b1 mark(4)]
  obtain e where m2: "execution (heap w1 b) = None"
    "heap w2 = (heap w1)(b := (heap w1 b)\<lparr>execution := Some e, executed_closed := True\<rparr>)"
    "cells w2 = (cells w1)(CellLastExecuted \<mapsto> b)" "executed_seq (trace w2) = executed_seq (trace w1) @ [b]"
    "EvCloseExecuted b (Some CellLastExecuted) \<in> set (trace w2)"
    using m mark(5) by auto
  have w': "heap w' = heap w2" "fresh w' = fresh w" "cells w' = cells w2" "queue w' = bs"
    "done_closed w' = done_closed w" "trace w' = EvSendExecuted b # trace w2"
    using mark(6) [folded mark(5)] m q more_fields [of w2 w1]
    by (simp_all add: sendPostExecutionEvents_def Let_def prog_simps emit_def)
  have eth: "eth (heap w' c) = eth (heap w c)" for c
    using q(9) by (simp add: w'(1) m2(2) same_eth_def)
  have ex: "Executed w' c \<longleftrightarrow> c = b \<or> Executed w c" for c
    using q(10) [of c] by (simp add: Executed_def w'(1) m2(2))
  have nb: "b \<notin> set (executed_seq (trace w))"
    using assms(1) m2(1) q(10) [of b] by (auto simp: exec_inv_def Executed_def)
  let ?ex = "executed_seq (trace w)"
  have "hash_chain E w (l0 # ?ex @ [b])"
    using assms(1) mark(1,2) hash_chain_snoc [of E w "l0 # ?ex" b]
    by (simp add: exec_inv_def LastExecuted_def accessor_defs)
  then have "hash_chain E w' (l0 # ?ex @ [b])" using hash_chain_cong [of _ w' w E] eth by blast
  moreover have "heap_inv E w'" using h2 heap_inv_cong [of w' w2 E] w' m q(2) by simp
  ultimately show ?thesis
    using assms(1,2,3) nb b m2(4,5) o2 m q(6,7)
    by (auto simp: exec_inv_def w' ex m2(3))
qed simp

lemma exec_inv_execute_fail:
  assumes "exec_inv E l0 w" and "queue w = b # bs" and "\<not> done_closed w"
    and "execute E calc H S D V headers now b (w\<lparr>queue := bs\<rparr>) = (Inl err, w')" and "is_log ev"
  shows "exec_inv E l0 ((emit ev w')\<lparr>done_closed := True\<rparr>)"
proof -
  let ?w0 = "w\<lparr>queue := bs\<rparr>" and ?w1 = "(emit ev w')\<lparr>done_closed := True\<rparr>"
  have h0: "heap_inv E ?w0" using assms(1) heap_inv_cong [of ?w0 w E] by (simp add: exec_inv_def)
  have b: "b < fresh w" using assms(1,2) by (simp add: exec_inv_def)
  have w': "heap_inv E w' \<and> fresh w' = fresh w \<and> cells w' = cells w \<and> queue w' = bs
    \<and> enqueued (trace w') = enqueued (trace w) \<and> executed_seq (trace w') = executed_seq (trace w)
    \<and> ordered (trace w') \<and> same_eth w w' \<and> (\<forall>c. execution (heap w' c) = execution (heap w c))"
    using assms(4)
  proof (cases rule: execute_run)
    case (fail err)
    then show ?thesis using quiet_facts [OF fail(2)] quiet_heap_inv [OF fail(2) h0] assms(1)
      by (simp add: exec_inv_def same_eth_def)
  next
    case (mark l w1 g wall bf rs rt r2 w2)
    note q = quiet_facts [OF mark(3)]
    have h1: "heap_inv E w1" by (rule quiet_heap_inv [OF mark(3) h0])
    have b1: "b < fresh w1" using b by (simp add: q(2))
    have "ordered (trace w2)"
      by (rule ordered_MarkExecuted [OF _ h1 b1 _ mark(4)]) (use assms(1) q(8) in \<open>simp_all add: exec_inv_def\<close>)
    then show ?thesis
      using MarkExecuted_summary [OF h1 b1 mark(4)] mark(5,6) q more_fields [of w2 w1]
        heap_inv_MarkExecuted [OF h1 b1 mark(4)]
      by (auto simp: same_eth_def)
  qed
  have "enqueued (trace w) = executed_seq (trace w) @ [b] @ bs"
    using assms(1,2,3) by (auto simp: exec_inv_def)
  moreover have "trace ?w1 = [ev] @ trace w'" "heap ?w1 = heap w'" "fresh ?w1 = fresh w'" by (simp_all add: emit_def)
  moreover have "heap_inv E ?w1" using w' heap_inv_cong [of ?w1 w' E] by (simp add: emit_def)
  moreover have "hash_chain E ?w1 cs = hash_chain E w cs" for cs
    by (rule hash_chain_cong) (use w' in \<open>simp add: same_eth_def emit_def\<close>)
  ultimately show ?thesis
    using assms(1,2) w' seqs_logs [of "[ev]" "trace w'"] assms(5)
    by (auto simp: exec_inv_def Executed_def emit_def intro!: exI [of _ "[b]"])
qed

lemma exec_inv_process:
  assumes "exec_inv E l0 w" and "w' \<in> set (processQueue_iter E calc H S D V headers now w)"
  shows "exec_inv E l0 w'"
proof -
  have nd: "\<not> done_closed w" using assms(2) by (auto simp: processQueue_iter_def split: if_splits)
  consider (quit) "w' = w\<lparr>done_closed := True\<rparr>" | (run) b bs where "queue w = b # bs"
    and "w' \<noteq> w\<lparr>done_closed := True\<rparr>"
    using assms(2) nd by (cases "queue w") (auto simp: processQueue_iter_def split: if_splits)
  then show ?thesis
  proof cases
    case quit
    then show ?thesis
      using assms(1) heap_inv_cong [of w' w E]
      by (intro exec_inv_frame [OF assms(1)]) (auto simp: frame_def Executed_def exec_inv_def)
  next
    case (run b bs)
    obtain r w1 where x: "execute E calc H S D V headers now b (w\<lparr>queue := bs\<rparr>) = (r, w1)" by fastforce
    show ?thesis
    proof (cases r)
      case (Inl err)
      then obtain ev where "w' = (emit ev w1)\<lparr>done_closed := True\<rparr>" "is_log ev"
        using assms(2) nd run x by (fastforce simp: processQueue_iter_def split: if_splits)
      then show ?thesis using exec_inv_execute_fail [OF assms(1) run(1) nd x [unfolded Inl]] by blast
    next
      case (Inr u)
      then have "w' = w1" using assms(2) nd run x by (auto simp: processQueue_iter_def split: if_splits)
      then show ?thesis using exec_inv_execute_ok [OF assms(1) run(1) nd x [unfolded Inr]] by blast
    qed
  qed
qed

lemma exec_step_inv:
  assumes "exec_step E calc H S D V headers w w'" and "exec_inv E l0 w"
  shows "exec_inv E l0 w'"
proof (cases "\<exists>b ctxDone r. b < fresh w \<and> stored_before CellLastAccepted b (trace w) \<and> (r, w') \<in> set (Enqueue b ctxDone w)")
  case True
  then show ?thesis using exec_inv_Enqueue [OF assms(2)] by blast
next
  case no_push: False
  show ?thesis
  proof (cases "\<exists>now. w' \<in> set (processQueue_iter E calc H S D V headers now w)")
    case True
    then show ?thesis using exec_inv_process [OF assms(2)] by blast
  qed (rule exec_inv_other [OF assms no_push])
qed

lemma exec_steps_inv:
  "(exec_step E calc H S D V headers)\<^sup>*\<^sup>* w w' \<Longrightarrow> exec_inv E l0 w \<Longrightarrow> exec_inv E l0 w'"
  by (induction rule: rtranclp_induct) (blast dest: exec_step_inv)+

lemma exec_inv_init:
  assumes "heap_inv E w" and "ordered (trace w)" and "l0 < fresh w"
    and "enqueued (trace w) = []" and "executed_seq (trace w) = []"
  shows "exec_inv E l0 (saexec_New t lru l0 w)"
proof -
  let ?w = "saexec_New t lru l0 w"
  have f: "heap ?w = heap w" "fresh ?w = fresh w" "trace ?w = trace w" "queue ?w = []"
    "cells ?w = (cells w)(CellLastExecuted \<mapsto> l0)"
    by (simp_all add: saexec_New_def world.defs)
  have "link_ok E ?w b = link_ok E w b" for b
    by (simp add: link_ok_def f ptr_ok_def SetAncestors_check_def accessor_defs split: option.split)
  then have "heap_inv E ?w" using assms(1) by (simp add: heap_inv_def f)
  then show ?thesis using assms by (simp add: exec_inv_def f)
qed

text \<open>C1: The executor is a FIFO over a chain. However pushes, executions, failures, shutdown and
  the work of consensus interleave, the blocks marked executed are, in order, a prefix of the
  blocks pushed; what follows them is at most one block whose execution failed, after which
  nothing executes any more, and the queue. Each block is executed at most once, on the
  block executed before it, the last-executed pointer is the last of them, and the
  life-cycle invariant and the ordering guarantees hold throughout.\<close>

theorem executor_fifo:
  assumes "heap_inv E w0" and "ordered (trace w0)" and "l0 < fresh w0"
    and "enqueued (trace w0) = []" and "executed_seq (trace w0) = []"
    and "(exec_step E calc H S D V headers)\<^sup>*\<^sup>* (saexec_New t lru l0 w0) w"
  shows "(\<exists>failed. enqueued (trace w) = executed_seq (trace w) @ failed @ queue w
      \<and> length failed \<le> 1 \<and> (failed = [] \<or> processQueue_iter E calc H S D V headers now w = []))
    \<and> hash_chain E w (l0 # executed_seq (trace w)) \<and> distinct (executed_seq (trace w))
    \<and> LastExecuted w = Some (last (l0 # executed_seq (trace w)))
    \<and> list_all (Executed w) (executed_seq (trace w)) \<and> heap_inv E w \<and> ordered (trace w)"
proof -
  have inv: "exec_inv E l0 w" by (rule exec_steps_inv [OF assms(6) exec_inv_init [OF assms(1-5)]])
  then obtain failed where "enqueued (trace w) = executed_seq (trace w) @ failed @ queue w"
    "length failed \<le> 1" "failed \<noteq> [] \<longrightarrow> done_closed w" by (auto simp: exec_inv_def)
  then have "\<exists>failed. enqueued (trace w) = executed_seq (trace w) @ failed @ queue w
      \<and> length failed \<le> 1 \<and> (failed = [] \<or> processQueue_iter E calc H S D V headers now w = [])"
    by (auto simp: processQueue_iter_def)
  then show ?thesis using inv by (simp add: exec_inv_def LastExecuted_def list_all_iff)
qed

text \<open>A concrete executor, whose transactions each use their whole gas.\<close>

definition sample_exec_points :: "((address \<Rightarrow> u256) \<times> (address \<Rightarrow> u64)) exec_points" where
  "sample_exec_points = points.extend flat_points
     \<lparr>BeforeExecutingBlock = (\<lambda>_ db. (None, db)), AfterExecutingBlock = (\<lambda>_ _ db. (None, db))\<rparr>"

definition sample_evm :: "((address \<Rightarrow> u256) \<times> (address \<Rightarrow> u64), hash \<Rightarrow> nat, unit) evm" where
  "sample_evm = \<lparr>OpenStateDB = (\<lambda>_ _. Inr ((\<lambda>_. 1000000000), (\<lambda>_. 0))), SetTxContext = (\<lambda>_ _ db. db),
     ApplyTransaction = (\<lambda>_ _ tx pool used db. Inr (\<lparr>r_TxHash = tx_Hash tx, r_GasUsed = tx_Gas tx,
        r_BlockHash = 0, r_EffectiveGasPrice = None, r_Logs = [], r_extra = 0\<rparr>, pool, used + tx_Gas tx, db)),
     EffectiveGasTipValue = (\<lambda>tx bf. min (tx_GasTipCap tx) (tx_GasFeeCap tx - bf)),
     StateDB_Commit = (\<lambda>_ _ c. (Inr 7, c)), lru_Put = (\<lambda>_ _ _. ()), lru_Get = (\<lambda>_ _. None)\<rparr>"

definition sample_tracker :: "(hash \<Rightarrow> nat) tracker" where
  "sample_tracker = \<lparr>cache = (\<lambda>_. 0), isHashDB = True, tr_config = \<lparr>Archival = False, TrieCommitInterval = 2\<rparr>, tr_log = []\<rparr>"

definition sample_exec0 :: "(db_write list, (u64 \<times> encoding) list, hash \<Rightarrow> nat, unit) exec_world" where
  "sample_exec0 = saexec_New sample_tracker () 1 sample_world2"

definition sample_exec1 :: "(db_write list, (u64 \<times> encoding) list, hash \<Rightarrow> nat, unit) exec_world" where
  "sample_exec1 = store_cell sample_env CellLastAccepted 1
     (snd (write_batch sample_env [WriteCanonicalHash 2 1] sample_exec0))"

definition sample_exec2 :: "(db_write list, (u64 \<times> encoding) list, hash \<Rightarrow> nat, unit) exec_world" where
  "sample_exec2 = snd (hd (Enqueue 1 False sample_exec1))"

text \<open>The pushed block is the one the executor started from, so its execution fails.\<close>

definition sample_exec3 :: "(db_write list, (u64 \<times> encoding) list, hash \<Rightarrow> nat, unit) exec_world" where
  "sample_exec3 = (emit (EvLogError ''Error of unknown severity in block execution'')
     (sample_exec2\<lparr>queue := []\<rparr>))\<lparr>done_closed := True\<rparr>"

lemma execute_nonconsecutive:
  "LastExecuted w = Some l \<Longrightarrow> Hash E w l \<noteq> Block_ParentHash w b \<Longrightarrow>
    execute E calc H S D V headers now b w
      = (Inl (ErrOther ''executing block built on parent when last executed''), w)"
  by (simp add: execute_def prog_simps deref_def)

lemma sample_exec3_step:
  "processQueue_iter sample_env calc H S D V headers now sample_exec2 = [sample_exec3]"
proof -
  have q: "queue sample_exec2 = [1]" "\<not> done_closed sample_exec2" "\<not> quit_closed sample_exec2" by code_simp+
  have "LastExecuted (sample_exec2\<lparr>queue := []\<rparr>) = Some 1"
    "Hash sample_env (sample_exec2\<lparr>queue := []\<rparr>) 1 \<noteq> Block_ParentHash (sample_exec2\<lparr>queue := []\<rparr>) 1" by code_simp+
  note x = execute_nonconsecutive [OF this]
  show ?thesis by (simp add: processQueue_iter_def q x [simplified] sample_exec3_def)
qed

lemma sample_exec_steps:
  "(exec_step sample_env (\<lambda>m x k. max m x) sample_exec_points flat_statedb count_triedb sample_evm (\<lambda>_ _. None))\<^sup>*\<^sup>*
     sample_exec0 sample_exec3"
proof -
  let ?step = "exec_step sample_env (\<lambda>m x k. max m x) sample_exec_points flat_statedb count_triedb sample_evm (\<lambda>_ _. None)"
  let ?w = "snd (write_batch sample_env [WriteCanonicalHash 2 1] sample_exec0)"
  have "?step sample_exec0 ?w" by (rule es_batch [OF prod.collapse [symmetric]])
  moreover have "?step ?w sample_exec1" unfolding sample_exec1_def by (rule es_accept) code_simp
  moreover have "?step sample_exec1 sample_exec2" unfolding sample_exec2_def
  proof (rule es_Enqueue)
    show "1 < fresh sample_exec1" "stored_before CellLastAccepted 1 (trace sample_exec1)" by code_simp+
    have "Enqueue 1 False sample_exec1 \<noteq> []" by code_simp
    then show "(fst (hd (Enqueue 1 False sample_exec1)), snd (hd (Enqueue 1 False sample_exec1)))
        \<in> set (Enqueue 1 False sample_exec1)" by simp
  qed
  moreover have "?step sample_exec2 sample_exec3" by (rule es_process) (simp add: sample_exec3_step)
  ultimately show ?thesis by (meson r_into_rtranclp rtranclp_trans)
qed

theorem executor_fifo_witness:
  "enqueued (trace sample_exec3) = [1] \<and> executed_seq (trace sample_exec3) = [] \<and> queue sample_exec3 = []
   \<and> LastExecuted sample_exec3 = Some 1
   \<and> processQueue_iter sample_env (\<lambda>m x k. max m x) sample_exec_points flat_statedb count_triedb
      sample_evm (\<lambda>_ _. None) 5 sample_exec3 = []"
proof -
  have e: "enqueued (trace sample_exec3) = [1]" "executed_seq (trace sample_exec3) = []" "queue sample_exec3 = []"
    by code_simp+
  have "enqueued (trace sample_world2) = []" "executed_seq (trace sample_world2) = []" "ordered (trace sample_world2)"
    by code_simp+
  from executor_fifo [OF sample_world2_inv(1) this(3) sample_world2_inv(2) this(1,2)
      sample_exec_steps [unfolded sample_exec0_def], where now = 5]
  show ?thesis using e by auto
qed

section \<open>Gas and receipts\<close>

text \<open>
  The documented behaviour of \<^verbatim>\<open>core.ApplyTransaction\<close>: a transaction uses at most its gas limit,
  and what it used is added to the counter.
\<close>

definition evm_laws :: "('db, 't, 'c, 'v) evm_scheme \<Rightarrow> bool" where
  "evm_laws V \<longleftrightarrow> (\<forall>cc hdr tx pool used db r pool' used' db'.
     ApplyTransaction V cc hdr tx pool used db = Inr (r, pool', used', db') \<longrightarrow>
       used' = used + r_GasUsed r \<and> r_GasUsed r \<le> tx_Gas tx)"

abbreviation gas_limits :: "transaction list \<Rightarrow> nat" where
  "gas_limits txs \<equiv> sum_list (map (\<lambda>tx. unat (tx_Gas tx)) txs)"

abbreviation gas_used :: "receipt list \<Rightarrow> nat" where
  "gas_used rs \<equiv> sum_list (map (\<lambda>r. unat (r_GasUsed r)) rs)"

abbreviation ops_gas :: "op list \<Rightarrow> nat" where
  "ops_gas ops \<equiv> sum_list (map (\<lambda>o1. unat (op_Gas o1)) ops)"

definition receipt_for :: "('db, 't, 'c, 'v) evm_scheme \<Rightarrow> hash \<Rightarrow> int \<Rightarrow> receipt \<Rightarrow> transaction \<Rightarrow> bool" where
  "receipt_for V bh baseFee r tx \<longleftrightarrow> r_GasUsed r \<le> tx_Gas tx \<and> r_BlockHash r = bh
     \<and> list_all (\<lambda>l. l_BlockHash l = bh) (r_Logs r)
     \<and> r_EffectiveGasPrice r = Some (baseFee + EffectiveGasTipValue V tx baseFee)"

lemma fix_receipt_simps [simp]:
  "r_GasUsed (fix_receipt bh p r) = r_GasUsed r" "r_BlockHash (fix_receipt bh p r) = bh"
  "r_EffectiveGasPrice (fix_receipt bh p r) = Some p"
  "list_all (\<lambda>l. l_BlockHash l = bh) (r_Logs (fix_receipt bh p r))"
  by (simp_all add: fix_receipt_def list_all_iff)

lemma log_all_simps [simp]: "heap (log_all evs w) = heap w" "Hash E (log_all evs w) b = Hash E w b"
proof -
  show "heap (log_all evs w) = heap w" by (induction evs arbitrary: w) (simp_all add: log_all_def)
  then show "Hash E (log_all evs w) b = Hash E w b" by (simp add: accessor_defs)
qed

lemma proxytime_Clone_id: "proxytime_Clone t = t"
  by (simp add: proxytime_Clone_def)

lemma Execute_tx_ok:
  assumes "Execute_tx E S V cc rs b hdr bf sig ti tx lp w = (Inr (r, lp'), w')" and "evm_laws V"
  shows "receipt_for V (Hash E w b) bf r tx
    \<and> blockGasConsumed lp' = blockGasConsumed lp + r_GasUsed r
    \<and> proxytime_Tick (perTxClock lp) (r_GasUsed r) = Inr (perTxClock lp')
    \<and> interimExecutionTime (heap w' b) = Some (perTxClock lp')"
proof -
  let ?db = "SetTxContext V (tx_Hash tx) ti (lp_db lp)"
  obtain rc pool used db where ap: "ApplyTransaction V cc hdr tx (gasPool lp) (blockGasConsumed lp) ?db
      = Inr (rc, pool, used, db)"
    using assms(1) by (auto simp: Execute_tx_def Let_def prog_simps split: sum.splits)
  then have laws: "used = blockGasConsumed lp + r_GasUsed rc" "r_GasUsed rc \<le> tx_Gas tx"
    using assms(2) unfolding evm_laws_def by blast+
  obtain clk where clk: "proxytime_Tick (perTxClock lp) (r_GasUsed rc) = Inr clk"
    using assms(1) ap by (auto simp: Execute_tx_def Let_def prog_simps split: sum.splits)
  have "r = fix_receipt (Hash E w b) (bf + EffectiveGasTipValue V tx bf) rc"
    "lp' = \<lparr>lp_db = db, gasPool = pool, blockGasConsumed = used, perTxClock = clk\<rparr>"
    "interimExecutionTime (heap w' b) = Some clk"
    using assms(1) ap clk
    by (auto simp: Execute_tx_def Let_def prog_simps SetInterimExecutionTime_def put_receipt_def
        proxytime_Clone_def split: option.splits)
  then show ?thesis using laws clk by (simp add: receipt_for_def)
qed

text \<open>The per-transaction clock: one tick for each transaction and operation.\<close>

fun tick_all :: "ptime \<Rightarrow> u64 list \<Rightarrow> ptime res" where
  "tick_all tm [] = Inr tm"
| "tick_all tm (d # ds) = res_bind (proxytime_Tick tm d) (\<lambda>tm. tick_all tm ds)"

lemma tick_all_append: "tick_all tm (ds @ es) = res_bind (tick_all tm ds) (\<lambda>tm. tick_all tm es)"
  by (induction tm ds rule: tick_all.induct) (simp_all add: res_bind_def split: sum.splits)

lemma unat_add_no_wrap: "unat (a :: u64) + unat d < 2 ^ 64 \<Longrightarrow> unat (a + d) = unat a + unat d"
  by (simp add: unat_word_ariths)

lemma Execute_txs_ok:
  assumes "Execute_txs E S V cc rs b hdr bf sig ti txs lp w = (Inr (rcs, lp'), w')" and "evm_laws V"
    and "unat (blockGasConsumed lp) + gas_limits txs < 2 ^ 64"
  shows "list_all2 (receipt_for V (Hash E w b) bf) rcs txs
    \<and> unat (blockGasConsumed lp') = unat (blockGasConsumed lp) + gas_used rcs \<and> gas_used rcs \<le> gas_limits txs
    \<and> tick_all (perTxClock lp) (map r_GasUsed rcs) = Inr (perTxClock lp')
    \<and> (rcs \<noteq> [] \<longrightarrow> interimExecutionTime (heap w' b) = Some (perTxClock lp'))"
  using assms(1,3)
proof (induction txs arbitrary: ti lp w rcs)
  case (Cons tx txs)
  obtain r lp1 w1 rcs1 where t: "Execute_tx E S V cc rs b hdr bf sig ti tx lp w = (Inr (r, lp1), w1)"
    and ts: "Execute_txs E S V cc rs b hdr bf sig (Suc ti) txs lp1 w1 = (Inr (rcs1, lp'), w')"
    and rcs: "rcs = r # rcs1"
    using Cons.prems(1) by (auto simp: mbind_Inr mreturn_def)
  note ok = Execute_tx_ok [OF t assms(2)]
  have le: "unat (r_GasUsed r) \<le> unat (tx_Gas tx)" using ok by (simp add: receipt_for_def word_le_nat_alt)
  have u: "unat (blockGasConsumed lp1) = unat (blockGasConsumed lp) + unat (r_GasUsed r)"
    using ok le Cons.prems(2) by (simp add: unat_add_no_wrap)
  have h: "Hash E w1 b = Hash E w b"
  proof -
    have "preserves (quiet b w) (Execute_tx E S V cc rs b hdr bf sig ti tx lp)"
      by (auto simp: Execute_tx_def Let_def intro!: quiet_rules)
    then have "quiet b w w1" using quiet_refl t unfolding preserves_def by (metis snd_conv)
    then show ?thesis using quiet_facts(9) same_eth_accessors(2) by blast
  qed
  have ih: "list_all2 (receipt_for V (Hash E w1 b) bf) rcs1 txs
    \<and> unat (blockGasConsumed lp') = unat (blockGasConsumed lp1) + gas_used rcs1 \<and> gas_used rcs1 \<le> gas_limits txs
    \<and> tick_all (perTxClock lp1) (map r_GasUsed rcs1) = Inr (perTxClock lp')
    \<and> (rcs1 \<noteq> [] \<longrightarrow> interimExecutionTime (heap w' b) = Some (perTxClock lp'))"
    using Cons.IH [OF ts] u le Cons.prems(2) by simp
  have "w' = w1 \<and> lp' = lp1" if "rcs1 = []"
    using ih ts that by (cases txs) (auto simp: mreturn_def)
  then show ?case using ih ok le u h rcs by auto
qed (simp add: mreturn_def)

lemma Execute_ops_ok:
  assumes "Execute_ops S b i ops lp w = (Inr lp', w')" and "unat (blockGasConsumed lp) + ops_gas ops < 2 ^ 64"
  shows "unat (blockGasConsumed lp') = unat (blockGasConsumed lp) + ops_gas ops
    \<and> tick_all (perTxClock lp) (map op_Gas ops) = Inr (perTxClock lp')
    \<and> interimExecutionTime (heap w' b) = (if ops = [] then interimExecutionTime (heap w b) else Some (perTxClock lp'))"
  using assms
proof (induction ops arbitrary: i lp w)
  case (Cons o1 ops)
  obtain db where ap: "ApplyTo S o1 (lp_db lp) = (None, db)"
    using Cons.prems(1) by (auto simp: prog_simps split: prod.splits option.splits sum.splits)
  obtain clk where clk: "proxytime_Tick (perTxClock lp) (op_Gas o1) = Inr clk"
    using Cons.prems(1) by (auto simp: prog_simps split: sum.splits)
  define lp1 where "lp1 = lp\<lparr>lp_db := db, blockGasConsumed := blockGasConsumed lp + op_Gas o1, perTxClock := clk\<rparr>"
  obtain w1 where w1: "Execute_ops S b (Suc i) ops lp1 w1 = (Inr lp', w')"
    "interimExecutionTime (heap w1 b) = Some clk"
    using Cons.prems(1) ap clk
    by (auto simp: prog_simps SetInterimExecutionTime_def proxytime_Clone_def lp1_def split: sum.splits)
  have u: "unat (blockGasConsumed lp1) = unat (blockGasConsumed lp) + unat (op_Gas o1)"
    using Cons.prems(2) by (simp add: lp1_def unat_add_no_wrap)
  have "tick_all clk (map op_Gas ops) = Inr (perTxClock lp')" "unat (blockGasConsumed lp') = unat (blockGasConsumed lp1) + ops_gas ops"
    "interimExecutionTime (heap w' b) = (if ops = [] then Some clk else Some (perTxClock lp'))"
    using Cons.IH [OF w1(1)] u Cons.prems(2) w1(2) by (simp_all add: lp1_def)
  then show ?case using clk u by (auto simp: lp1_def)
qed (simp add: mreturn_def)

lemma tick_all_ticks:
  assumes "ptime_inv tm" and "(ticks tm + sum_list (map unat ds)) div unat (hertz tm) < 2 ^ 64"
    and "tick_all tm ds = Inr tm'"
  shows "ptime_inv tm' \<and> hertz tm' = hertz tm \<and> ticks tm' = ticks tm + sum_list (map unat ds)"
  using assms
proof (induction tm ds rule: tick_all.induct)
  case (2 tm d ds)
  have "(ticks tm + unat d) div unat (hertz tm) \<le> (ticks tm + sum_list (map unat (d # ds))) div unat (hertz tm)"
    by (rule div_le_mono) simp
  then have "(ticks tm + unat d) div unat (hertz tm) < 2 ^ 64" using 2(3) by linarith
  then obtain tm1 where t: "proxytime_Tick tm d = Inr tm1" "ptime_inv tm1" "hertz tm1 = hertz tm"
    "ticks tm1 = ticks tm + unat d" by (rule Tick_ticks [OF 2(2)])
  show ?case using 2(1) [OF t(2)] 2(3,4) t by (simp add: add.assoc)
qed simp

lemma AfterBlock_not_before:
  assumes "gtime_inv clk" and "in_range clk" and "AfterBlock calc H clk used h = Inr (g', None)"
    and "ptime_inv it" and "hertz it = hertz (gt_time clk)" and "ticks it = ticks (gt_time clk) + unat used"
  shows "\<not> proxytime_Compare (gt_time g') it < 0"
proof -
  obtain T hc where hk: "GasConfigAfter H h = (T, hc)" by fastforce
  obtain t1 t2 where t: "gtime_inv t1" "gtime_inv t2" "gt_abs t1 = abs_tick (unat used) (gt_abs clk)"
    "gt_abs t2 = abs_set_target (unat (clampTarget T)) (gt_abs t1)" "target t1 = target clk"
    "target t2 = clampTarget T"
    and a: "after_clock calc H h used clk = res_bind (newConfig hc) (\<lambda>cfg. Inr
       (if cfg = gt_config clk then t2
        else let t3 = t2\<lparr>gt_config := cfg\<rparr>
             in t3\<lparr>excess := findExcessForPrice calc t3 (gastime_Price calc t1)\<rparr>))"
    by (rule after_clock_value [OF assms(1,2) hk])
  have "after_clock calc H h used clk = Inr g'" using assms(3) by (simp add: after_clock_def)
  then have g': "gt_time g' = gt_time t2" using a by (auto simp: res_bind_eq_Inr Let_def split: if_splits)
  have n: "unat (hertz (gt_time clk)) = 2 * unat (target clk)" "unat (hertz (gt_time t2)) = 2 * unat (target t2)"
    "ptime_inv (gt_time t2)" "0 < unat (target clk)"
    using gtime_inv_nat [OF assms(1)] gtime_inv_nat [OF t(2)] by auto
  have tk: "ticks (gt_time t1) = ticks it" "ticks (gt_time t2) = ceil_div (ticks it * unat (target t2)) (unat (target clk))"
    using t(3,4,5,6) assms(6) by (simp_all add: gt_abs_def)
  have "ticks it * unat (target t2) \<le> ticks (gt_time t2) * unat (target clk)"
    unfolding tk(2) by (rule ceil_div_mult_ge [OF n(4)])
  then have "\<not> ticks (gt_time g') * unat (hertz it) < ticks it * unat (hertz (gt_time g'))"
    by (simp add: g' assms(5) n not_less)
  then show ?thesis
    unfolding Compare_ticks [OF n(3) [folded g'] assms(4)] by (simp add: go_cmp_def)
qed

lemma Execute_ok:
  assumes "Execute E calc H S V openDB cc rs None now b w = (Inr out, w')"
    and "ParentBlock w b = Some p" and "ExecutedByGasTime w p = Inr g"
  obtains clk db ops lp1 w1 w2 lp2 where "BeforeBlock H g (eb_header (EthBlock w b)) = Inr clk"
    and "Execute_txs E S V cc rs b ((eb_header (EthBlock w b))\<lparr>BaseFee := Some (uint (gastime_BaseFee calc clk))\<rparr>)
      (uint (gastime_BaseFee calc clk)) (Signer w b) 0 (eb_txs (EthBlock w b))
      \<lparr>lp_db = db, gasPool = MaxUint64, blockGasConsumed = 0, perTxClock = gt_time clk\<rparr> w1
        = (Inr (xr_Receipts out, lp1), w2)"
    and "EndOfBlockOps H (EthBlock w b) = Inr ops"
    and "Execute_ops S b (length (eb_txs (EthBlock w b))) ops lp1 w2 = (Inr lp2, w')"
    and "AfterBlock calc H clk (blockGasConsumed lp2) (eb_header (EthBlock w b)) = Inr (FinishBy_Gas out, None)"
    and "xr_BaseFee out = gastime_BaseFee calc clk" and "heap w1 = heap w"
proof -
  have sig: "Signer (log_all evs w) b = Signer w b" for evs
    by (simp add: Signer_def accessor_defs)
  show thesis
    using assms(1) unfolding Execute_def
    apply (clarsimp simp: mbind_Inr mget_apply mlift_apply mmod_apply mmap_err_Inr assms(2,3) deref_def Let_def proxytime_Clone_id
        sig mfail_def mreturn_def split: prod.splits option.splits)
    apply (rule that)
          apply (assumption | simp)+
    done
qed

text \<open>C11: What a successful execution returns. The base fee is that of the parent's clock advanced to
  the block; there is one receipt for each transaction, naming this block and not the modified
  header, with the price actually paid, and using no more than the transaction's limit; the
  final gas time is that clock advanced by exactly the gas of the receipts and of the
  end-of-block operations, and it is not before the last interim time published while the
  block was executing, on which settlement relies.\<close>

theorem Execute_spec:
  assumes "evm_laws V" and "hooks_subsecond H"
    and "Execute E calc H S V openDB cc rs None now b w = (Inr out, w')"
    and "ParentBlock w b = Some p" and "ExecutedByGasTime w p = Inr g" and "gtime_inv g" and "in_range g"
    and "unat (BuildTime w b) < 2 ^ 62 - 1" and "EndOfBlockOps H (EthBlock w b) = Inr ops"
    and "gas_limits (Transactions w b) + ops_gas ops < 2 ^ 64"
  shows "\<exists>clk used. BeforeBlock H g (Header w b) = Inr clk \<and> xr_BaseFee out = gastime_BaseFee calc clk
    \<and> list_all2 (receipt_for V (Hash E w b) (uint (xr_BaseFee out))) (xr_Receipts out) (Transactions w b)
    \<and> unat used = gas_used (xr_Receipts out) + ops_gas ops
    \<and> unat used \<le> gas_limits (Transactions w b) + ops_gas ops
    \<and> AfterBlock calc H clk used (Header w b) = Inr (FinishBy_Gas out, None)
    \<and> (Transactions w b = [] \<and> ops = []
       \<or> (\<exists>it. interimExecutionTime (heap w' b) = Some it
            \<and> \<not> proxytime_Compare (gt_time (FinishBy_Gas out)) it < 0))"
proof -
  let ?eb = "EthBlock w b"
  obtain clk db ops' lp1 w1 w2 lp2 where x: "BeforeBlock H g (eb_header ?eb) = Inr clk"
    "Execute_txs E S V cc rs b ((eb_header ?eb)\<lparr>BaseFee := Some (uint (gastime_BaseFee calc clk))\<rparr>)
      (uint (gastime_BaseFee calc clk)) (Signer w b) 0 (eb_txs ?eb)
      \<lparr>lp_db = db, gasPool = MaxUint64, blockGasConsumed = 0, perTxClock = gt_time clk\<rparr> w1
        = (Inr (xr_Receipts out, lp1), w2)"
    "EndOfBlockOps H ?eb = Inr ops'"
    "Execute_ops S b (length (eb_txs ?eb)) ops' lp1 w2 = (Inr lp2, w')"
    "AfterBlock calc H clk (blockGasConsumed lp2) (eb_header ?eb) = Inr (FinishBy_Gas out, None)"
    "xr_BaseFee out = gastime_BaseFee calc clk" "heap w1 = heap w"
    by (rule Execute_ok [OF assms(3-5)])
  have ops: "ops' = ops" using x(3) assms(9) by simp
  have tot: "gas_limits (eb_txs ?eb) + ops_gas ops < 2 ^ 64" using assms(10) by (simp add: Transactions_def)
  have clk: "gtime_inv clk" "in_range clk"
    using BeforeBlock_in_range [OF assms(6,7,2), of "eb_header ?eb"] x(1) assms(8)
    by (auto simp: BuildTime_def Header_def)
  have t: "list_all2 (receipt_for V (Hash E w1 b) (uint (gastime_BaseFee calc clk))) (xr_Receipts out) (eb_txs ?eb)"
    "unat (blockGasConsumed lp1) = gas_used (xr_Receipts out)" "gas_used (xr_Receipts out) \<le> gas_limits (eb_txs ?eb)"
    "tick_all (gt_time clk) (map r_GasUsed (xr_Receipts out)) = Inr (perTxClock lp1)"
    "xr_Receipts out \<noteq> [] \<longrightarrow> interimExecutionTime (heap w2 b) = Some (perTxClock lp1)"
    using Execute_txs_ok [OF x(2) assms(1)] tot by simp_all
  have o: "unat (blockGasConsumed lp2) = gas_used (xr_Receipts out) + ops_gas ops"
    "tick_all (perTxClock lp1) (map op_Gas ops) = Inr (perTxClock lp2)"
    "interimExecutionTime (heap w' b) = (if ops = [] then interimExecutionTime (heap w2 b) else Some (perTxClock lp2))"
    using Execute_ops_ok [OF x(4) [unfolded ops]] t(2,3) tot by simp_all
  let ?ds = "map r_GasUsed (xr_Receipts out) @ map op_Gas ops"
  have ds: "sum_list (map unat ?ds) = unat (blockGasConsumed lp2)" by (simp add: o(1) comp_def)
  have tk: "ptime_inv (perTxClock lp2) \<and> hertz (perTxClock lp2) = hertz (gt_time clk)
    \<and> ticks (perTxClock lp2) = ticks (gt_time clk) + sum_list (map unat ?ds)"
  proof (rule tick_all_ticks)
    show "ptime_inv (gt_time clk)" using clk(1) by (simp add: gtime_inv_def)
    show "(ticks (gt_time clk) + sum_list (map unat ?ds)) div unat (hertz (gt_time clk)) < 2 ^ 64"
      unfolding ds using Tick_no_wrap [OF clk] by (rule less_trans) simp
    show "tick_all (gt_time clk) ?ds = Inr (perTxClock lp2)" by (simp add: tick_all_append t(4) o(2))
  qed
  have nb: "\<not> proxytime_Compare (gt_time (FinishBy_Gas out)) (perTxClock lp2) < 0"
    using AfterBlock_not_before [OF clk x(5)] tk unfolding ds by blast
  have "Hash E w1 b = Hash E w b" using x(7) by (simp add: accessor_defs)
  moreover have "interimExecutionTime (heap w' b) = Some (perTxClock lp2)" if "eb_txs ?eb \<noteq> [] \<or> ops \<noteq> []"
    using that o(2,3) t(1,5) by (auto split: if_splits)
  ultimately show ?thesis
    using x(1,5,6) t o(1) nb by (intro exI [of _ clk] exI [of _ "blockGasConsumed lp2"])
      (auto simp: Header_def Transactions_def)
qed

definition sample_child :: eth_block where
  "sample_child = (sample_eth 2)\<lparr>eb_txs := [sample_tx]\<rparr>"

definition sample_exec4 :: "(db_write list, (u64 \<times> encoding) list, hash \<Rightarrow> nat, unit) exec_world" where
  "sample_exec4 = saexec_New sample_tracker () 1
     (snd (blocks_New sample_env (Some sample_child) (Some 1) (Some 0) sample_world3))"

lemma sample_evm_laws: "evm_laws sample_evm"
  by (auto simp: evm_laws_def sample_evm_def)

lemma sample_exec4_facts:
  "ParentBlock sample_exec4 2 = Some 1" "EthBlock sample_exec4 2 = sample_child"
  "ExecutedByGasTime sample_exec4 1 = Inr sample_gtime" "PostExecutionStateRoot sample_exec4 1 = Inr 9"
  "bounds (heap sample_exec4 2) = None"
  by code_simp+

lemma sample_Execute:
  "\<exists>out w'. Execute sample_env (\<lambda>m x k. max m x) sample_exec_points flat_statedb sample_evm
     (\<lambda>rt. OpenStateDB sample_evm rt (\<lambda>_. 0)) (\<lambda>_ _. None) ExecutorReceipts None 0 2 sample_exec4 = (Inr out, w')"
proof -
  let ?H = sample_exec_points and ?calc = "\<lambda>m x k :: u64. max m x" and ?hdr = "eb_header sample_child"
  have H: "hooks_subsecond ?H" "GasConfigAfter ?H = GasConfigAfter flat_points" "EndOfBlockOps ?H eb = Inr []"
    "BeforeExecutingBlock ?H eb d = (None, d)" "AfterExecutingBlock ?H eb r d = (None, d)" for eb d r
    by (simp_all add: sample_exec_points_def flat_points_def points.defs hooks_subsecond_def time_Second_def)
  have "unat (hdr_Time ?hdr) < 2 ^ 62 - 1" by (simp add: sample_child_def sample_eth_def sample_header_def)
  then obtain clk where clk: "BeforeBlock ?H sample_gtime ?hdr = Inr clk" "gtime_inv clk" "in_range clk"
    using BeforeBlock_in_range [OF sample_gtime_inv H(1)] by blast
  obtain clk1 where clk1: "proxytime_Tick (gt_time clk) 21000 = Inr clk1"
    using Tick_never_panics [of "gt_time clk" 21000] clk(2) by (auto simp: gtime_inv_def)
  have "GasPriceConfig_Validate (snd (GasConfigAfter ?H ?hdr)) = None"
    by (simp add: H flat_points_def DefaultGasPriceConfig_def GasPriceConfig_Validate_def)
  then obtain g' where "after_clock ?calc ?H ?hdr 21000 clk = Inr g'" using after_clock_defined [OF clk(2,3)] by blast
  then have g': "AfterBlock ?calc ?H clk 21000 ?hdr = Inr (g', None)"
    by (auto simp: after_clock_def res_bind_eq_Inr split: option.splits prod.splits)
  have tx: "eb_txs sample_child = [sample_tx]" "tx_Gas sample_tx = 21000" by (simp_all add: sample_child_def sample_tx_def)
  show ?thesis
    by (simp add: Execute_def prog_simps sample_exec4_facts sample_exec4_facts(1,3,4) [unfolded One_nat_def] deref_def clk(1) H hook_err_def Let_def
        Execute_tx_def tx sample_evm_def proxytime_Clone_id clk1 g' SetInterimExecutionTime_def put_receipt_def)
qed

theorem Execute_spec_witness:
  "\<exists>out w'. Execute sample_env (\<lambda>m x k. max m x) sample_exec_points flat_statedb sample_evm
     (\<lambda>rt. OpenStateDB sample_evm rt (\<lambda>_. 0)) (\<lambda>_ _. None) ExecutorReceipts None 0 2 sample_exec4 = (Inr out, w')
     \<and> gas_used (xr_Receipts out) \<le> 21000 \<and> map r_BlockHash (xr_Receipts out) = [3]
     \<and> \<not> proxytime_Compare (gt_time (FinishBy_Gas out)) (the (interimExecutionTime (heap w' 2))) < 0"
proof -
  obtain out w' where x: "Execute sample_env (\<lambda>m x k. max m x) sample_exec_points flat_statedb sample_evm
     (\<lambda>rt. OpenStateDB sample_evm rt (\<lambda>_. 0)) (\<lambda>_ _. None) ExecutorReceipts None 0 2 sample_exec4 = (Inr out, w')"
    using sample_Execute by blast
  have f: "Transactions sample_exec4 2 = [sample_tx]" "unat (BuildTime sample_exec4 2) < 2 ^ 62 - 1"
    "Hash sample_env sample_exec4 2 = 3"
    by (simp_all add: accessor_defs sample_exec4_facts(2) [unfolded EthBlock_def] sample_child_def sample_eth_def
        sample_header_def sample_env_def)
  have h: "hooks_subsecond sample_exec_points" "EndOfBlockOps sample_exec_points (EthBlock sample_exec4 2) = Inr []"
    by (simp_all add: sample_exec_points_def flat_points_def points.defs hooks_subsecond_def time_Second_def)
  have g: "unat (tx_Gas sample_tx) = 21000" by (simp add: sample_tx_def)
  have "list_all2 (receipt_for sample_evm 3 (uint (xr_BaseFee out))) (xr_Receipts out) [sample_tx]
    \<and> gas_used (xr_Receipts out) \<le> 21000
    \<and> (\<exists>it. interimExecutionTime (heap w' 2) = Some it
            \<and> \<not> proxytime_Compare (gt_time (FinishBy_Gas out)) it < 0)"
    using Execute_spec [OF sample_evm_laws h(1) x sample_exec4_facts(1,3) sample_gtime_inv f(2) h(2)] f g by auto
  then show ?thesis using x by (auto simp: list_all2_Cons2 receipt_for_def)
qed

end
