(* ===== verification/BlockBuilder.thy ===== *)
theory BlockBuilder
  imports Saexec
begin

text \<open>
  Building and rebuilding blocks (\<^verbatim>\<open>src/sae/block_builder.go\<close>, with the helpers of
  \<^verbatim>\<open>src/sae/sae.go\<close>).

  \<^verbatim>\<open>buildWithTxs\<close> is modelled in three parts: \<open>buildWithTxs_state\<close> replays the unsettled
  blocks on a worst-case state and starts the new block on it, \<open>include_txs\<close> and
  \<open>include_ops\<close> fill the block, and \<open>buildWithTxs_finish\<close> assembles it. The user's
  \<^verbatim>\<open>hook.BlockBuilder\<close> is a record of functions. A worst-case state is local to one call, so
  its programs run on it through \<open>run_wc\<close>, which logs a failure.
\<close>

section \<open>Helpers\<close>

definition unix :: "gotime \<Rightarrow> u64" where
  "unix t = word_of_int (Time_Unix t)"

definition uint256FromBig :: "int option \<Rightarrow> u256 res" where
  "uint256FromBig b =
     (case b of
        None \<Rightarrow> Inl (ErrOther ''nil big.Int'')
      | Some v \<Rightarrow> (let (u, overflow) = SetFromBig v
                   in if overflow then Inl (ErrOther ''big.Int overflows 256 bits'') else Inr u))"

definition maxFutureBlockSeconds :: u64 where
  "maxFutureBlockSeconds = 10"

definition maxFutureBlockDuration :: duration where
  "maxFutureBlockDuration = uint maxFutureBlockSeconds * time_Second"

definition TxGas :: u64 where
  "TxGas = 21000"

text \<open>What \<^verbatim>\<open>Resolve\<close> returns is part of a lazy transaction.\<close>

record lazy_tx =
  lt_Hash :: hash
  lt_Resolve :: "transaction option"
  lt_GasFeeCap :: u256
  lt_GasTipCap :: u256
  lt_Gas :: u64
  lt_Sender :: address

record 'tx builder =
  BuildHeader :: "header \<Rightarrow> header res"
  PotentialEndOfBlockOps :: "header \<Rightarrow> hash \<Rightarrow> (hash \<Rightarrow> u64 \<Rightarrow> eth_block option) \<Rightarrow> 'tx list"
  AsOp :: "'tx \<Rightarrow> op"
  BuildBlock :: "header \<Rightarrow> nat option \<Rightarrow> transaction list \<Rightarrow> receipt list \<Rightarrow> 'tx list \<Rightarrow> u64 \<Rightarrow> eth_block res"

section \<open>The block to settle\<close>

definition lastToSettle :: "('db, 'a) points_scheme \<Rightarrow> header \<Rightarrow> ptr \<Rightarrow> gotime
    \<Rightarrow> (('kv, 'x, 'z) world_scheme, ptr) prog" where
  "lastToSettle H hdr parent now =
     mbind (mget (\<lambda>w. PreciseTime H (Header w parent))) (\<lambda>pTime.
     let bTime = PreciseTime H hdr; maxTime = now + maxFutureBlockDuration in
     mbind (mguard (\<not> Time_Unix bTime < uint TauSeconds) (Wrap [ErrBlockTimeUnderMinimum])) (\<lambda>_.
     mbind (mguard (\<not> bTime < pTime) (Wrap [ErrBlockTimeBeforeParent])) (\<lambda>_.
     mbind (mguard (\<not> bTime > maxTime) (Wrap [ErrBlockTimeAfterMaximum])) (\<lambda>_.
     mbind (mget (\<lambda>w. LastToSettleAt H w (bTime - Tau) (Some parent))) (\<lambda>r.
     case r of
       None \<Rightarrow> mfail Blocked
     | Some (Inl err) \<Rightarrow> mfail err
     | Some (Inr (lastSettled, ok)) \<Rightarrow>
         if \<not> ok
         then mbind (mmod (emit (EvLogWarn ''Execution lagging when determining last block to settle''))) (\<lambda>_.
              mfail ErrExecutionLagging)
         else mlift (deref lastSettled))))))"

section \<open>The worst-case state under a new block\<close>

definition run_wc :: "(go_error \<Rightarrow> bool) \<Rightarrow> string \<Rightarrow> (go_error \<Rightarrow> go_error) \<Rightarrow> ('s, 'a) prog \<Rightarrow> 's
    \<Rightarrow> (('kv, 'x, 'z) world_scheme, 'a \<times> 's) prog" where
  "run_wc warn msg wrap m s = (\<lambda>w. case m s of
       (Inr x, s') \<Rightarrow> (Inr (x, s'), w)
     | (Inl e, _) \<Rightarrow> (Inl (Errorf wrap e), if \<not> stops e \<and> warn e then emit (EvLogWarn msg) w else w))"

fun mfold :: "('a \<Rightarrow> 's \<Rightarrow> ('w, 's) prog) \<Rightarrow> 'a list \<Rightarrow> 's \<Rightarrow> ('w, 's) prog" where
  "mfold f [] s = mreturn s"
| "mfold f (x # xs) s = mbind (f x s) (mfold f xs)"

text \<open>The body of the loop over the unsettled blocks.\<close>

definition replay_block :: "('kv, 'x, 'e) env_scheme \<Rightarrow> price_fun \<Rightarrow> ('db, 'a) points_scheme \<Rightarrow> 'db statedb
    \<Rightarrow> ptr \<Rightarrow> 'db wc_state \<Rightarrow> (('kv, 'x, 'z) world_scheme, 'db wc_state) prog" where
  "replay_block E calc H S b s =
     mbind (mget (\<lambda>w. EthBlock w b)) (\<lambda>eb.
     mbind (run_wc (\<lambda>_. True) ''Could not start historical worst-case calculation''
       (\<lambda>_. ErrOther ''starting worst-case state'') (StartBlock E calc H (eb_header eb)) s) (\<lambda>(_, s).
     mbind (mfold (\<lambda>tx s. mbind (run_wc (\<lambda>_. True) ''Could not apply tx during historical worst-case calculation''
         (\<lambda>_. ErrOther ''applying tx'') (ApplyTx E H S tx) s) (\<lambda>(_, s). mreturn s)) (eb_txs eb) s) (\<lambda>s.
     mbind (run_wc (\<lambda>_. True) ''Could not extract ops during historical worst-case calculation''
       (\<lambda>_. ErrOther ''extracting ops'') (mlift (EndOfBlockOps H eb)) s) (\<lambda>(ops, s).
     mbind (mfold (\<lambda>o1 s. mbind (run_wc (\<lambda>_. True) ''Could not apply op during historical worst-case calculation''
         (\<lambda>_. ErrOther ''applying op'') (Apply S o1) s) (\<lambda>(_, s). mreturn s)) ops s) (\<lambda>s.
     mbind (run_wc (\<lambda>_. True) ''Could not finish historical worst-case calculation''
       (\<lambda>_. ErrOther ''finishing worst-case state'') (FinishBlock calc H) s) (\<lambda>(_, s).
     mreturn s))))))"

definition reserved_fields_set :: "header \<Rightarrow> bool" where
  "reserved_fields_set hdr \<longleftrightarrow> Root hdr \<noteq> 0 \<or> GasLimit hdr \<noteq> 0 \<or> BaseFee hdr \<noteq> None \<or> GasUsed hdr \<noteq> 0"

text \<open>
  From the header to the start of the new block: the settled block, the header with its
  root, gas limit and base fee, and the started worst-case state.
\<close>

definition buildWithTxs_state :: "('kv, 'x, 'e) env_scheme \<Rightarrow> price_fun \<Rightarrow> ('db, 'a) points_scheme \<Rightarrow> 'db statedb
    \<Rightarrow> (hash \<Rightarrow> 'db res) \<Rightarrow> gotime \<Rightarrow> ptr \<Rightarrow> header
    \<Rightarrow> (('kv, 'x, 'z) world_scheme, ptr \<times> header \<times> 'db wc_state) prog" where
  "buildWithTxs_state E calc H S openDB now parent hdr =
     mbind (mmod (if reserved_fields_set hdr
       then emit (EvLogWarn ''Block builder returned header with at least one reserved field set'') else id)) (\<lambda>_.
     mbind (lastToSettle H hdr parent now) (\<lambda>lastSettled.
     mbind (mget (\<lambda>w. ExecutedByGasTime w lastSettled)) (\<lambda>g.
     mbind (mlift g) (\<lambda>_.
     mbind (mget (\<lambda>w. NewState E openDB w lastSettled)) (\<lambda>ns.
     mbind (run_wc (\<lambda>_. True) ''Worst-case state not able to be created'' id (mlift ns) ()) (\<lambda>(s, _).
     mbind (mget (\<lambda>w. Range w (Some lastSettled) (Some parent))) (\<lambda>unsettled.
     mbind (mlift unsettled) (\<lambda>unsettled.
     mbind (mfold (replay_block E calc H S) unsettled s) (\<lambda>s.
     mbind (mget (\<lambda>w. PostExecutionStateRoot w lastSettled)) (\<lambda>rt.
     mbind (mlift rt) (\<lambda>rt.
     let hdr = hdr\<lparr>Root := rt\<rparr> in
     mbind (run_wc (\<lambda>e. \<not> errors_Is e ErrQueueFull) ''Could not start worst-case block calculation''
       (\<lambda>e. Wrap [e]) (StartBlock E calc H hdr) s) (\<lambda>(_, s).
     mreturn (lastSettled,
       hdr\<lparr>GasLimit := wc_GasLimit s, BaseFee := map_option uint (wc_BaseFee s)\<rparr>, s)))))))))))))"

section \<open>Filling the block\<close>

text \<open>The loop over the candidate transactions: one that does not apply is skipped.\<close>

fun include_txs :: "('kv, 'x, 'e) env_scheme \<Rightarrow> ('db, 'a) points_scheme \<Rightarrow> 'db statedb \<Rightarrow> lazy_tx list
    \<Rightarrow> 'db wc_state \<Rightarrow> (transaction list \<times> 'db wc_state) res" where
  "include_txs E H S [] s = Inr ([], s)"
| "include_txs E H S (ltx # ltxs) s =
     (if wc_GasLimit s - wc_GasUsed s < TxGas then Inr ([], s)
      else case lt_Resolve ltx of
        None \<Rightarrow> include_txs E H S ltxs s
      | Some tx \<Rightarrow>
          (case ApplyTx E H S tx s of
             (Inl err, s') \<Rightarrow> if stops err then Inl err else include_txs E H S ltxs s'
           | (Inr _, s') \<Rightarrow> res_bind (include_txs E H S ltxs s') (\<lambda>(inc, s''). Inr (tx # inc, s''))))"

fun include_ops :: "'db statedb \<Rightarrow> ('tx \<Rightarrow> op) \<Rightarrow> 'tx list \<Rightarrow> 'db wc_state \<Rightarrow> ('tx list \<times> 'db wc_state) res" where
  "include_ops S asOp [] s = Inr ([], s)"
| "include_ops S asOp (tx # txs) s =
     (case Apply S (asOp tx) s of
        (Inl err, s') \<Rightarrow> if stops err then Inl err else include_ops S asOp txs s'
      | (Inr _, s') \<Rightarrow> res_bind (include_ops S asOp txs s') (\<lambda>(inc, s''). Inr (tx # inc, s'')))"

section \<open>Assembling the block\<close>

definition settled_receipts :: "('kv, 'x, 'z) world_scheme \<Rightarrow> ptr \<Rightarrow> ptr \<Rightarrow> receipt list res" where
  "settled_receipts w parent lastSettled =
     res_bind (Range w (LastSettled w parent) (Some lastSettled)) (\<lambda>settling.
     foldr (\<lambda>b rest. res_bind (Receipts w b) (\<lambda>rs. res_bind rest (\<lambda>more. Inr (rs @ more)))) settling (Inr []))"

definition buildWithTxs_finish :: "('kv, 'x, 'e) env_scheme \<Rightarrow> price_fun \<Rightarrow> ('db, 'a) points_scheme
    \<Rightarrow> ('tx, 'u) builder_scheme \<Rightarrow> nat option \<Rightarrow> ptr \<Rightarrow> ptr \<Rightarrow> header \<Rightarrow> transaction list \<Rightarrow> 'tx list
    \<Rightarrow> 'db wc_state \<Rightarrow> (('kv, 'x, 'z) world_scheme, ptr) prog" where
  "buildWithTxs_finish E calc H B bCtx parent lastSettled hdr included includedOps s =
     mbind (mreturn (hdr\<lparr>GasUsed := wc_GasUsed s\<rparr>)) (\<lambda>hdr.
     mbind (run_wc (\<lambda>_. True) ''Could not finish worst-case block calculation''
       (\<lambda>_. ErrOther ''finishing worst-case state for new block'') (FinishBlock calc H) s) (\<lambda>(bnds, _).
     mbind (mget (\<lambda>w. settled_receipts w parent lastSettled)) (\<lambda>receipts.
     mbind (mlift receipts) (\<lambda>receipts.
     mbind (mget (\<lambda>w. BuildBlock B hdr bCtx included receipts includedOps (NumberU64 w lastSettled))) (\<lambda>ethB.
     mbind (mlift ethB) (\<lambda>ethB.
     mbind (blocks_New E (Some ethB) (Some parent) (Some lastSettled)) (\<lambda>b.
     mbind (SetWorstCaseBounds b (Some bnds)) (\<lambda>_.
     mreturn b))))))))"

definition buildWithTxs :: "('kv, 'x, 'e) env_scheme \<Rightarrow> price_fun \<Rightarrow> ('db, 'a) points_scheme \<Rightarrow> 'db statedb
    \<Rightarrow> (hash \<Rightarrow> 'db res) \<Rightarrow> (hash \<Rightarrow> u64 \<Rightarrow> eth_block option) \<Rightarrow> gotime \<Rightarrow> nat option \<Rightarrow> ptr
    \<Rightarrow> (u256 option \<Rightarrow> lazy_tx list) \<Rightarrow> ('tx, 'u) builder_scheme \<Rightarrow> (('kv, 'x, 'z) world_scheme, ptr) prog" where
  "buildWithTxs E calc H S openDB src now bCtx parent pendingTxs B =
     mbind (mget (\<lambda>w. BuildHeader B (Header w parent))) (\<lambda>hdr.
     mbind (mlift hdr) (\<lambda>hdr.
     mbind (buildWithTxs_state E calc H S openDB now parent hdr) (\<lambda>(lastSettled, hdr, s).
     mbind (mlift (include_txs E H S (pendingTxs (wc_BaseFee s)) s)) (\<lambda>(included, s).
     mbind (mget (\<lambda>w. PotentialEndOfBlockOps B hdr (Hash E w lastSettled) src)) (\<lambda>potential.
     mbind (mlift (include_ops S (AsOp B) potential s)) (\<lambda>(includedOps, s).
     buildWithTxs_finish E calc H B bCtx parent lastSettled hdr included includedOps s))))))"

section \<open>Building and rebuilding\<close>

definition build :: "('kv, 'x, 'e) env_scheme \<Rightarrow> price_fun \<Rightarrow> ('db, 'a) points_scheme \<Rightarrow> 'db statedb
    \<Rightarrow> (hash \<Rightarrow> 'db res) \<Rightarrow> (hash \<Rightarrow> u64 \<Rightarrow> eth_block option) \<Rightarrow> gotime \<Rightarrow> (u256 option \<Rightarrow> lazy_tx list)
    \<Rightarrow> ('tx, 'u) builder_scheme \<Rightarrow> nat option \<Rightarrow> ptr \<Rightarrow> (('kv, 'x, 'z) world_scheme, ptr) prog" where
  "build E calc H S openDB src now transactionsByPriority B bCtx parent =
     buildWithTxs E calc H S openDB src now bCtx parent transactionsByPriority B"

text \<open>The lazy transaction that \<^verbatim>\<open>rebuild\<close> makes of a transaction of the block.\<close>

definition rebuild_tx :: "('kv, 'x, 'e) env_scheme \<Rightarrow> signer \<Rightarrow> transaction \<Rightarrow> lazy_tx res" where
  "rebuild_tx E sig tx =
     res_bind (map_sum (Errorf (\<lambda>_. ErrOther ''recovering sender'')) id (Sender E sig tx)) (\<lambda>sdr.
     res_bind (map_sum (\<lambda>_. ErrOther ''fee cap'') id (uint256FromBig (Some (tx_GasFeeCap tx)))) (\<lambda>feeCap.
     res_bind (map_sum (\<lambda>_. ErrOther ''tip cap'') id (uint256FromBig (Some (tx_GasTipCap tx)))) (\<lambda>tipCap.
     Inr \<lparr>lt_Hash = tx_Hash tx, lt_Resolve = Some tx, lt_GasFeeCap = feeCap, lt_GasTipCap = tipCap,
          lt_Gas = tx_Gas tx, lt_Sender = sdr\<rparr>)))"

fun map_res :: "('a \<Rightarrow> 'b res) \<Rightarrow> 'a list \<Rightarrow> 'b list res" where
  "map_res f [] = Inr []"
| "map_res f (x # xs) = res_bind (f x) (\<lambda>y. res_bind (map_res f xs) (\<lambda>ys. Inr (y # ys)))"

definition rebuild :: "('kv, 'x, 'e) env_scheme \<Rightarrow> price_fun \<Rightarrow> ('db, 'a) points_scheme \<Rightarrow> 'db statedb
    \<Rightarrow> (hash \<Rightarrow> 'db res) \<Rightarrow> (hash \<Rightarrow> u64 \<Rightarrow> eth_block option) \<Rightarrow> gotime
    \<Rightarrow> (eth_block \<Rightarrow> ('tx, 'u) builder_scheme res) \<Rightarrow> nat option \<Rightarrow> ptr \<Rightarrow> ptr
    \<Rightarrow> (('kv, 'x, 'z) world_scheme, ptr) prog" where
  "rebuild E calc H S openDB src now blockRebuilderFrom bCtx parent b =
     mbind (mget (\<lambda>w. map_res (rebuild_tx E (Signer w b)) (Transactions w b))) (\<lambda>txs.
     mbind (mlift txs) (\<lambda>txs.
     mbind (mget (\<lambda>w. blockRebuilderFrom (EthBlock w b))) (\<lambda>rebuilder.
     mbind (mmap_err (\<lambda>_. ErrOther ''BlockRebuilderFrom()'') (mlift rebuilder)) (\<lambda>rebuilder.
     buildWithTxs E calc H S openDB src now bCtx parent (\<lambda>_. txs) rebuilder))))"

section \<open>Rebuilding a built block\<close>

lemma Apply_Inl:
  assumes "Apply S o1 s = (Inl e, s')"
  shows "s' = s"
  using assms
  by (auto simp: Apply_def prog_simps ApplyTo_def split: if_splits option.splits sum.splits)

lemma ApplyTx_Inl:
  assumes "ApplyTx E H S tx s = (Inl e, s')"
  shows "s' = s"
  using ApplyTx_cases [of E H S tx s] Apply_Inl assms by (metis Pair_inject)

lemma include_txs_Cons:
  assumes "include_txs E H S (ltx # ltxs) s = Inr (inc, s')"
  obtains (full) "wc_GasLimit s - wc_GasUsed s < TxGas" and "inc = []" and "s' = s"
  | (skip) "include_txs E H S ltxs s = Inr (inc, s')"
  | (take) tx s1 inc1 where "\<not> wc_GasLimit s - wc_GasUsed s < TxGas" and "lt_Resolve ltx = Some tx"
      and "ApplyTx E H S tx s = (Inr (), s1)" and "include_txs E H S ltxs s1 = Inr (inc1, s')" and "inc = tx # inc1"
proof (cases "wc_GasLimit s - wc_GasUsed s < TxGas")
  case True
  then have "inc = [] \<and> s' = s" using assms by simp
  then show thesis using True full by blast
next
  case room: False
  show thesis
  proof (cases "lt_Resolve ltx")
    case None
    then have "include_txs E H S ltxs s = Inr (inc, s')" using assms room by simp
    then show thesis by (rule skip)
  next
    case (Some tx)
    obtain r s1 where a: "ApplyTx E H S tx s = (r, s1)" by fastforce
    show thesis
    proof (cases r)
      case (Inl e)
      then have "s1 = s" using a ApplyTx_Inl by blast
      then have "include_txs E H S ltxs s = Inr (inc, s')" using assms room Some a Inl by (simp split: if_splits)
      then show thesis by (rule skip)
    next
      case (Inr u)
      then obtain inc1 where "include_txs E H S ltxs s1 = Inr (inc1, s')" "inc = tx # inc1"
        using assms room Some a by (auto simp: res_bind_eq_Inr)
      then show thesis using room Some a Inr take [of tx s1 inc1] by simp
    qed
  qed
qed

text \<open>What was included, offered again, is included again: nothing else had any effect.\<close>

lemma include_txs_again:
  assumes "include_txs E H S ltxs s = Inr (inc, s')" and "map lt_Resolve ltxs' = map Some inc"
  shows "include_txs E H S ltxs' s = Inr (inc, s')"
  using assms
proof (induction ltxs arbitrary: s inc ltxs')
  case Nil
  then show ?case by simp
next
  case (Cons ltx ltxs)
  from Cons.prems(1) show ?case
  proof (cases rule: include_txs_Cons)
    case full
    then show ?thesis using Cons.prems(2) by simp
  next
    case skip
    then show ?thesis using Cons.IH Cons.prems(2) by blast
  next
    case (take tx s1 inc1)
    then obtain l ls where "ltxs' = l # ls" "lt_Resolve l = Some tx" and ls: "map lt_Resolve ls = map Some inc1"
      using Cons.prems(2) by (cases ltxs') auto
    then show ?thesis using Cons.IH [OF take(4) ls] take by simp
  qed
qed

lemma include_ops_again:
  assumes "include_ops S f txs s = Inr (inc, s')"
  shows "include_ops S f inc s = Inr (inc, s')"
  using assms
proof (induction txs arbitrary: s inc)
  case (Cons tx txs)
  obtain r s1 where a: "Apply S (f tx) s = (r, s1)" by fastforce
  show ?case
  proof (cases r)
    case (Inl e)
    then have "s1 = s" using a Apply_Inl by blast
    then show ?thesis using Cons a Inl by (simp split: if_splits)
  next
    case (Inr u)
    then show ?thesis using Cons a by (auto simp: res_bind_eq_Inr)
  qed
qed simp

text \<open>
  The contract of \<^verbatim>\<open>BlockRebuilderFrom\<close>: from a block that a builder made of a header it had
  built, the rebuilder makes the same header, offers the block's operations and assembles
  equal parts to an equal block.
\<close>

definition overwrite_reserved :: "header \<Rightarrow> header \<Rightarrow> header" where
  "overwrite_reserved h h' = h\<lparr>Root := Root h', GasLimit := GasLimit h', BaseFee := BaseFee h', GasUsed := GasUsed h'\<rparr>"

definition rebuilder_laws :: "('tx, 'u) builder_scheme \<Rightarrow> (eth_block \<Rightarrow> ('tx, 'v) builder_scheme res) \<Rightarrow> bool" where
  "rebuilder_laws B R \<longleftrightarrow>
     (\<forall>p h h' ctx txs rcs ops sh eb. BuildHeader B p = Inr h \<and> h' = overwrite_reserved h h'
        \<and> BuildBlock B h' ctx txs rcs ops sh = Inr eb \<longrightarrow>
        eb_txs eb = txs \<and> Number (eb_header eb) = Number h \<and> hdr_Time (eb_header eb) = hdr_Time h
        \<and> (\<exists>B'. R eb = Inr B' \<and> BuildHeader B' p = Inr h \<and> AsOp B' = AsOp B \<and> BuildBlock B' = BuildBlock B
            \<and> (\<forall>hdr ls src. PotentialEndOfBlockOps B' hdr ls src = ops)))"

lemma lastToSettle_later:
  assumes "lastToSettle H hdr parent now w = (Inr ls, w')" and "now \<le> now'"
  shows "lastToSettle H hdr parent now' w = (Inr ls, w')"
  using assms by (auto simp: lastToSettle_def Let_def prog_simps split: if_splits)

lemma buildWithTxs_state_later:
  assumes "buildWithTxs_state E calc H S openDB now parent hdr w = (Inr r, w')" and "now \<le> now'"
  shows "buildWithTxs_state E calc H S openDB now' parent hdr w = (Inr r, w')"
  using assms lastToSettle_later unfolding buildWithTxs_state_def mbind_run mbind_Inr by blast

lemma StartBlock_Inr:
  assumes "StartBlock E calc H h s = (Inr u, s')"
  shows "st_signer s' = (Number h, hdr_Time h)"
  using assms by (auto simp: StartBlock_def prog_simps Let_def split: if_splits sum.splits)

lemma run_wc_Inr: "run_wc wn msg g m s w = (Inr (x, s'), w') \<longleftrightarrow> m s = (Inr x, s') \<and> w' = w"
  by (auto simp: run_wc_def split: prod.splits sum.splits)

lemma buildWithTxs_state_Inr:
  assumes "buildWithTxs_state E calc H S openDB now parent h w = (Inr (ls, hdr, s), w')"
  shows "\<exists>rt. PostExecutionStateRoot w' ls = Inr rt
    \<and> hdr = h\<lparr>Root := rt, GasLimit := wc_GasLimit s, BaseFee := map_option uint (wc_BaseFee s)\<rparr>
    \<and> st_signer s = (Number h, hdr_Time h)"
  using assms StartBlock_Inr unfolding buildWithTxs_state_def mbind_run
  by (fastforce simp: mbind_Inr mget_apply mlift_apply mreturn_apply run_wc_Inr Let_def)

lemma ApplyTx_Inr_sender:
  assumes "ApplyTx E H S tx s = (Inr u, s')"
  shows "\<exists>sdr. Sender E (st_signer s) tx = Inr sdr" "\<bar>tx_GasFeeCap tx\<bar> < 2 ^ 256" "\<bar>tx_GasTipCap tx\<bar> < 2 ^ 256"
    "st_signer s' = st_signer s"
proof -
  obtain sdr bf o1 where "Sender E (st_signer s) tx = Inr sdr" "txToOp sdr tx bf = Inr o1" "Apply S o1 s = (Inr u, s')"
    by (cases rule: ApplyTx_run [of E H S tx s]) (use assms in auto)
  then show "\<exists>sdr. Sender E (st_signer s) tx = Inr sdr" "\<bar>tx_GasFeeCap tx\<bar> < 2 ^ 256" "\<bar>tx_GasTipCap tx\<bar> < 2 ^ 256"
    "st_signer s' = st_signer s"
    by (auto simp: txToOp_def bigToUint256_def SetFromBig_def Let_def Apply_def prog_simps
        split: if_splits prod.splits option.splits sum.splits)
qed

lemma include_txs_senders:
  assumes "include_txs E H S ltxs s = Inr (inc, s')" and "tx \<in> set inc"
  shows "(\<exists>sdr. Sender E (st_signer s) tx = Inr sdr) \<and> \<bar>tx_GasFeeCap tx\<bar> < 2 ^ 256 \<and> \<bar>tx_GasTipCap tx\<bar> < 2 ^ 256"
  using assms
proof (induction ltxs arbitrary: s inc)
  case Nil
  then show ?case by simp
next
  case (Cons ltx ltxs)
  from Cons.prems(1) show ?case
  proof (cases rule: include_txs_Cons)
    case full
    then show ?thesis using Cons.prems(2) by simp
  next
    case skip
    then show ?thesis using Cons.IH Cons.prems(2) by blast
  next
    case (take tx' s1 inc1)
    note t = ApplyTx_Inr_sender [OF take(3)]
    show ?thesis using Cons.IH [OF take(4)] Cons.prems(2) take(5) t by auto
  qed
qed

lemma rebuild_txs:
  assumes "\<And>tx. tx \<in> set txs \<Longrightarrow> (\<exists>sdr. Sender E sig tx = Inr sdr) \<and> \<bar>tx_GasFeeCap tx\<bar> < 2 ^ 256 \<and> \<bar>tx_GasTipCap tx\<bar> < 2 ^ 256"
  shows "\<exists>ltxs. map_res (rebuild_tx E sig) txs = Inr ltxs \<and> map lt_Resolve ltxs = map Some txs"
  using assms
proof (induction txs)
  case (Cons tx txs)
  obtain sdr where "Sender E sig tx = Inr sdr" "\<bar>tx_GasFeeCap tx\<bar> < 2 ^ 256" "\<bar>tx_GasTipCap tx\<bar> < 2 ^ 256"
    using Cons.prems by (meson list.set_intros(1))
  then have "\<exists>l. rebuild_tx E sig tx = Inr l \<and> lt_Resolve l = Some tx"
    by (simp add: rebuild_tx_def uint256FromBig_def SetFromBig_def)
  then show ?case using Cons by force
qed simp

lemma buildWithTxs_finish_Inr:
  assumes "buildWithTxs_finish E calc H B bCtx parent ls hdr inc ops s w = (Inr b, w')"
  shows "\<exists>rcs eb bnds s'. BuildBlock B (hdr\<lparr>GasUsed := wc_GasUsed s\<rparr>) bCtx inc rcs ops (NumberU64 w ls) = Inr eb
    \<and> EthBlock w' b = eb \<and> FinishBlock calc H s = (Inr bnds, s') \<and> WorstCaseBounds w' b = Some bnds
    \<and> ParentBlock w' b = Some parent \<and> settled_receipts w parent ls = Inr rcs"
proof -
  obtain rcs eb bnds s' w1 where x: "FinishBlock calc H s = (Inr bnds, s')" "settled_receipts w parent ls = Inr rcs"
    "BuildBlock B (hdr\<lparr>GasUsed := wc_GasUsed s\<rparr>) bCtx inc rcs ops (NumberU64 w ls) = Inr eb"
    "blocks_New E (Some eb) (Some parent) (Some ls) w = (Inr b, w1)" "SetWorstCaseBounds b (Some bnds) w1 = (Inr (), w')"
    using assms unfolding buildWithTxs_finish_def mbind_mreturn
    by (auto simp: mbind_Inr mget_apply mlift_apply mreturn_apply run_wc_Inr)
  have n: "eth (heap w1 b) = eb \<and> ancestry (heap w1 b) = Some \<lparr>anc_parent = Some parent, anc_lastSettled = Some ls\<rparr>"
    using x(4) by (auto simp: blocks_New_def SetAncestors_def prog_simps upd_blk_def zero_blk_def split: option.splits)
  then have "EthBlock w' b = eb \<and> WorstCaseBounds w' b = Some bnds \<and> ParentBlock w' b = Some parent"
    using x(5) by (auto simp: SetWorstCaseBounds_def prog_simps EthBlock_def WorstCaseBounds_def ParentBlock_def ancestor_def)
  then show ?thesis using x by blast
qed

lemma rebuild_of_build:
  assumes "rebuilder_laws B R"
    and "build E calc H S openDB src now transactionsByPriority B bCtx parent w = (Inr b, w')"
    and "EthBlock w v = EthBlock w' b" and "now \<le> now'"
  shows "rebuild E calc H S openDB src' now' R bCtx parent v w = (Inr b, w')"
proof -
  obtain h ls hdr s w0 inc s1 iops s2 where x: "BuildHeader B (Header w parent) = Inr h"
    "buildWithTxs_state E calc H S openDB now parent h w = (Inr (ls, hdr, s), w0)"
    "include_txs E H S (transactionsByPriority (wc_BaseFee s)) s = Inr (inc, s1)"
    "include_ops S (AsOp B) (PotentialEndOfBlockOps B hdr (Hash E w0 ls) src) s1 = Inr (iops, s2)"
    "buildWithTxs_finish E calc H B bCtx parent ls hdr inc iops s2 w0 = (Inr b, w')"
    using assms(2) unfolding build_def buildWithTxs_def
    by (auto simp: mbind_Inr mget_apply mlift_apply)
  obtain rcs eb where eb: "BuildBlock B (hdr\<lparr>GasUsed := wc_GasUsed s2\<rparr>) bCtx inc rcs iops (NumberU64 w0 ls) = Inr eb"
    "EthBlock w' b = eb" using buildWithTxs_finish_Inr [OF x(5)] by blast
  obtain rt where hdr: "hdr = h\<lparr>Root := rt, GasLimit := wc_GasLimit s, BaseFee := map_option uint (wc_BaseFee s)\<rparr>"
    and sg: "st_signer s = (Number h, hdr_Time h)" using buildWithTxs_state_Inr [OF x(2)] by blast
  let ?h' = "hdr\<lparr>GasUsed := wc_GasUsed s2\<rparr>"
  have "?h' = overwrite_reserved h ?h'" by (simp add: overwrite_reserved_def hdr)
  then have law: "eb_txs eb = inc \<and> Number (eb_header eb) = Number h \<and> hdr_Time (eb_header eb) = hdr_Time h
    \<and> (\<exists>B'. R eb = Inr B' \<and> BuildHeader B' (Header w parent) = Inr h \<and> AsOp B' = AsOp B
        \<and> BuildBlock B' = BuildBlock B \<and> (\<forall>hdr ls src. PotentialEndOfBlockOps B' hdr ls src = iops))"
    using assms(1) x(1) eb(1) unfolding rebuilder_laws_def by blast
  then obtain B' where B': "R eb = Inr B'" "BuildHeader B' (Header w parent) = Inr h" "AsOp B' = AsOp B"
    "BuildBlock B' = BuildBlock B" "\<And>hdr ls src. PotentialEndOfBlockOps B' hdr ls src = iops" by blast
  have v: "Transactions w v = inc" "Signer w v = st_signer s" "EthBlock w v = eb"
    using law assms(3) eb(2) sg by (simp_all add: Transactions_def Signer_def Block_Number_def BuildTime_def Header_def)
  obtain ltxs where l: "map_res (rebuild_tx E (st_signer s)) inc = Inr ltxs" "map lt_Resolve ltxs = map Some inc"
    using rebuild_txs [of inc E "st_signer s"] include_txs_senders [OF x(3)] by blast
  have fin: "buildWithTxs_finish E calc H B' bCtx parent ls hdr inc iops s2 = buildWithTxs_finish E calc H B bCtx parent ls hdr inc iops s2"
    by (simp add: buildWithTxs_finish_def B'(4))
  show ?thesis
    unfolding rebuild_def buildWithTxs_def
    by (simp add: prog_simps v l(1) B' buildWithTxs_state_later [OF x(2) assms(4)]
        include_txs_again [OF x(3) l(2)] include_ops_again [OF x(4)] fin x(5))
qed

text \<open>C10: Every node accepts an honestly built block. If building succeeds, then rebuilding the
  block at the same or a later time, on a node in the same state that has only parsed it,
  succeeds with the very same result, whatever transactions and operations the
  builder had skipped: the same block, ancestors and worst-case bounds.\<close>

theorem build_then_rebuild:
  assumes "rebuilder_laws B R"
    and "build E calc H S openDB src now transactionsByPriority B bCtx parent w = (Inr b, w')"
    and "EthBlock w v = EthBlock w' b" and "now \<le> now'"
  shows "rebuild E calc H S openDB src' now' R bCtx parent v w = (Inr b, w')"
  using assms by (rule rebuild_of_build)

text \<open>A builder whose block carries the number of its operations, on a synchronous block.\<close>

definition unit_builder :: "unit list \<Rightarrow> unit builder" where
  "unit_builder ops =
     \<lparr>BuildHeader = (\<lambda>p. Inr (sample_header\<lparr>ParentHash := hdr_extra p, Number := Number p + 1\<rparr>)),
      PotentialEndOfBlockOps = (\<lambda>_ _ _. ops), AsOp = (\<lambda>_. sample_op 0),
      BuildBlock = (\<lambda>h _ txs _ ops _. Inr \<lparr>eb_header = sample_header\<lparr>ParentHash := ParentHash h, Number := Number h,
        hdr_extra := 100 + length ops\<rparr>, eb_txs = txs\<rparr>)\<rparr>"

definition unit_rebuilder :: "eth_block \<Rightarrow> unit builder res" where
  "unit_rebuilder eb = Inr (unit_builder (replicate (hdr_extra (eb_header eb) - 100) ()))"

lemma overwrite_Number:
  assumes "h' = overwrite_reserved h h'"
  shows "Number h' = Number h"
  by (subst assms) (simp add: overwrite_reserved_def)

lemma unit_rebuilder_laws: "rebuilder_laws (unit_builder ops) unit_rebuilder"
proof -
  have "replicate (length os) () = os" for os by (induction os) simp_all
  then show ?thesis
    unfolding rebuilder_laws_def
    by (auto simp: unit_rebuilder_def unit_builder_def dest!: overwrite_Number)
qed

definition sample_block1 :: eth_block where
  "sample_block1 = \<lparr>eb_header = sample_header\<lparr>ParentHash := 1, Number := 1, hdr_extra := 100\<rparr>, eb_txs = []\<rparr>"

definition sample_sync :: "(db_write list, (u64 \<times> encoding) list) world" where
  "sample_sync = (init_world (\<lambda>_. zero_blk sample_block1) [] [])\<lparr>fresh := 2,
     heap := (\<lambda>b. if b = 0 then (zero_blk (sample_eth 0))\<lparr>synchronous := True, executed_closed := True, settled_closed := True,
       execution := Some \<lparr>byGas = sample_gtime, er_baseFee = 1, receiptRoot = 0, stateRootPost = 5, byWall = 0, er_receipts = []\<rparr>\<rparr>
       else zero_blk sample_block1)\<rparr>"

text \<open>What of that world the example below uses.\<close>

definition sync_ready :: "(db_write list, (u64 \<times> encoding) list, 'z) world_scheme \<Rightarrow> bool" where
  "sync_ready w \<longleftrightarrow> heap w = heap sample_sync \<and> fresh w = 2"

lemma sync_ready_facts:
  assumes "sync_ready w"
  shows "Settled w 0" "ExecutedByGasTime w 0 = Inr sample_gtime" "PostExecutionStateRoot w 0 = Inr 5"
    "Executed w 0" "Header w 0 = eb_header (sample_eth 0)" "LastSettled w 0 = Some 0"
    "Hash sample_env w 0 = 1" "EthBlock w 1 = sample_block1" "Range w (Some 0) (Some 0) = Inr []" "fresh w = 2"
  using assms
  by (simp_all add: sync_ready_def sample_sync_def Settled_def ExecutedByGasTime_def executionArtefact_def
      PostExecutionStateRoot_def Executed_def accessor_defs LastSettled_def Range_def deref_def sample_eth_def
      sample_env_def zero_blk_def)

lemma LastToSettleAt_settled:
  assumes "Settled w b" and "proxytime_Of t = Inr tm"
  shows "LastToSettleAt H w t (Some b) = Some (Inr (Some b, True))"
  using assms by (simp add: LastToSettleAt_def LastToSettleAt_loop.simps)

definition sample_skipped :: lazy_tx where
  "sample_skipped = \<lparr>lt_Hash = 3, lt_Resolve = None, lt_GasFeeCap = 0, lt_GasTipCap = 0, lt_Gas = 0, lt_Sender = 0\<rparr>"

lemma sample_build:
  assumes ready: "sync_ready w"
  shows "\<exists>w'. build sample_env (\<lambda>m x k. max m x) flat_points flat_statedb (\<lambda>_. Inr ((\<lambda>_. 0), (\<lambda>_. 0))) (\<lambda>_ _. None) 0
      (\<lambda>_. [sample_skipped]) (unit_builder []) None 0 w = (Inr 2, w') \<and> EthBlock w' 2 = sample_block1"
proof -
  let ?calc = "\<lambda>m x k :: u64. max m x" and ?db = "((\<lambda>_. 0), (\<lambda>_. 0)) :: (address \<Rightarrow> u256) \<times> (address \<Rightarrow> u64)"
  let ?h = "sample_header\<lparr>ParentHash := 1, Number := 1\<rparr>"
  have hr: "BuildHeader (unit_builder []) (Header w 0) = Inr ?h"
    by (simp add: unit_builder_def sync_ready_facts [OF ready] sample_eth_def)
  have "unat (hdr_Time (?h\<lparr>Root := 5\<rparr>)) < 2 ^ 62 - 1" by (simp add: sample_header_def)
  then obtain clk where clk: "BeforeBlock flat_points sample_gtime (?h\<lparr>Root := 5\<rparr>) = Inr clk" "gtime_inv clk" "in_range clk"
    using BeforeBlock_in_range [OF sample_gtime_inv flat_points_subsecond] by blast
  obtain tm where tm: "proxytime_Of (PreciseTime flat_points ?h - Tau) = Inr tm"
    using Tick_never_panics [of "proxytime_New (word_of_int (Time_Unix (PreciseTime flat_points ?h - Tau))) 1000000000"]
    by (auto simp: proxytime_Of_def Let_def proxytime_New_def ptime_inv_def)
  have pt: "PreciseTime flat_points ?h = 9000000000" "PreciseTime flat_points (eb_header (sample_eth 0)) = 9000000000"
    by (simp_all add: PreciseTime_def preciseTime_def time_Unix_def flat_points_def sample_header_def sample_eth_def time_Second_def)
  have ls: "lastToSettle flat_points ?h 0 0 w = (Inr 0, w)"
    unfolding lastToSettle_def mbind_run sync_ready_facts(5) [OF ready] pt Let_def
    using LastToSettleAt_settled [OF sync_ready_facts(1) [OF ready] tm [unfolded pt], of flat_points]
    by (simp add: prog_simps deref_def maxFutureBlockDuration_def maxFutureBlockSeconds_def
        time_Second_def Time_Unix_def TauSeconds_def)
  define s0 where "s0 = \<lparr>st_db = ?db, clock = sample_gtime, expectedParentHash = 1, qSize = 0, blockSize = 0,
      maxBlockSize = 0, st_baseFee = None, curr = None, st_signer = (0, 0), minOpBurnerBalances = []\<rparr>"
  have ns: "NewState sample_env (\<lambda>_. Inr ?db) w 0 = Inr s0"
    by (simp add: NewState_def sync_ready_facts [OF ready] s0_def)
  define s1 where "s1 = snd (StartBlock sample_env ?calc flat_points (?h\<lparr>Root := 5\<rparr>) s0)"
  have r1: "StartBlock sample_env ?calc flat_points (?h\<lparr>Root := 5\<rparr>) s0 = (Inr (), s1)"
    using clk(1) by (simp add: s1_def StartBlock_def prog_simps s0_def sample_header_def)
  have s1: "clock s1 = clk" "blockSize s1 = 0" "\<exists>f. st_baseFee s1 = Some f" "\<exists>h. curr s1 = Some h"
    using clk(1) by (simp_all add: s1_def StartBlock_def prog_simps s0_def sample_header_def Let_def)
  obtain hc f where c: "curr s1 = Some hc" "st_baseFee s1 = Some f" using s1 by blast
  have "GasPriceConfig_Validate (snd (GasConfigAfter flat_points hc)) = None"
    by (simp add: flat_points_def DefaultGasPriceConfig_def GasPriceConfig_Validate_def)
  then obtain clk' where a: "AfterBlock ?calc flat_points clk 0 hc = Inr (clk', None)"
    using after_clock_defined [OF clk(2,3), of flat_points hc ?calc 0]
    by (auto simp: after_clock_def res_bind_eq_Inr split: option.splits prod.splits)
  obtain bnds s2 where f: "FinishBlock ?calc flat_points s1 = (Inr bnds, s2)"
    using a s1 c by (simp add: FinishBlock_def prog_simps)
  have st: "buildWithTxs_state sample_env ?calc flat_points flat_statedb (\<lambda>_. Inr ?db) 0 0 ?h w
    = (Inr (0, ?h\<lparr>Root := 5, GasLimit := wc_GasLimit s1, BaseFee := map_option uint (wc_BaseFee s1)\<rparr>, s1), w)"
    unfolding buildWithTxs_state_def mbind_run
    by (simp add: prog_simps reserved_fields_set_def sample_header_def ls [unfolded sample_header_def, simplified]
        sync_ready_facts [OF ready] ns run_wc_def r1 [unfolded sample_header_def, simplified] Let_def)
  have inc: "include_txs sample_env flat_points flat_statedb [sample_skipped] s1 = Inr ([], s1)"
    by (simp add: sample_skipped_def)
  have rc: "settled_receipts w 0 0 = Inr []" by (simp add: settled_receipts_def sync_ready_facts [OF ready])
  have fr: "fresh w = 2" using ready by (rule sync_ready_facts(10))
  have chk: "SetAncestors_check sample_env 2 (Some 0) (w\<lparr>heap := (heap w)(2 := zero_blk sample_block1),
      fresh := 3, inMemoryBlockCount := inMemoryBlockCount w + 1\<rparr>) = None"
    using ready by (simp add: SetAncestors_check_def accessor_defs sync_ready_def sample_sync_def zero_blk_def
        sample_eth_def sample_block1_def sample_header_def sample_env_def)
  let ?hdr = "?h\<lparr>Root := 5, GasLimit := wc_GasLimit s1, BaseFee := map_option uint (wc_BaseFee s1)\<rparr>"
  have bb: "BuildBlock (unit_builder []) (?hdr\<lparr>GasUsed := wc_GasUsed s1\<rparr>) None [] [] [] n = Inr sample_block1" for n
    by (simp add: unit_builder_def sample_block1_def)
  have new: "blocks_New sample_env (Some sample_block1) (Some 0) (Some 0) w
    = (Inr 2, upd_blk 2 (\<lambda>k. k\<lparr>ancestry := Some \<lparr>anc_parent = Some 0, anc_lastSettled = Some 0\<rparr>\<rparr>)
        (w\<lparr>heap := (heap w)(2 := zero_blk sample_block1),
          fresh := 3, inMemoryBlockCount := inMemoryBlockCount w + 1\<rparr>))"
    using chk by (simp add: blocks_New_def SetAncestors_def prog_simps fr)
  have fin: "\<exists>w'. buildWithTxs_finish sample_env ?calc flat_points (unit_builder []) None 0 0 ?hdr [] [] s1 w
      = (Inr 2, w') \<and> EthBlock w' 2 = sample_block1"
    unfolding buildWithTxs_finish_def mbind_mreturn
    by (simp add: prog_simps run_wc_def f rc bb [simplified] new SetWorstCaseBounds_def EthBlock_def zero_blk_fields)
  have "PotentialEndOfBlockOps (unit_builder []) hd l s = []" for hd l s by (simp add: unit_builder_def)
  then have "build sample_env ?calc flat_points flat_statedb (\<lambda>_. Inr ?db) (\<lambda>_ _. None) 0
      (\<lambda>_. [sample_skipped]) (unit_builder []) None 0 w
    = buildWithTxs_finish sample_env ?calc flat_points (unit_builder []) None 0 0 ?hdr [] [] s1 w"
    unfolding build_def buildWithTxs_def mbind_run hr
    by (simp only: mbind_apply mlift_apply prod.case sum.case st inc include_ops.simps mget_apply)
  then show ?thesis using fin by simp
qed

lemma sample_sync_ready: "sync_ready sample_sync"
  by (simp add: sync_ready_def sample_sync_def)

theorem build_then_rebuild_witness:
  "\<exists>w'. rebuild sample_env (\<lambda>m x k. max m x) flat_points flat_statedb (\<lambda>_. Inr ((\<lambda>_. 0), (\<lambda>_. 0))) (\<lambda>_ _. None) 1
      unit_rebuilder None 0 1 sample_sync = (Inr 2, w') \<and> EthBlock w' 2 = sample_block1"
proof -
  obtain w' where b: "build sample_env (\<lambda>m x k. max m x) flat_points flat_statedb (\<lambda>_. Inr ((\<lambda>_. 0), (\<lambda>_. 0))) (\<lambda>_ _. None) 0
      (\<lambda>_. [sample_skipped]) (unit_builder []) None 0 sample_sync = (Inr 2, w')" "EthBlock w' 2 = sample_block1"
    using sample_build [OF sample_sync_ready] by blast
  have "rebuild sample_env (\<lambda>m x k. max m x) flat_points flat_statedb (\<lambda>_. Inr ((\<lambda>_. 0), (\<lambda>_. 0))) (\<lambda>_ _. None) 1
      unit_rebuilder None 0 1 sample_sync = (Inr 2, w')"
    by (rule build_then_rebuild [OF unit_rebuilder_laws b(1)]) (simp_all add: b(2) sync_ready_facts(8) [OF sample_sync_ready, unfolded One_nat_def])
  then show ?thesis using b(2) by blast
qed

end
