(* ===== verification/Access.thy ===== *)
theory Access
  imports Settlement
begin

text \<open>
  Access to blocks by number or hash (\<^verbatim>\<open>src/blocks/access.go\<close>).

  The frontiers of the interface \<^verbatim>\<open>Chain\<close> are the atomic pointers of the \<open>world\<close>; its
  \<^verbatim>\<open>ConsensusCriticalBlock\<close> method is the argument \<open>crit\<close>. A \<^verbatim>\<open>*T\<close> result is an \<open>option\<close>, as a
  reader may return nil without an error.
\<close>

section \<open>Numbers, hashes and readers\<close>

text \<open>
  The named values of \<^verbatim>\<open>rpc.BlockNumber\<close> that the code distinguishes; every other value,
  negative ones included, is a \<open>BlockNumber\<close>. The named values are negative.
\<close>

datatype rpc_number = PendingBlockNumber | LatestBlockNumber | SafeBlockNumber | FinalizedBlockNumber
  | BlockNumber int

fun rpc_negative :: "rpc_number \<Rightarrow> bool" where
  "rpc_negative (BlockNumber n) \<longleftrightarrow> n < 0"
| "rpc_negative _ \<longleftrightarrow> True"

fun rpc_uint64 :: "rpc_number \<Rightarrow> u64" where
  "rpc_uint64 (BlockNumber n) = word_of_int n"
| "rpc_uint64 _ = 0"

record number_or_hash =
  nh_Number :: "rpc_number option"
  nh_Hash :: "hash option"
  RequireCanonical :: bool

type_synonym ('kv, 't) db_reader = "'kv \<Rightarrow> hash \<Rightarrow> u64 \<Rightarrow> 't option"
type_synonym ('kv, 't) db_reader_err = "'kv \<Rightarrow> hash \<Rightarrow> u64 \<Rightarrow> 't option res"

definition frontier :: "('kv, 'x, 'z) world_scheme \<Rightarrow> cell \<Rightarrow> ptr res" where
  "frontier w c = deref (cells w c)"

section \<open>Resolution\<close>

definition ResolveRPCNumber :: "('kv, 'x, 'z) world_scheme \<Rightarrow> rpc_number \<Rightarrow> u64 res" where
  "ResolveRPCNumber w bn =
     res_bind (frontier w CellLastAccepted) (\<lambda>acc.
     let tip = Height w acc in
     case bn of
       PendingBlockNumber \<Rightarrow> Inr tip
     | LatestBlockNumber \<Rightarrow> res_bind (frontier w CellLastExecuted) (\<lambda>b. Inr (Height w b))
     | SafeBlockNumber \<Rightarrow> res_bind (frontier w CellLastSettled) (\<lambda>b. Inr (Height w b))
     | FinalizedBlockNumber \<Rightarrow> res_bind (frontier w CellLastSettled) (\<lambda>b. Inr (Height w b))
     | BlockNumber n \<Rightarrow>
         if n < 0 then Inl (ErrOther ''block unsupported'')
         else if tip < word_of_int n then Inl (Wrap [ErrFutureBlockNotResolved])
         else Inr (word_of_int n))"

definition ResolveRPCNumberOrHash :: "('kv, 'x, 'e) env_scheme \<Rightarrow> ('kv, 'x, 'z) world_scheme
    \<Rightarrow> (hash \<Rightarrow> ptr option) \<Rightarrow> number_or_hash \<Rightarrow> (u64 \<times> hash) res" where
  "ResolveRPCNumberOrHash E w crit nh =
     (case (nh_Number nh, nh_Hash nh) of
        (Some _, Some _) \<Rightarrow> Inl ErrBothNumberAndHash
      | (Some rpcNum, None) \<Rightarrow>
          res_bind (ResolveRPCNumber w rpcNum) (\<lambda>num. Inr (num, ReadCanonicalHash E (kvdb w) num))
      | (None, Some hash) \<Rightarrow>
          (case crit hash of
             Some bl \<Rightarrow>
               let n = NumberU64 w bl
               in if RequireCanonical nh \<and> hash \<noteq> ReadCanonicalHash E (kvdb w) n
                  then Inl (Wrap [ErrNonCanonicalBlock]) else Inr (n, hash)
           | None \<Rightarrow>
               (case ReadHeaderNumber E (kvdb w) hash of
                  None \<Rightarrow> Inl (Wrap [ErrNotFound])
                | Some n \<Rightarrow> Inr (n, hash)))
      | (None, None) \<Rightarrow> Inl ErrNeitherNumberNorHash)"

section \<open>Reading\<close>

definition WithNilErr :: "('kv, 't) db_reader \<Rightarrow> ('kv, 't) db_reader_err" where
  "WithNilErr r = (\<lambda>db h n. Inr (r db h n))"

definition FromNumber :: "('kv, 'x, 'e) env_scheme \<Rightarrow> ('kv, 'x, 'z) world_scheme \<Rightarrow> rpc_number
    \<Rightarrow> ('kv, 't) db_reader_err \<Rightarrow> 't option res" where
  "FromNumber E w n fromDB =
     res_bind (ResolveRPCNumber w n) (\<lambda>num.
     fromDB (kvdb w) (ReadCanonicalHash E (kvdb w) num) num)"

definition FromHash :: "('kv, 'x, 'e) env_scheme \<Rightarrow> ('kv, 'x, 'z) world_scheme \<Rightarrow> (hash \<Rightarrow> ptr option)
    \<Rightarrow> hash \<Rightarrow> bool \<Rightarrow> (ptr \<Rightarrow> 't option) \<Rightarrow> ('kv, 't) db_reader_err \<Rightarrow> 't option res" where
  "FromHash E w crit hash requireCanonical fromConsensus fromDB =
     (case crit hash of
        Some blk \<Rightarrow>
          if requireCanonical \<and> hash \<noteq> ReadCanonicalHash E (kvdb w) (NumberU64 w blk)
          then Inl (Wrap [ErrNonCanonicalBlock]) else Inr (fromConsensus blk)
      | None \<Rightarrow>
          (case ReadHeaderNumber E (kvdb w) hash of
             None \<Rightarrow> Inl ErrNotFound
           | Some num \<Rightarrow> fromDB (kvdb w) hash num))"

definition FromNumberOrHash :: "('kv, 'x, 'e) env_scheme \<Rightarrow> ('kv, 'x, 'z) world_scheme
    \<Rightarrow> (hash \<Rightarrow> ptr option) \<Rightarrow> number_or_hash \<Rightarrow> (ptr \<Rightarrow> 't option)
    \<Rightarrow> ('kv, 't) db_reader_err \<Rightarrow> 't option res" where
  "FromNumberOrHash E w crit nh fromConsensus fromDB =
     res_bind (ResolveRPCNumberOrHash E w crit nh) (\<lambda>(n, hash).
     case crit hash of Some blk \<Rightarrow> Inr (fromConsensus blk) | None \<Rightarrow> fromDB (kvdb w) hash n)"

definition FromNumberAndHash :: "('kv, 'x, 'z) world_scheme
    \<Rightarrow> (hash \<Rightarrow> ptr option) \<Rightarrow> hash \<Rightarrow> rpc_number \<Rightarrow> (ptr \<Rightarrow> 't option)
    \<Rightarrow> ('kv, 't) db_reader_err \<Rightarrow> 't option res" where
  "FromNumberAndHash w crit hash rpcNum fromConsensus fromDB =
     (if hash = 0 then Inl (ErrOther ''empty block hash'')
      else if rpc_negative rpcNum then Inl (ErrOther ''named blocks not supported'')
      else let n = rpc_uint64 rpcNum
           in case crit hash of
                Some b \<Rightarrow> if NumberU64 w b \<noteq> n then Inl (Wrap [ErrNotFound]) else Inr (fromConsensus b)
              | None \<Rightarrow> fromDB (kvdb w) hash n)"

section \<open>What is resolved\<close>

text \<open>
  A chain whose frontiers are set and in the order of the life cycle, in which a
  consensus-critical block has the hash it is known by and only canonical blocks are written
  to the database.
\<close>

definition chain_ok :: "('kv, 'x, 'e) env_scheme \<Rightarrow> ('kv, 'x, 'z) world_scheme \<Rightarrow> (hash \<Rightarrow> ptr option) \<Rightarrow> bool" where
  "chain_ok E w crit \<longleftrightarrow>
     (\<exists>a e s. cells w CellLastAccepted = Some a \<and> cells w CellLastExecuted = Some e
        \<and> cells w CellLastSettled = Some s \<and> Height w s \<le> Height w e \<and> Height w e \<le> Height w a)
   \<and> (\<forall>h b. crit h = Some b \<longrightarrow> Hash E w b = h)
   \<and> (\<forall>h n. ReadHeaderNumber E (kvdb w) h = Some n \<longrightarrow> ReadCanonicalHash E (kvdb w) n = h)"

lemma chain_ok_frontiers:
  assumes "chain_ok E w crit"
  obtains a e s where "cells w CellLastAccepted = Some a" and "cells w CellLastExecuted = Some e"
    and "cells w CellLastSettled = Some s" and "Height w s \<le> Height w e" and "Height w e \<le> Height w a"
  using assms by (auto simp: chain_ok_def)

lemma ResolveRPCNumber_labels:
  assumes "chain_ok E w crit"
  shows "\<exists>f l p. ResolveRPCNumber w FinalizedBlockNumber = Inr f \<and> ResolveRPCNumber w SafeBlockNumber = Inr f
    \<and> ResolveRPCNumber w LatestBlockNumber = Inr l \<and> ResolveRPCNumber w PendingBlockNumber = Inr p
    \<and> f \<le> l \<and> l \<le> p"
  using assms by (elim chain_ok_frontiers) (simp add: ResolveRPCNumber_def frontier_def deref_def)

lemma ResolveRPCNumber_explicit:
  assumes "chain_ok E w crit" and "ResolveRPCNumber w PendingBlockNumber = Inr p"
    and "0 \<le> n" and "n < 2 ^ 63"
  shows "ResolveRPCNumber w (BlockNumber n)
    = (if n \<le> uint p then Inr (word_of_int n) else Inl (Wrap [ErrFutureBlockNotResolved]))"
proof -
  have u: "uint (word_of_int n :: u64) = n" using assms(3,4) by (simp add: uint_word_of_int)
  obtain a where a: "cells w CellLastAccepted = Some a" using assms(1) by (elim chain_ok_frontiers)
  then have "Height w a = p" using assms(2) by (simp add: ResolveRPCNumber_def frontier_def deref_def)
  then show ?thesis
    using a assms(3) by (auto simp: ResolveRPCNumber_def frontier_def deref_def Let_def word_less_def u)
qed

lemma ResolveRPCNumberOrHash_error:
  assumes "chain_ok E w crit" and "ResolveRPCNumberOrHash E w crit nh = Inl err"
    and "(nh_Number nh = None) \<noteq> (nh_Hash nh = None)" and "\<forall>i. nh_Number nh = Some (BlockNumber i) \<longrightarrow> 0 \<le> i"
  shows "errors_Is err ErrNotFound"
proof (cases "nh_Number nh")
  case None
  then obtain h where "nh_Hash nh = Some h" using assms(3) by auto
  then show ?thesis using None assms(2)
    by (auto simp: ResolveRPCNumberOrHash_def Let_def split: option.splits if_splits)
next
  case (Some bn)
  then have none: "nh_Hash nh = None" using assms(3) by auto
  obtain a e s where "cells w CellLastAccepted = Some a" "cells w CellLastExecuted = Some e"
    "cells w CellLastSettled = Some s" using assms(1) by (elim chain_ok_frontiers)
  then show ?thesis using Some none assms(2,4)
    by (cases bn) (auto simp: ResolveRPCNumberOrHash_def ResolveRPCNumber_def frontier_def deref_def Let_def
        split: if_splits)
qed

lemma ResolveRPCNumberOrHash_canonical:
  assumes "chain_ok E w crit" and "ResolveRPCNumberOrHash E w crit nh = Inr (n, h)"
    and "nh_Number nh \<noteq> None \<or> RequireCanonical nh"
  shows "ReadCanonicalHash E (kvdb w) n = h"
  using assms by (auto simp: ResolveRPCNumberOrHash_def chain_ok_def Let_def res_bind_eq_Inr
      split: option.splits if_splits)

lemma ResolveRPCNumberOrHash_hash:
  assumes "ResolveRPCNumberOrHash E w crit nh = Inr (n, h)" and "nh_Hash nh = Some h'"
  shows "nh_Number nh = None \<and> h = h'
    \<and> (case crit h of Some b \<Rightarrow> NumberU64 w b = n | None \<Rightarrow> ReadHeaderNumber E (kvdb w) h = Some n)"
  using assms by (auto simp: ResolveRPCNumberOrHash_def Let_def split: option.splits if_splits)


definition sample_chain :: "(db_write list, (u64 \<times> encoding) list) world" where
  "sample_chain = sample_world6
     \<lparr>cells := (\<lambda>c. if c = CellLastAccepted then Some 1 else Some 0),
      kvdb := [WriteBlock (sample_eth 0), WriteCanonicalHash 1 0]\<rparr>"

lemma sample_chain_ok: "chain_ok sample_env sample_chain [2 \<mapsto> 1]"
proof -
  have "Height sample_chain 0 \<le> Height sample_chain 1" "Hash sample_env sample_chain 1 = 2" by code_simp+
  moreover have "cells sample_chain = (\<lambda>c. if c = CellLastAccepted then Some 1 else Some 0)"
    "kvdb sample_chain = [WriteBlock (sample_eth 0), WriteCanonicalHash 1 0]"
    by (simp_all add: sample_chain_def)
  ultimately show ?thesis
    by (auto simp: chain_ok_def sample_env_def sample_eth_def split: if_splits)
qed


end
