(* ===== verification/Consensus.thy ===== *)
theory Consensus
  imports BlockBuilder Access
begin

text \<open>
  The VM's interface to consensus (\<^verbatim>\<open>src/sae/blocks.go\<close>, \<^verbatim>\<open>src/sae/consensus.go\<close> and the life cycle
  in \<^verbatim>\<open>src/sae/vm.go\<close>).

  \<open>vm_world\<close> adds the VM's own fields to the executor's. The map of consensus-critical blocks
  is the \<open>sync_map\<close> of \<^verbatim>\<open>sae.go\<close>, whose callbacks keep the state roots of its blocks alive in
  the executor's tracker. Pointers that may be nil are options, nil results included.
\<close>

section \<open>The VM\<close>

datatype snow_state = Initializing | StateSyncing | Bootstrapping | NormalOp

record ('kv, 'x, 't, 'c) vm_world = "('kv, 'x, 't, 'c) exec_world" +
  consensusState :: snow_state
  last_synchronous :: u64
  critical :: "(hash \<times> ptr) list"
  acceptedBlocks :: "ptr list"

text \<open>The callbacks of \<^verbatim>\<open>consensusCriticalBlocks\<close>, which run inside \<^verbatim>\<open>Store\<close> and \<^verbatim>\<open>Delete\<close>.\<close>

definition critical_onStore :: "'t triedb \<Rightarrow> ('kv, 'x, 'z) world_scheme \<Rightarrow> ptr \<Rightarrow> 't tracker \<Rightarrow> 't tracker" where
  "critical_onStore D w b t = Track D (SettledStateRoot w b) t"

definition critical_onDelete :: "'t triedb \<Rightarrow> ('kv, 'x, 'z) world_scheme \<Rightarrow> ptr \<Rightarrow> 't tracker \<Rightarrow> 't tracker" where
  "critical_onDelete D w b t =
     (let t = Untrack D (SettledStateRoot w b) t
      in case execution (heap w b) of None \<Rightarrow> t | Some e \<Rightarrow> Untrack D (stateRootPost e) t)"

definition critical_map :: "('kv, 'x, 't, 'c, 'z) vm_world_scheme \<Rightarrow> (hash, ptr, 't tracker) sync_map" where
  "critical_map w = \<lparr>sm_m = critical w, sm_state = ex_tracker w\<rparr>"

definition critical_Load :: "('kv, 'x, 't, 'c, 'z) vm_world_scheme \<Rightarrow> hash \<Rightarrow> ptr option" where
  "critical_Load w h = sm_Load (critical_map w) h"

definition critical_Store :: "'t triedb \<Rightarrow> hash \<Rightarrow> ptr \<Rightarrow> (('kv, 'x, 't, 'c, 'z) vm_world_scheme, unit) prog" where
  "critical_Store D h b = mmod (\<lambda>w.
     let m = sm_Store (critical_onStore D w) h b (critical_map w)
     in w\<lparr>critical := sm_m m, ex_tracker := sm_state m\<rparr>)"

definition critical_Delete :: "'t triedb \<Rightarrow> hash \<Rightarrow> (('kv, 'x, 't, 'c, 'z) vm_world_scheme, unit) prog" where
  "critical_Delete D h = mmod (\<lambda>w.
     let m = sm_Delete (critical_onDelete D w) h (critical_map w)
     in w\<lparr>critical := sm_m m, ex_tracker := sm_state m\<rparr>)"

section \<open>Parsing and building (blocks.go)\<close>

definition ParseBlock :: "('kv, 'x, 'e) env_scheme \<Rightarrow> gotime \<Rightarrow> encoding
    \<Rightarrow> (('kv, 'x, 't, 'c, 'z) vm_world_scheme, ptr) prog" where
  "ParseBlock E now buf =
     mbind (mmap_err (\<lambda>_. ErrOther ''rlp.DecodeBytes()'') (mlift (RLPDecode E buf))) (\<lambda>b.
     mbind (mguard (0 \<le> Number (eb_header b) \<and> Number (eb_header b) < 2 ^ 64) ErrBlockHeightNotUint64) (\<lambda>_.
     mbind (mguard (\<not> hdr_Time (eb_header b) > unix now + maxFutureBlockSeconds) (Wrap [ErrBlockTooFarInFuture])) (\<lambda>_.
     blocks_New E (Some b) None None)))"

definition BuildBlock_vm :: "('kv, 'x, 'e) env_scheme \<Rightarrow> price_fun \<Rightarrow> ('db, 'a) points_scheme \<Rightarrow> 'db statedb
    \<Rightarrow> (hash \<Rightarrow> 'db res) \<Rightarrow> (hash \<Rightarrow> u64 \<Rightarrow> eth_block option) \<Rightarrow> gotime \<Rightarrow> (u256 option \<Rightarrow> lazy_tx list)
    \<Rightarrow> ('tx, 'u) builder_scheme \<Rightarrow> nat option \<Rightarrow> (('kv, 'x, 't, 'c, 'z) vm_world_scheme, ptr) prog" where
  "BuildBlock_vm E calc H S openDB src now transactionsByPriority B bCtx =
     mbind (mget (\<lambda>w. deref (cells w CellPreference))) (\<lambda>p.
     mbind (mlift p) (\<lambda>preference.
     build E calc H S openDB src now transactionsByPriority B bCtx preference))"

section \<open>Blocks by hash and height (blocks.go)\<close>

definition canonicalBlock :: "('kv, 'x, 'e) env_scheme \<Rightarrow> 'kv \<Rightarrow> u64 \<Rightarrow> eth_block res" where
  "canonicalBlock E kv num =
     (case ReadBlock E kv (ReadCanonicalHash E kv num) num of
        None \<Rightarrow> Inl (ErrOther ''no canonical block at height'')
      | Some b \<Rightarrow> Inr b)"

definition settledBlockFromDB :: "('kv, 'x, 'e) env_scheme \<Rightarrow> ('db, 'a) points_scheme \<Rightarrow> gas \<Rightarrow> hash \<Rightarrow> u64
    \<Rightarrow> (('kv, 'x, 't, 'c, 'z) vm_world_scheme, ptr option) prog" where
  "settledBlockFromDB E H excessAfter hash num =
     mbind (mget (\<lambda>w. deref (cells w CellLastSettled))) (\<lambda>s.
     mbind (mlift s) (\<lambda>s.
     mbind (mget (\<lambda>w. Height w s < num)) (\<lambda>unsettled.
     mbind (mguard (\<not> unsettled) ErrDatabaseNotFound) (\<lambda>_.
     mbind (mget (\<lambda>w. ReadBlock E (kvdb w) hash num)) (\<lambda>ethB.
     mbind (mget (\<lambda>w. num > last_synchronous w)) (\<lambda>async.
     if async then mbind (RestoreSettledBlock E ethB) (\<lambda>b. mreturn (Some b))
     else mbind (blocks_New E ethB None None) (\<lambda>b.
          mbind (MarkSynchronous E H b excessAfter) (\<lambda>_.
          mreturn (Some b)))))))))"

text \<open>
  \<^verbatim>\<open>GetBlock\<close> reads through \<open>FromHash\<close>, whose database reader is the program above; an error
  that is not a \<^verbatim>\<open>blocks.ErrNotFound\<close> is dropped and the nil block is returned.
\<close>

definition GetBlock_result :: "go_error \<Rightarrow> (('kv, 'x, 't, 'c, 'z) vm_world_scheme, ptr option) prog" where
  "GetBlock_result err =
     (if stops err then mfail err
      else if errors_Is err ErrNotFound then mfail ErrDatabaseNotFound
      else mreturn None)"

definition GetBlock :: "('kv, 'x, 'e) env_scheme \<Rightarrow> ('db, 'a) points_scheme \<Rightarrow> gas \<Rightarrow> hash
    \<Rightarrow> (('kv, 'x, 't, 'c, 'z) vm_world_scheme, ptr option) prog" where
  "GetBlock E H excessAfter h = (\<lambda>w.
     case FromHash E w (critical_Load w) h False (\<lambda>b. Some (mreturn (Some b)))
            (\<lambda>_ hash num. Inr (Some (settledBlockFromDB E H excessAfter hash num))) of
       Inl err \<Rightarrow> GetBlock_result err w
     | Inr None \<Rightarrow> (Inr None, w)
     | Inr (Some m) \<Rightarrow>
         (case m w of (Inl err, w') \<Rightarrow> GetBlock_result err w' | (Inr b, w') \<Rightarrow> (Inr b, w')))"

definition GetBlockIDAtHeight :: "('kv, 'x, 'e) env_scheme \<Rightarrow> ('kv, 'x, 'z) world_scheme \<Rightarrow> u64 \<Rightarrow> hash res" where
  "GetBlockIDAtHeight E w height =
     (let h = ReadCanonicalHash E (kvdb w) height
      in if h = 0 then Inl ErrDatabaseNotFound else Inr h)"

definition source :: "('kv, 'x, 't, 'c, 'z) vm_world_scheme \<Rightarrow> hash \<Rightarrow> u64 \<Rightarrow> (ptr \<Rightarrow> 'v)
    \<Rightarrow> ('kv \<Rightarrow> hash \<Rightarrow> u64 \<Rightarrow> 'v option) \<Rightarrow> 'v option" where
  "source w hash num fromMem fromDB =
     (case critical_Load w hash of
        Some b \<Rightarrow> if NumberU64 w b \<noteq> num then None else Some (fromMem b)
      | None \<Rightarrow> fromDB (kvdb w) hash num)"

definition ethBlockSource :: "('kv, 'x, 'e) env_scheme \<Rightarrow> ('kv, 'x, 't, 'c, 'z) vm_world_scheme \<Rightarrow> hash \<Rightarrow> u64
    \<Rightarrow> eth_block option" where
  "ethBlockSource E w hash num = source w hash num (EthBlock w) (ReadBlock E)"

definition headerSource :: "('kv, 'x, 'e) env_scheme \<Rightarrow> ('kv, 'x, 't, 'c, 'z) vm_world_scheme \<Rightarrow> hash \<Rightarrow> u64
    \<Rightarrow> header option" where
  "headerSource E w hash num = source w hash num (Header w) (ReadHeader E)"

section \<open>Verification (blocks.go)\<close>

definition verifyWhenBootstrapping :: "('kv, 'x, 'e) env_scheme \<Rightarrow> ('db, 'a) points_scheme \<Rightarrow> 't triedb \<Rightarrow> gotime
    \<Rightarrow> ptr \<Rightarrow> ptr option \<Rightarrow> (('kv, 'x, 't, 'c, 'z) vm_world_scheme, unit) prog" where
  "verifyWhenBootstrapping E H D now b parent =
     mbind (mget (\<lambda>w. Header w b)) (\<lambda>hdr.
     mbind (mlift (deref parent)) (\<lambda>parent.
     mbind (lastToSettle H hdr parent now) (\<lambda>lastSettled.
     mbind (mget (\<lambda>w. PostExecutionStateRoot w lastSettled)) (\<lambda>got.
     mbind (mlift got) (\<lambda>got.
     mbind (mget (\<lambda>w. got = SettledStateRoot w b)) (\<lambda>ok.
     mbind (mguard ok (Wrap [ErrSettledRootMismatch])) (\<lambda>_.
     mbind (mget (\<lambda>w. NumberU64 w lastSettled = SettledHeight H hdr)) (\<lambda>ok.
     mbind (mguard ok (Wrap [ErrSettledHeightMismatch])) (\<lambda>_.
     mbind (SetAncestors E b (Some parent) (Some lastSettled)) (\<lambda>_.
     mbind (mget (\<lambda>w. Hash E w b)) (\<lambda>h.
     critical_Store D h b)))))))))))"

definition VerifyBlock :: "('kv, 'x, 'e) env_scheme \<Rightarrow> price_fun \<Rightarrow> ('db, 'a) points_scheme \<Rightarrow> 'db statedb
    \<Rightarrow> 't triedb \<Rightarrow> (hash \<Rightarrow> 'db res) \<Rightarrow> (hash \<Rightarrow> u64 \<Rightarrow> eth_block option) \<Rightarrow> gotime \<Rightarrow> gas
    \<Rightarrow> (eth_block \<Rightarrow> ('tx, 'u) builder_scheme res) \<Rightarrow> nat option \<Rightarrow> ptr
    \<Rightarrow> (('kv, 'x, 't, 'c, 'z) vm_world_scheme, unit) prog" where
  "VerifyBlock E calc H S D openDB src now excessAfter blockRebuilderFrom bCtx b =
     mbind (mget (\<lambda>w. Block_ParentHash w b)) (\<lambda>ph.
     mbind (mmap_err (\<lambda>e. Wrap [ErrUnknownParent, e]) (GetBlock E H excessAfter ph)) (\<lambda>parent.
     mbind (mget (\<lambda>w. res_bind (deref (cells w CellLastAccepted)) (\<lambda>a. Inr (Height w b \<le> Height w a)))) (\<lambda>low.
     mbind (mlift low) (\<lambda>low.
     mbind (mguard (\<not> low) (Wrap [ErrBlockHeightTooLow])) (\<lambda>_.
     mbind (mget consensusState) (\<lambda>cs.
     if cs = Bootstrapping then verifyWhenBootstrapping E H D now b parent
     else
       mbind (mlift (deref parent)) (\<lambda>parent.
       mbind (rebuild E calc H S openDB src now blockRebuilderFrom bCtx parent b) (\<lambda>rebuilt.
       mbind (mget (\<lambda>w. Hash E w rebuilt = Hash E w b)) (\<lambda>same.
       mbind (mguard same (Wrap [ErrHashMismatch])) (\<lambda>_.
       mbind (CopyAncestorsFrom E b rebuilt) (\<lambda>_.
       mbind (mget (\<lambda>w. WorstCaseBounds w rebuilt)) (\<lambda>bnds.
       mbind (SetWorstCaseBounds b bnds) (\<lambda>_.
       mbind (mget (\<lambda>w. Hash E w b)) (\<lambda>h.
       critical_Store D h b))))))))))))))"

section \<open>Decisions (consensus.go)\<close>

definition SetPreference :: "('kv, 'x, 'e) env_scheme \<Rightarrow> ('db, 'a) points_scheme \<Rightarrow> gas \<Rightarrow> hash
    \<Rightarrow> (('kv, 'x, 't, 'c, 'z) vm_world_scheme, unit) prog" where
  "SetPreference E H excessAfter h =
     mbind (GetBlock E H excessAfter h) (\<lambda>b.
     mmod (\<lambda>w. case b of
       Some p \<Rightarrow> store_cell E CellPreference p w
     | None \<Rightarrow> w\<lparr>cells := (cells w)(CellPreference := None)\<rparr>))"

definition accept_batch :: "('kv, 'x, 'e) env_scheme \<Rightarrow> ('kv, 'x, 'z) world_scheme \<Rightarrow> ptr \<Rightarrow> ptr list \<Rightarrow> db_write list res" where
  "accept_batch E w b settles =
     res_bind (if settles = [] then Inr []
               else res_bind (deref (LastSettled w b)) (\<lambda>l. Inr [WriteFinalizedBlockHash (Hash E w l)])) (\<lambda>fin.
     Inr (fin @ [WriteBlock (EthBlock w b), WriteTxLookupEntriesByBlock (EthBlock w b),
                 WriteCanonicalHash (Hash E w b) (NumberU64 w b)]))"

text \<open>
  \<^verbatim>\<open>AcceptBlock\<close> up to the send to the subscribers, the push to the executor with one of
  its ready outcomes, the wait while bootstrapping, and the clean-up.
\<close>

definition AcceptBlock_commit :: "('kv, 'x, 'e) env_scheme \<Rightarrow> ptr
    \<Rightarrow> (('kv, 'x, 't, 'c, 'z) vm_world_scheme, ptr list \<times> ptr) prog" where
  "AcceptBlock_commit E b =
     mbind (mget (\<lambda>w. Settles w b)) (\<lambda>settles.
     mbind (mlift settles) (\<lambda>settles.
     mbind (mget (\<lambda>w. accept_batch E w b settles)) (\<lambda>batch.
     mbind (mlift batch) (\<lambda>batch.
     mbind (write_batch E batch) (\<lambda>_.
     mbind (mget (\<lambda>w. res_bind (deref (ParentBlock w b)) (\<lambda>p. deref (LastSettled w p)))) (\<lambda>parentLastSettled.
     mbind (mlift parentLastSettled) (\<lambda>parentLastSettled.
     mbind (mfor settles (\<lambda>s. MarkSettled E s (Some CellLastSettled))) (\<lambda>_.
     mbind (mmod (store_cell E CellLastAccepted b)) (\<lambda>_.
     mbind (mmod (\<lambda>w. emit (EvSendAccepted b) (w\<lparr>acceptedBlocks := acceptedBlocks w @ [b]\<rparr>))) (\<lambda>_.
     mreturn (settles, parentLastSettled)))))))))))"

definition Enqueue_outcome :: "ptr \<Rightarrow> bool \<Rightarrow> nat \<Rightarrow> (('kv, 'x, 't, 'c, 'z) exec_world_scheme, unit) prog" where
  "Enqueue_outcome b ctxDone pick = (\<lambda>w.
     let outcomes = Enqueue b ctxDone w
     in if outcomes = [] then (Inl Blocked, w) else outcomes ! (pick mod length outcomes))"

definition AcceptBlock_cleanup :: "('kv, 'x, 'e) env_scheme \<Rightarrow> 't triedb \<Rightarrow> ptr \<Rightarrow> ptr list \<Rightarrow> ptr
    \<Rightarrow> (('kv, 'x, 't, 'c, 'z) vm_world_scheme, unit) prog" where
  "AcceptBlock_cleanup E D b settles parentLastSettled =
     mbind (mget (\<lambda>w. res_bind (deref (LastSettled w b)) (\<lambda>l. Inr (Hash E w l)))) (\<lambda>keep.
     mbind (mlift keep) (\<lambda>keep.
     mbind (mget (\<lambda>w. (map (Hash E w) settles, Hash E w parentLastSettled))) (\<lambda>(hs, h).
     mbind (mfor (filter (\<lambda>h. h \<noteq> keep) hs) (critical_Delete D)) (\<lambda>_.
     if h \<noteq> keep then critical_Delete D h else mreturn ()))))"

definition AcceptBlock :: "('kv, 'x, 'e) env_scheme \<Rightarrow> 't triedb \<Rightarrow> bool \<Rightarrow> nat \<Rightarrow> ptr
    \<Rightarrow> (('kv, 'x, 't, 'c, 'z) vm_world_scheme, unit) prog" where
  "AcceptBlock E D ctxDone pick b =
     mbind (AcceptBlock_commit E b) (\<lambda>(settles, parentLastSettled).
     mbind (Enqueue_outcome b ctxDone pick) (\<lambda>_.
     mbind (mget (\<lambda>w. if consensusState w = Bootstrapping then
         (case WaitUntilExecuted w b ctxDone of
            [] \<Rightarrow> Inl Blocked
          | outs \<Rightarrow> (case outs ! (pick mod length outs) of
                      None \<Rightarrow> Inr () | Some _ \<Rightarrow> Inl (ErrOther ''waiting for block to execute'')))
       else Inr ())) (\<lambda>r.
     mbind (mlift r) (\<lambda>_.
     AcceptBlock_cleanup E D b settles parentLastSettled))))"

definition LastAccepted :: "('kv, 'x, 'e) env_scheme \<Rightarrow> ('kv, 'x, 'z) world_scheme \<Rightarrow> hash res" where
  "LastAccepted E w = res_bind (deref (cells w CellLastAccepted)) (\<lambda>b. Inr (Hash E w b))"

definition RejectBlock :: "('kv, 'x, 'e) env_scheme \<Rightarrow> 't triedb \<Rightarrow> ptr
    \<Rightarrow> (('kv, 'x, 't, 'c, 'z) vm_world_scheme, unit) prog" where
  "RejectBlock E D b = mbind (mget (\<lambda>w. Hash E w b)) (critical_Delete D)"

section \<open>The VM's own life cycle (vm.go)\<close>

definition SetState :: "snow_state \<Rightarrow> (('kv, 'x, 't, 'c, 'z) vm_world_scheme, unit) prog" where
  "SetState s = mmod (\<lambda>w. w\<lparr>consensusState := s\<rparr>)"

definition canonicaliseLastSynchronous :: "('kv, 'x, 'e) env_scheme \<Rightarrow> ptr \<Rightarrow> (('kv, 'x, 'z) world_scheme, unit) prog" where
  "canonicaliseLastSynchronous E b =
     mbind (mget (\<lambda>w. Synchronous w b)) (\<lambda>sync.
     mbind (mguard sync (ErrOther ''only synchronous block can be canonicalised'')) (\<lambda>_.
     mbind (mget (\<lambda>w. ReadCanonicalHash E (kvdb w) (NumberU64 w b + 1) \<noteq> 0)) (\<lambda>later.
     if later then mreturn ()
     else mbind (mget (\<lambda>w. SetAsHeadBlock E w b [WriteCanonicalHash (Hash E w b) (NumberU64 w b)]
                     @ [WriteFinalizedBlockHash (Hash E w b)])) (write_batch E))))"

text \<open>
  \<^verbatim>\<open>WaitForEvent\<close>: the number of pending transactions seen at the call and after each receive,
  the notifications received until the channel closes, and whether the context ends the wait.
\<close>

datatype wait_result = PendingTxs | VMClosed | ContextDone

fun WaitForEvent_loop :: "nat list \<Rightarrow> bool \<Rightarrow> wait_result option" where
  "WaitForEvent_loop [] chClosed = (if chClosed then Some VMClosed else None)"
| "WaitForEvent_loop (pending # later) chClosed =
     (if pending > 0 then Some PendingTxs else WaitForEvent_loop later chClosed)"

definition WaitForEvent :: "nat \<Rightarrow> nat list \<Rightarrow> bool \<Rightarrow> bool \<Rightarrow> wait_result option" where
  "WaitForEvent numPendingTxs received chClosed ctxDone =
     (if numPendingTxs > 0 then Some PendingTxs
      else case WaitForEvent_loop received chClosed of
        None \<Rightarrow> if ctxDone then Some ContextDone else None
      | Some r \<Rightarrow> Some r)"

text \<open>\<^verbatim>\<open>close\<close>: the closers run in reverse order, each on the state left by the previous ones, and
  all of them run; the errors are joined in the order of registration.\<close>

definition vm_close :: "('w \<Rightarrow> go_error option \<times> 'w) list \<Rightarrow> 'w \<Rightarrow> go_error option \<times> 'w" where
  "vm_close toClose w =
     (let (errs, w') = foldr (\<lambda>c (errs, w). case c w of (e, w') \<Rightarrow> (e # errs, w')) toClose ([], w)
      in (errors_Join errs, w'))"

section \<open>Acceptance\<close>

lemma MarkSettled_run_inv:
  assumes "heap_inv E w" and "s < fresh w" and "MarkSettled E s (Some CellLastSettled) w = (r, w')"
  obtains (err) e where "r = Inl e" and "w' = emit (EvLogError ''block re-settled'') w"
  | (ok) "r = Inr ()" and "w' = settled_world E s (Some CellLastSettled) w"
proof -
  have "markSettled E s (Some CellLastSettled) w = (r, w')" using assms(3) by (simp add: MarkSettled_def)
  then show thesis
  proof (cases rule: markSettled_cases)
    case closed
    then show ?thesis using assms(1,2) by (auto simp: heap_inv_def blk_ok_def Settled_def)
  qed (use that in auto)
qed

lemma settled_world_simps:
  "fresh (settled_world E s (Some c) w) = fresh w" "kvdb (settled_world E s (Some c) w) = kvdb w"
  "world.more (settled_world E s (Some c) w) = world.more w"
  "cells (settled_world E s (Some c) w) = (cells w)(c \<mapsto> s)"
  "same_eth w (settled_world E s (Some c) w)"
  "Settled (settled_world E s (Some c) w) b \<longleftrightarrow> b = s \<or> Settled w b"
  "\<exists>tr. trace (settled_world E s (Some c) w) = tr @ trace w"
  by (simp_all add: settled_world_def announce_def store_cell_def emit_def upd_blk_def same_eth_def Settled_def)

text \<open>What the settling loop of \<^verbatim>\<open>AcceptBlock\<close> does, on every outcome.\<close>

definition settling :: "('kv, 'x, 'z) world_scheme \<Rightarrow> ('kv, 'x, 'z) world_scheme \<Rightarrow> bool" where
  "settling w w' \<longleftrightarrow> fresh w' = fresh w \<and> kvdb w' = kvdb w \<and> world.more w' = world.more w \<and> same_eth w w'
     \<and> (\<forall>c. c \<noteq> CellLastSettled \<longrightarrow> cells w' c = cells w c) \<and> (\<exists>tr. trace w' = tr @ trace w)
     \<and> (\<forall>b. Settled w b \<longrightarrow> Settled w' b)"

lemma settling_trans: "settling w w' \<Longrightarrow> settling w' w'' \<Longrightarrow> settling w w''"
  by (auto simp: settling_def same_eth_def)

lemma settling_MarkSettled:
  assumes "heap_inv E w" and "s < fresh w" and "MarkSettled E s (Some CellLastSettled) w = (r, w')"
  shows "settling w w' \<and> (r = Inr () \<longrightarrow> Settled w' s \<and> cells w' CellLastSettled = Some s)"
  using assms
proof (cases rule: MarkSettled_run_inv)
  case ok
  then show ?thesis using settled_world_simps [where E = E and s = s and c = CellLastSettled and w = w] by (simp add: settling_def)
qed (auto simp: settling_def same_eth_def Settled_def emit_def)

lemma settle_all:
  assumes "heap_inv E w" and "ordered (trace w)" and "\<forall>s\<in>set bs. s < fresh w"
    and "mfor bs (\<lambda>s. MarkSettled E s (Some CellLastSettled)) w = (r, w')"
  shows "heap_inv E w' \<and> ordered (trace w') \<and> settling w w'
    \<and> (r = Inr () \<longrightarrow> (\<forall>s\<in>set bs. Settled w' s)
         \<and> cells w' CellLastSettled = (if bs = [] then cells w CellLastSettled else Some (last bs)))"
  using assms
proof (induction bs arbitrary: w)
  case Nil
  then show ?case by (simp add: mreturn_def settling_def same_eth_def)
next
  case (Cons s bs)
  obtain r1 w1 where m: "MarkSettled E s (Some CellLastSettled) w = (r1, w1)" by fastforce
  have s: "s < fresh w" using Cons.prems(3) by simp
  have st: "settling w w1" "r1 = Inr () \<Longrightarrow> Settled w1 s \<and> cells w1 CellLastSettled = Some s"
    using settling_MarkSettled [OF Cons.prems(1) s m] by auto
  have ho: "heap_inv E w1" "ordered (trace w1)"
    using MarkSettled_run [OF m] heap_inv_markSettled ordered_markSettled [OF Cons.prems(2,1) s] Cons.prems(1,2) s
    by blast+
  show ?case
  proof (cases r1)
    case (Inl e)
    then have "r = Inl e \<and> w' = w1" using Cons.prems(4) m by (simp add: mbind_apply)
    then show ?thesis using st(1) ho by simp
  next
    case (Inr u)
    then have rest: "mfor bs (\<lambda>s. MarkSettled E s (Some CellLastSettled)) w1 = (r, w')"
      using Cons.prems(4) m by (simp add: mbind_apply)
    have "\<forall>s\<in>set bs. s < fresh w1" using Cons.prems(3) st(1) by (simp add: settling_def)
    note ih = Cons.IH [OF ho this rest]
    then show ?thesis using st Inr settling_trans [OF st(1)] by (auto simp: settling_def)
  qed
qed

lemma Range_loop_ptrs:
  assumes "heap_inv E w" and "ptr_ok w b" and "Range_loop w k b = Inr ps"
  shows "\<forall>p\<in>set ps. p < fresh w"
  using assms(2,3)
proof (induction k arbitrary: b ps)
  case (Suc k)
  obtain p ps' where b: "b = Some p" "Range_loop w k (ParentBlock w p) = Inr ps'" "ps = p # ps'"
    using Suc.prems(2) by (auto simp: res_bind_eq_Inr deref_def split: option.splits)
  have p: "p < fresh w" using Suc.prems(1) b(1) by (simp add: ptr_ok_def)
  then have "ptr_ok w (ParentBlock w p)"
    using ParentBlock_inv(1) [OF assms(1) p] by (simp add: ptr_ok_def split: option.split)
  then show ?case using Suc.IH [OF _ b(2)] p b(3) by simp
qed simp

lemma LastSettled_ptr:
  assumes "heap_inv E w" and "b < fresh w"
  shows "ptr_ok w (LastSettled w b)"
  using assms link_ok_ptrs [OF assms]
  by (auto simp: LastSettled_def ancestor_def ptr_ok_def split: option.splits)

lemma Settles_ptrs:
  assumes "heap_inv E w" and "b < fresh w" and "Settles w b = Inr bs"
  shows "\<forall>s\<in>set bs. s < fresh w"
proof (cases "synchronous (heap w b)")
  case False
  then obtain p where p: "ParentBlock w b = Some p" "Range w (LastSettled w p) (LastSettled w b) = Inr bs"
    using assms(3) by (auto simp: Settles_def res_bind_eq_Inr deref_def split: option.splits)
  then show ?thesis
    using Range_loop_ptrs [OF assms(1) LastSettled_ptr [OF assms(1,2)]]
    by (fastforce simp: Range_def Let_def res_bind_eq_Inr split: if_splits)
qed (use assms in \<open>auto simp: Settles_def\<close>)

lemma Enqueue_Inr:
  assumes "(Inr u, w') \<in> set (Enqueue b ctxDone w)"
  shows "queue w' = queue w @ [b] \<and> heap w' = heap w \<and> fresh w' = fresh w \<and> cells w' = cells w \<and> kvdb w' = kvdb w
    \<and> (\<exists>ls. trace w' = ls @ EvEnqueue b # trace w \<and> list_all is_log ls)"
  using assms
  by (auto simp: Enqueue_def Enqueue_push_def createReceiptBuffers_def prog_simps emit_def Let_def split: if_splits)

lemma Enqueue_Inl:
  assumes "(Inl e, w') \<in> set (Enqueue b ctxDone w)"
  shows "heap w' = heap w \<and> fresh w' = fresh w \<and> trace w' = trace w"
  using assms
  by (auto simp: Enqueue_def Enqueue_push_def createReceiptBuffers_def prog_simps Let_def split: if_splits)

lemma Enqueue_outcome_in:
  assumes "Enqueue_outcome b ctxDone pick w = (r, w')"
  shows "(r, w') \<in> set (Enqueue b ctxDone w) \<or> (r = Inl Blocked \<and> w' = w)"
proof (cases "Enqueue b ctxDone w = []")
  case False
  then have "Enqueue b ctxDone w ! (pick mod length (Enqueue b ctxDone w)) \<in> set (Enqueue b ctxDone w)" by simp
  moreover have "Enqueue b ctxDone w ! (pick mod length (Enqueue b ctxDone w)) = (r, w')"
    using assms False by (simp add: Enqueue_outcome_def Let_def)
  ultimately show ?thesis by metis
qed (use assms in \<open>simp add: Enqueue_outcome_def\<close>)

text \<open>The clean-up changes only the map of consensus-critical blocks and the tracker.\<close>

definition only_critical :: "('kv, 'x, 't, 'c, 'z) vm_world_scheme \<Rightarrow> ('kv, 'x, 't, 'c, 'z) vm_world_scheme \<Rightarrow> bool" where
  "only_critical w w' \<longleftrightarrow> heap w' = heap w \<and> fresh w' = fresh w \<and> cells w' = cells w \<and> kvdb w' = kvdb w
     \<and> trace w' = trace w \<and> queue w' = queue w"

lemma only_critical_Delete: "preserves (only_critical w) (critical_Delete D h)"
  by (auto simp: critical_Delete_def Let_def only_critical_def intro!: preserves_mmod)

lemma only_critical_cleanup: "preserves (only_critical w) (AcceptBlock_cleanup E D b ss p)"
  unfolding AcceptBlock_cleanup_def by (intro preserves_rules only_critical_Delete)

lemma accept_batch_canonical:
  assumes "accept_batch E w b ss = Inr ws"
  shows "WriteCanonicalHash (Hash E w b) (NumberU64 w b) \<in> set ws
    \<and> (\<forall>h. WriteCanonicalHash h (NumberU64 w b) \<in> set ws \<longrightarrow> h = Hash E w b)"
  using assms by (auto simp: accept_batch_def res_bind_eq_Inr split: if_splits)

definition commit_effect :: "('kv, 'x, 'e) env_scheme \<Rightarrow> ptr \<Rightarrow> ('kv, 'x, 't, 'c, 'z) vm_world_scheme \<Rightarrow> ptr list
    \<Rightarrow> ('kv, 'x, 't, 'c, 'z) vm_world_scheme \<Rightarrow> bool" where
  "commit_effect E b w bs w' \<longleftrightarrow> cells w' CellLastAccepted = Some b \<and> (\<forall>s\<in>set bs. Settled w' s)
     \<and> cells w' CellLastSettled = (if bs = [] then cells w CellLastSettled else Some (last bs))
     \<and> ReadCanonicalHash E (kvdb w') (NumberU64 w b) = Hash E w b \<and> queue w' = queue w
     \<and> stored_before CellLastAccepted b (trace w')"

lemma AcceptBlock_commit_run:
  assumes "heap_inv E w" and "ordered (trace w)" and "b < fresh w" and "kv_laws E"
    and "AcceptBlock_commit E b w = (r, w')"
  shows "heap_inv E w' \<and> ordered (trace w') \<and> (\<forall>bs p. r = Inr (bs, p) \<longrightarrow> Settles w b = Inr bs \<and> commit_effect E b w bs w')"
proof (cases "\<exists>bs ws. Settles w b = Inr bs \<and> accept_batch E w b bs = Inr ws")
  case False
  then have "w' = w \<and> (\<exists>e. r = Inl e)"
    using assms(5) unfolding AcceptBlock_commit_def
    by (cases "Settles w b"; cases "accept_batch E w b (projr (Settles w b))") (auto simp: prog_simps)
  then show ?thesis using assms(1,2) by auto
next
  case True
  then obtain bs ws where s: "Settles w b = Inr bs" "accept_batch E w b bs = Inr ws" by blast
  obtain r1 w1 where wb: "write_batch E ws w = (r1, w1)" by fastforce
  then have w1: "heap w1 = heap w" "fresh w1 = fresh w" "cells w1 = cells w" "world.more w1 = world.more w"
    "ordered (trace w1)" using assms(2) by (auto simp: write_batch_def emit_def split: prod.splits option.splits)
  have h1: "heap_inv E w1" using heap_inv_cong [OF w1(1,2), of E] assms(1) by simp
  have acc: "ParentBlock w1 = ParentBlock w" "LastSettled w1 = LastSettled w"
    by (simp_all add: fun_eq_iff ParentBlock_def LastSettled_def ancestor_def w1(1))
  have eq: "AcceptBlock_commit E b w = mbind (mlift r1) (\<lambda>_. mbind (mlift (res_bind (deref (ParentBlock w b)) (\<lambda>p. deref (LastSettled w p)))) (\<lambda>pl.
     mbind (mfor bs (\<lambda>s. MarkSettled E s (Some CellLastSettled))) (\<lambda>_.
     mbind (mmod (store_cell E CellLastAccepted b)) (\<lambda>_.
     mbind (mmod (\<lambda>w. emit (EvSendAccepted b) (w\<lparr>acceptedBlocks := acceptedBlocks w @ [b]\<rparr>))) (\<lambda>_.
     mreturn (bs, pl)))))) w1"
    unfolding AcceptBlock_commit_def by (cases r1) (simp_all add: prog_simps s wb acc)
  show ?thesis
  proof (cases "\<exists>u pl. r1 = Inr u \<and> res_bind (deref (ParentBlock w b)) (\<lambda>p. deref (LastSettled w p)) = Inr pl")
    case False
    then have "w' = w1 \<and> (\<exists>e. r = Inl e)"
      using assms(5) eq by (cases r1; cases "res_bind (deref (ParentBlock w b)) (\<lambda>p. deref (LastSettled w p))")
        (auto simp: prog_simps)
    then show ?thesis using h1 w1 by auto
  next
    case True
    then obtain pl where r1: "r1 = Inr ()" and pl: "res_bind (deref (ParentBlock w b)) (\<lambda>p. deref (LastSettled w p)) = Inr pl" by auto
    have kv: "trace w1 = EvBatch ws # trace w" "BatchWrite E ws (kvdb w) = (None, kvdb w1)"
      using wb r1 by (auto simp: write_batch_def emit_def split: prod.splits option.splits)
    have can: "ReadCanonicalHash E (kvdb w1) (NumberU64 w b) = Hash E w b"
      using assms(4) kv(2) accept_batch_canonical [OF s(2)] unfolding kv_laws_def by blast
    obtain r2 w2 where m: "mfor bs (\<lambda>s. MarkSettled E s (Some CellLastSettled)) w1 = (r2, w2)" by fastforce
    have "\<forall>x\<in>set bs. x < fresh w1" using Settles_ptrs [OF assms(1,3) s(1)] w1(2) by simp
    note sa = settle_all [OF h1 w1(5) this m]
    show ?thesis
    proof (cases r2)
      case (Inl e)
      then have "w' = w2 \<and> r = Inl e" using assms(5) eq r1 pl m by (simp add: prog_simps)
      then show ?thesis using sa by simp
    next
      case (Inr u)
      define w3 where "w3 = store_cell E CellLastAccepted b w2"
      have w': "r = Inr (bs, pl)" "w' = emit (EvSendAccepted b) (w3\<lparr>acceptedBlocks := acceptedBlocks w3 @ [b]\<rparr>)"
        using assms(5) eq r1 pl m Inr by (simp_all add: prog_simps w3_def)
      obtain tr where tr: "trace w2 = tr @ trace w1" using sa by (auto simp: settling_def)
      have hash: "Hash E w2 b = Hash E w b" using sa w1(1) by (simp add: settling_def same_eth_def accessor_defs)
      have "list_ex (\<lambda>x. case x of WriteCanonicalHash h' _ \<Rightarrow> h' = Hash E w b | _ \<Rightarrow> False) ws"
        using accept_batch_canonical [OF s(2)] unfolding list_ex_iff
        by (intro bexI [of _ "WriteCanonicalHash (Hash E w b) (NumberU64 w b)"]) simp_all
      then have "batch_has (\<lambda>x. case x of WriteCanonicalHash h' _ \<Rightarrow> h' = Hash E w2 b | _ \<Rightarrow> False) (trace w2)"
        unfolding tr kv(1) hash by (simp add: batch_has_def)
      then have "ordered (trace w')" using sa by (simp add: w' w3_def emit_def)
      moreover have "heap_inv E w'" using heap_inv_cong [of w' w2 E] sa by (simp add: w' w3_def)
      moreover have q: "queue w2 = queue w"
        by (rule more_fields(1)) (use sa w1(4) in \<open>simp add: settling_def\<close>)
      moreover have "commit_effect E b w bs w'"
      proof -
        have "(\<forall>x\<in>set bs. Settled w2 x)" "kvdb w2 = kvdb w1"
          "cells w2 CellLastSettled = (if bs = [] then cells w CellLastSettled else Some (last bs))"
          using sa Inr w1(3) by (simp_all add: settling_def)
        then show ?thesis using can q by (simp add: commit_effect_def w' w3_def store_cell_def emit_def Settled_def)
      qed
      ultimately show ?thesis using s(1) w'(1) by simp
    qed
  qed
qed


text \<open>A VM with a synchronous block, an executed one and one that settles it.\<close>

definition sample_vm_blk :: "nat \<Rightarrow> blk" where
  "sample_vm_blk n = (zero_blk (sample_eth n))\<lparr>synchronous := (n = 0), executed_closed := (n \<le> 1), settled_closed := (n = 0),
     ancestry := (if n = 0 then None else Some \<lparr>anc_parent = Some (n - 1), anc_lastSettled = Some (n - 1)\<rparr>),
     execution := (if n \<le> 1 then Some \<lparr>byGas = sample_gtime, er_baseFee = 1, receiptRoot = 0, stateRootPost = 5, byWall = 0,
       er_receipts = []\<rparr> else None)\<rparr>"

definition sample_vm :: "(db_write list, (u64 \<times> encoding) list, hash \<Rightarrow> nat, unit) vm_world" where
  "sample_vm = exec_world.extend
     (world.extend ((init_world sample_vm_blk [] [])\<lparr>fresh := 3, cells := (\<lambda>_. Some 0)\<rparr>)
       \<lparr>ex_tracker = sample_tracker, queue = [], queue_cap = 4, quit_closed = False, done_closed = False,
        receipt_map = receipts_newSyncMap, recent = (), feeds = []\<rparr>)
     \<lparr>consensusState = NormalOp, last_synchronous = 0, critical = [(1, 0), (2, 1)], acceptedBlocks = []\<rparr>"

lemma sample_vm_inv: "heap_inv sample_env sample_vm"
proof -
  have "blk_ok (heap sample_vm b) \<and> link_ok sample_env sample_vm b" if "b < 3" for b
  proof -
    have "b = 0 \<or> b = 1 \<or> b = 2" using that by linarith
    then show ?thesis by (elim disjE; hypsubst) code_simp+
  qed
  moreover have "fresh sample_vm = 3" by code_simp
  ultimately show ?thesis by (simp add: heap_inv_def)
qed

definition sample_accepted :: "(db_write list, (u64 \<times> encoding) list, hash \<Rightarrow> nat, unit) vm_world" where
  "sample_accepted = snd (AcceptBlock sample_env count_triedb False 0 2 sample_vm)"


end
