(* ===== verification/Verify.thy ===== *)
theory Verify
  imports Consensus
begin

text \<open>
  What consensus can rely on when it fetches and verifies blocks: the lemmas on \<open>GetBlock\<close>,
  \<open>SetPreference\<close> and \<open>VerifyBlock\<close> of the VM (\<^verbatim>\<open>src/sae/blocks.go\<close>, \<^verbatim>\<open>src/sae/consensus.go\<close>).
\<close>

section \<open>Blocks restored from the database\<close>

lemma blocks_New_unlinked:
  "blocks_New E (Some eb) None None w
     = (Inr (fresh w), upd_blk (fresh w) (\<lambda>k. k\<lparr>ancestry := Some \<lparr>anc_parent = None, anc_lastSettled = None\<rparr>\<rparr>)
          (w\<lparr>heap := (heap w)(fresh w := zero_blk eb), fresh := fresh w + 1,
             inMemoryBlockCount := inMemoryBlockCount w + 1\<rparr>))"
  by (simp add: blocks_New_def SetAncestors_def SetAncestors_check_def prog_simps)

lemma settled_after:
  assumes "markSettled E b c w = (Inr (), w')" and "heap_inv E w" and "b < fresh w"
  shows "Settled w' b \<and> eth (heap w' b) = eth (heap w b) \<and> execution (heap w' b) = execution (heap w b)"
  using assms(1)
proof (cases rule: markSettled_cases)
  case closed
  then show ?thesis using assms(2,3) by (auto simp: heap_inv_def blk_ok_def Settled_def)
qed (auto simp: settled_world_def Settled_def)

lemma executed_after:
  assumes "RestoreExecutionArtefacts E b w = (Inr (), w')" and "heap_inv E w" and "b < fresh w"
  shows "execution (heap w' b) \<noteq> None \<and> eth (heap w' b) = eth (heap w b)"
  using assms(1)
proof (cases rule: RestoreExecutionArtefacts_cases)
  case (run e rs)
  from run(3) show ?thesis
  proof (cases rule: markExecutedAfterDiskArtefacts_cases)
    case closed
    then show ?thesis using assms(2,3) by (auto simp: heap_inv_def blk_ok_def)
  qed (auto simp: executed_world_def)
qed simp_all

lemma restored_block:
  assumes "RestoreSettledBlock E (Some eb) w = (Inr b, w')" and "heap_inv E w"
  shows "EthBlock w' b = eb \<and> Settled w' b \<and> Executed w' b"
  using assms(1)
proof (cases rule: RestoreSettledBlock_cases)
  case (settle b' w1 w2 r2)
  have b: "b' = b" "r2 = Inr ()" using settle(4,5) by auto
  have w1: "heap_inv E w1" "b < fresh w1" "eth (heap w1 b) = eb"
    using settle(1) heap_inv_blocks_New [OF assms(2) _ _ settle(1)] b
    by (auto simp: ptr_ok_def blocks_New_unlinked zero_blk_def)
  have w2: "heap_inv E w2" "b < fresh w2"
    using heap_inv_RestoreExecutionArtefacts [OF w1(1,2)] fresh_RestoreExecutionArtefacts settle(2) w1(1,2) b by metis+
  show ?thesis
    using executed_after [OF settle(2) [unfolded b] w1(1,2)] settled_after [OF settle(3) [unfolded b] w2] w1(3)
    by (auto simp: Executed_def EthBlock_def)
qed (auto simp: blocks_New_unlinked)

lemma synchronous_block:
  assumes "blocks_New E (Some eb) None None w = (Inr b, w1)" and "MarkSynchronous E H b x w1 = (Inr (), w')"
    and "heap_inv E w"
  shows "EthBlock w' b = eb \<and> Settled w' b \<and> Executed w' b"
proof -
  have w1: "heap_inv E w1" "b < fresh w1" "eth (heap w1 b) = eb"
    using assms(1) heap_inv_blocks_New [OF assms(3) _ _ assms(1)] by (auto simp: ptr_ok_def blocks_New_unlinked zero_blk_def)
  from assms(2) show ?thesis
  proof (cases rule: MarkSynchronous_cases)
    case (run e w2)
    define v where "v = upd_blk b (\<lambda>k. k\<lparr>synchronous := True\<rparr>) w2"
    have e: "execution (heap w2 b) \<noteq> None" "eth (heap w2 b) = eb"
      using run(1) w1(3) by (auto elim!: markExecuted_Inr simp: executed_world_def)
    have "heap_inv E w2" "fresh w2 = fresh w1" using heap_inv_markExecuted [OF w1(1,2) run(1)] by auto
    then have "heap_inv E v" "b < fresh v"
      unfolding v_def using w1 e by (auto intro!: heap_inv_upd simp: blk_ok_def)
    then show ?thesis using settled_after [OF run(2) [folded v_def]] e by (auto simp: v_def Executed_def EthBlock_def)
  qed simp_all
qed

section \<open>GetBlock\<close>

text \<open>
  What \<^verbatim>\<open>GetBlock\<close> relies on: the keys of the consensus-critical blocks are their hashes, as
  every \<^verbatim>\<open>Store\<close> ensures, and the database stores blocks by their hash.
\<close>

definition keyed_by_hash :: "('kv, 'x, 'e) env_scheme \<Rightarrow> ('kv, 'x, 't, 'c, 'z) vm_world_scheme \<Rightarrow> bool" where
  "keyed_by_hash E w \<longleftrightarrow> list_all (\<lambda>(h, b). Hash E w b = h) (critical w)"

definition block_db_laws :: "('kv, 'x, 'e) env_scheme \<Rightarrow> bool" where
  "block_db_laws E \<longleftrightarrow> (\<forall>kv h n eb. ReadBlock E kv h n = Some eb \<longrightarrow> HeaderHash E (eb_header eb) = h)"

lemma critical_Load_hash: "keyed_by_hash E w \<Longrightarrow> critical_Load w h = Some b \<Longrightarrow> Hash E w b = h"
  by (auto simp: keyed_by_hash_def critical_Load_def sm_Load_def critical_map_def list_all_iff dest: map_of_SomeD)

lemma settledBlockFromDB_run:
  assumes "settledBlockFromDB E H x h n w = (r, w')" and "heap_inv E w" and "ordered (trace w)"
  shows "heap_inv E w' \<and> ordered (trace w') \<and> r \<noteq> Inr None
    \<and> (\<forall>b. r = Inr (Some b) \<longrightarrow> Settled w' b \<and> Executed w' b \<and> ReadBlock E (kvdb w) h n = Some (EthBlock w' b))"
proof (cases "\<exists>s. cells w CellLastSettled = Some s \<and> \<not> Height w s < n")
  case False
  then have "w' = w \<and> (\<exists>e. r = Inl e)"
    using assms(1) by (cases "cells w CellLastSettled") (auto simp: settledBlockFromDB_def prog_simps deref_def)
  then show ?thesis using assms by auto
next
  case True
  then obtain s where s: "cells w CellLastSettled = Some s" "\<not> Height w s < n" by blast
  show ?thesis
  proof (cases "n > last_synchronous w")
    case True
    obtain r1 where r: "RestoreSettledBlock E (ReadBlock E (kvdb w) h n) w = (r1, w')"
      "r = (case r1 of Inl e \<Rightarrow> Inl e | Inr b \<Rightarrow> Inr (Some b))"
      using assms(1) s True
      by (cases "RestoreSettledBlock E (ReadBlock E (kvdb w) h n) w")
        (auto simp: settledBlockFromDB_def prog_simps deref_def split: sum.splits)
    have inv: "heap_inv E w' \<and> ordered (trace w')"
      using block_step_inv [OF step_RestoreSettledBlock [OF r(1), where H = H] assms(2,3)] .
    show ?thesis
    proof (cases "ReadBlock E (kvdb w) h n")
      case None
      then show ?thesis using r inv by (auto simp: RestoreSettledBlock_def blocks_New_def prog_simps)
    next
      case (Some eb)
      then show ?thesis using r inv restored_block [OF _ assms(2)] by (cases r1) auto
    qed
  next
    case False
    obtain r1 w1 where n: "blocks_New E (ReadBlock E (kvdb w) h n) None None w = (r1, w1)" by fastforce
    have n1: "heap_inv E w1 \<and> ordered (trace w1)" "\<And>b. r1 = Inr b \<Longrightarrow> b < fresh w1"
      using heap_inv_blocks_New [OF assms(2) _ _ n] blocks_New_Inr [OF n] assms(3) by (auto simp: ptr_ok_def)
    show ?thesis
    proof (cases r1)
      case (Inl e)
      then have "r = Inl e \<and> w' = w1" using assms(1) s False n by (simp add: settledBlockFromDB_def prog_simps deref_def)
      then show ?thesis using n1 by simp
    next
      case (Inr b)
      then obtain eb where eb: "ReadBlock E (kvdb w) h n = Some eb"
        using n by (cases "ReadBlock E (kvdb w) h n") (auto simp: blocks_New_def prog_simps)
      obtain r2 w2 where m: "MarkSynchronous E H b x w1 = (r2, w2)" by fastforce
      have r: "w' = w2" "r = (case r2 of Inl e \<Rightarrow> Inl e | Inr _ \<Rightarrow> Inr (Some b))"
        using assms(1) s False n Inr m
        by (auto simp: settledBlockFromDB_def prog_simps deref_def split: sum.splits)
      have "heap_inv E w' \<and> ordered (trace w')"
        using block_step_inv [OF step_MarkSynchronous [OF n1(2) [OF Inr] m]] n1 r(1) by blast
      then show ?thesis using r synchronous_block n Inr m assms(2) eb by (cases r2) fastforce+
    qed
  qed
qed

lemma GetBlock_run:
  assumes "heap_inv E w" and "ordered (trace w)" and "keyed_by_hash E w" and "block_db_laws E"
  shows "case GetBlock E H x h w of (r, w') \<Rightarrow>
    heap_inv E w' \<and> ordered (trace w')
    \<and> (case critical_Load w h of
         Some b \<Rightarrow> r = Inr (Some b) \<and> w' = w \<and> Hash E w b = h
       | None \<Rightarrow> (case ReadHeaderNumber E (kvdb w) h of
           None \<Rightarrow> r = Inl ErrDatabaseNotFound \<and> w' = w
         | Some n \<Rightarrow> (case r of
             Inl e \<Rightarrow> stops e \<or> errors_Is e ErrDatabaseNotFound
           | Inr None \<Rightarrow> True
           | Inr (Some b) \<Rightarrow> Hash E w' b = h \<and> Settled w' b \<and> Executed w' b)))"
proof (cases "critical_Load w h")
  case (Some b)
  then show ?thesis using assms critical_Load_hash [OF assms(3) Some]
    by (simp add: GetBlock_def FromHash_def prog_simps)
next
  case none: None
  show ?thesis
  proof (cases "ReadHeaderNumber E (kvdb w) h")
    case None
    then show ?thesis using assms none
      by (simp add: GetBlock_def FromHash_def GetBlock_result_def prog_simps)
  next
    case (Some n)
    obtain r w' where run: "settledBlockFromDB E H x h n w = (r, w')" by fastforce
    note post = settledBlockFromDB_run [OF run assms(1,2)]
    have eq: "GetBlock E H x h w = (case r of Inl err \<Rightarrow> GetBlock_result err w' | Inr b \<Rightarrow> (Inr b, w'))"
      using none Some run by (simp add: GetBlock_def FromHash_def split: sum.splits)
    show ?thesis
    proof (cases r)
      case (Inl e)
      then show ?thesis using post none Some
        by (simp add: eq GetBlock_result_def prog_simps)
    next
      case (Inr b)
      then obtain c where c: "r = Inr (Some c)" using post by (cases b) auto
      then have "Hash E w' c = h" using post assms(4) unfolding block_db_laws_def by (simp add: accessor_defs) metis
      then show ?thesis using post c none Some by (simp add: eq)
    qed
  qed
qed


text \<open>C29: A block that is in the database but above the last settled one and not in memory is
  reported as found: \<open>GetBlock\<close> returns a nil block and no error, although
  \<open>database.ErrNotFound\<close> was determined and is what the documentation promises. Setting it as
  the preference succeeds, and building a block then dereferences nil.\<close>

theorem GetBlock_drops_error:
  assumes "critical_Load w h = None" and "ReadHeaderNumber E (kvdb w) h = Some n"
    and "cells w CellLastSettled = Some s" and "Height w s < n"
  shows "settledBlockFromDB E H x h n w = (Inl ErrDatabaseNotFound, w) \<and> GetBlock E H x h w = (Inr None, w)
    \<and> fst (SetPreference E H x h w) = Inr ()
    \<and> fst (BuildBlock_vm E calc H S openDB src now pending B bCtx (snd (SetPreference E H x h w))) = Inl nil_deref"
proof -
  have s: "settledBlockFromDB E H x h n w = (Inl ErrDatabaseNotFound, w)"
    using assms(3,4) by (simp add: settledBlockFromDB_def prog_simps deref_def)
  have g: "GetBlock E H x h w = (Inr None, w)"
    using assms(1,2) s by (simp add: GetBlock_def FromHash_def GetBlock_result_def prog_simps)
  then show ?thesis using s by (simp add: SetPreference_def BuildBlock_vm_def prog_simps deref_def)
qed

section \<open>VerifyBlock\<close>

lemma critical_Store_Load: "critical_Load (snd (critical_Store D h b w)) h = Some b"
  by (simp add: critical_Store_def critical_Load_def critical_map_def prog_simps Let_def sm_Load_def sm_Store_def
      update_conv')

lemma critical_Store_run:
  "\<exists>w'. critical_Store D h b w = (Inr (), w') \<and> heap w' = heap w \<and> fresh w' = fresh w \<and> cells w' = cells w
     \<and> kvdb w' = kvdb w \<and> trace w' = trace w \<and> critical_Load w' h = Some b"
  using critical_Store_Load [of D h b w] by (simp add: critical_Store_def prog_simps Let_def)

text \<open>The end of \<^verbatim>\<open>VerifyBlock\<close>, once the block has been rebuilt.\<close>

definition adopt :: "('kv, 'x, 'e) env_scheme \<Rightarrow> 't triedb \<Rightarrow> ptr \<Rightarrow> ptr
    \<Rightarrow> (('kv, 'x, 't, 'c, 'z) vm_world_scheme, unit) prog" where
  "adopt E D b rebuilt =
     mbind (mget (\<lambda>w. Hash E w rebuilt = Hash E w b)) (\<lambda>same.
     mbind (mguard same (Wrap [ErrHashMismatch])) (\<lambda>_.
     mbind (CopyAncestorsFrom E b rebuilt) (\<lambda>_.
     mbind (mget (\<lambda>w. WorstCaseBounds w rebuilt)) (\<lambda>bnds.
     mbind (SetWorstCaseBounds b bnds) (\<lambda>_.
     mbind (mget (\<lambda>w. Hash E w b)) (\<lambda>h.
     critical_Store D h b))))))"

definition adopted :: "('kv, 'x, 'e) env_scheme \<Rightarrow> ptr \<Rightarrow> ptr \<Rightarrow> ('kv, 'x, 't, 'c, 'z) vm_world_scheme
    \<Rightarrow> ('kv, 'x, 't, 'c, 'z) vm_world_scheme \<Rightarrow> bool" where
  "adopted E b rebuilt w w' \<longleftrightarrow> heap w' = (heap w)(b := (heap w b)\<lparr>ancestry := ancestry (heap w rebuilt), bounds := bounds (heap w rebuilt)\<rparr>)
     \<and> ancestry (heap w rebuilt) \<noteq> None \<and> fresh w' = fresh w \<and> cells w' = cells w \<and> kvdb w' = kvdb w \<and> trace w' = trace w
     \<and> critical_Load w' (Hash E w b) = Some b"

lemma SetAncestors_ok:
  assumes "SetAncestors_check E b p w = None"
  shows "SetAncestors E b p l w = (Inr (), upd_blk b (\<lambda>k. k\<lparr>ancestry := Some \<lparr>anc_parent = p, anc_lastSettled = l\<rparr>\<rparr>) w)"
  using assms by (simp add: SetAncestors_def prog_simps)

lemma adopt_ok:
  assumes "Hash E w rebuilt = Hash E w b" and "ancestry (heap w rebuilt) = Some a"
    and "SetAncestors_check E b (anc_parent a) w = None"
  shows "\<exists>w'. adopt E D b rebuilt w = (Inr (), w') \<and> adopted E b rebuilt w w'"
proof -
  define v where "v = upd_blk b (\<lambda>k. k\<lparr>bounds := bounds (heap w rebuilt)\<rparr>)
    (upd_blk b (\<lambda>k. k\<lparr>ancestry := Some a\<rparr>) w)"
  have "adopt E D b rebuilt w = critical_Store D (Hash E w b) b v"
    using assms by (cases a) (simp add: adopt_def CopyAncestorsFrom_def SetAncestors_ok prog_simps SetWorstCaseBounds_def WorstCaseBounds_def v_def)
  moreover obtain w' where "critical_Store D (Hash E w b) b v = (Inr (), w')" "heap w' = heap v" "fresh w' = fresh v" "cells w' = cells v"
    "kvdb w' = kvdb v" "trace w' = trace v" "critical_Load w' (Hash E w b) = Some b"
    using critical_Store_run [of D "Hash E w b" b v] by blast
  ultimately show ?thesis using assms(2) by (auto simp: adopted_def v_def)
qed

lemma adopt_Inr:
  assumes "adopt E D b rebuilt w = (Inr (), w')"
  shows "Hash E w rebuilt = Hash E w b \<and> adopted E b rebuilt w w'"
proof -
  have h: "Hash E w rebuilt = Hash E w b" using assms by (auto simp: adopt_def prog_simps split: if_splits)
  then obtain a where a: "ancestry (heap w rebuilt) = Some a"
    using assms by (cases "ancestry (heap w rebuilt)") (auto simp: adopt_def CopyAncestorsFrom_def prog_simps)
  have "SetAncestors_check E b (anc_parent a) w = None"
    using assms h a by (cases "SetAncestors_check E b (anc_parent a) w")
      (auto simp: adopt_def CopyAncestorsFrom_def SetAncestors_def prog_simps)
  then obtain v where "adopt E D b rebuilt w = (Inr (), v)" "adopted E b rebuilt w v" using adopt_ok [OF h a] by blast
  then show ?thesis using assms h by simp
qed

lemma VerifyBlock_adopt:
  assumes "consensusState w1 \<noteq> Bootstrapping" and "GetBlock E H x (Block_ParentHash w b) w = (Inr (Some parent), w1)"
    and "cells w1 CellLastAccepted = Some a" and "Height w1 a < Height w1 b"
  shows "VerifyBlock E calc H S D openDB src now x R bCtx b w
    = mbind (rebuild E calc H S openDB src now R bCtx parent b) (adopt E D b) w1"
  using assms by (simp add: VerifyBlock_def adopt_def [abs_def] prog_simps deref_def not_le)

text \<open>Until the new block is constructed, building only reads and logs.\<close>

definition same_heap :: "('kv, 'x, 'z) world_scheme \<Rightarrow> ('kv, 'x, 'z) world_scheme \<Rightarrow> bool" where
  "same_heap w w' \<longleftrightarrow> heap w' = heap w \<and> fresh w' = fresh w"

lemma same_heap_run_wc: "preserves (same_heap w) (run_wc p msg f m s)"
  by (auto simp: preserves_def run_wc_def same_heap_def split: prod.splits sum.splits)

lemma preserves_mfold: "(\<And>x s. preserves P (f x s)) \<Longrightarrow> preserves P (mfold f xs s)"
  by (induction xs arbitrary: s) (auto intro!: preserves_rules)

lemma same_heap_replay: "preserves (same_heap w) (replay_block E calc H S b s)"
  unfolding replay_block_def by (intro preserves_rules same_heap_run_wc preserves_mfold)

lemma same_heap_lastToSettle: "preserves (same_heap w) (lastToSettle H hdr parent now)"
  unfolding lastToSettle_def Let_def
  by (intro preserves_rules preserves_mmod) (simp add: same_heap_def)

lemma same_heap_state: "preserves (same_heap w) (buildWithTxs_state E calc H S openDB now parent hdr)"
  unfolding buildWithTxs_state_def Let_def
  by (intro preserves_rules preserves_mmod same_heap_lastToSettle same_heap_run_wc preserves_mfold same_heap_replay)
    (simp add: same_heap_def)

lemma new_block:
  assumes "blocks_New E (Some eb) (Some p) (Some l) w = (Inr c, v)"
  shows "c = fresh w \<and> heap v = (heap w)(c := heap v c) \<and> SetAncestors_check E c (Some p) v = None
    \<and> ancestry (heap v c) = Some \<lparr>anc_parent = Some p, anc_lastSettled = Some l\<rparr>"
proof -
  define w0 where "w0 = w\<lparr>heap := (heap w)(fresh w := zero_blk eb), fresh := fresh w + 1,
    inMemoryBlockCount := inMemoryBlockCount w + 1\<rparr>"
  have x: "SetAncestors_check E (fresh w) (Some p) w0 = None" "c = fresh w"
    "v = upd_blk c (\<lambda>k. k\<lparr>ancestry := Some \<lparr>anc_parent = Some p, anc_lastSettled = Some l\<rparr>\<rparr>) w0"
    using assms by (auto simp: blocks_New_def SetAncestors_def prog_simps w0_def split: option.splits)
  have "same_eth w0 v" by (simp add: same_eth_def x(3))
  then show ?thesis using x check_cong [of w0 v E c "Some p"] by (simp add: w0_def)
qed

lemma ancestry_bounds: "ancestry (heap (upd_blk c (\<lambda>k. k\<lparr>bounds := x\<rparr>) w) b) = ancestry (heap w b)"
  by simp

lemma built_block:
  assumes "buildWithTxs E calc H S openDB src now bCtx parent pending B w = (Inr c, v)"
  shows "\<exists>ls. c = fresh w \<and> heap v = (heap w)(c := heap v c) \<and> SetAncestors_check E c (Some parent) v = None
    \<and> ancestry (heap v c) = Some \<lparr>anc_parent = Some parent, anc_lastSettled = Some ls\<rparr>"
proof -
  obtain h ls hdr s w0 inc s1 iops s2 where x:
    "buildWithTxs_state E calc H S openDB now parent h w = (Inr (ls, hdr, s), w0)"
    "buildWithTxs_finish E calc H B bCtx parent ls hdr inc iops s2 w0 = (Inr c, v)"
    using assms unfolding buildWithTxs_def by (auto simp: mbind_Inr mget_apply mlift_apply)
  have w0: "heap w0 = heap w" "fresh w0 = fresh w"
    using preservesD [OF same_heap_state _ x(1), of w] by (simp_all add: same_heap_def)
  obtain eb bnds w1 where n: "blocks_New E (Some eb) (Some parent) (Some ls) w0 = (Inr c, w1)"
    "v = upd_blk c (\<lambda>k. k\<lparr>bounds := Some bnds\<rparr>) w1"
    using x(2) unfolding buildWithTxs_finish_def mbind_mreturn
    by (auto simp: mbind_Inr mget_apply mlift_apply mreturn_apply run_wc_Inr SetWorstCaseBounds_def mmod_apply)
  note nb = new_block [OF n(1)]
  have "same_eth w1 v" by (simp add: same_eth_def n(2))
  moreover have "heap v = (heap w1)(c := heap v c)" by (simp add: n(2))
  then have "heap v = (heap w)(c := heap v c)" using nb w0 by (metis fun_upd_upd)
  ultimately show ?thesis using nb w0(2) n(2) check_cong [of w1 v E c "Some parent"] by (metis ancestry_bounds)
qed

lemma rebuilt_block:
  assumes "rebuild E calc H S openDB src now R bCtx p b w = (Inr c, v)"
  shows "\<exists>ls. ancestry (heap v c) = Some \<lparr>anc_parent = Some p, anc_lastSettled = Some ls\<rparr>"
proof -
  have "\<exists>txs B. R (EthBlock w b) = Inr B \<and> buildWithTxs E calc H S openDB src now bCtx p txs B w = (Inr c, v)"
    using assms unfolding rebuild_def by (auto simp: mbind_Inr mget_apply mlift_apply mmap_err_Inr)
  then show ?thesis using built_block by blast
qed

text \<open>C4: Verification is sound. When \<open>VerifyBlock\<close> succeeds, the parent is known, the block is above
  the last accepted one, and the block becomes consensus-critical under its hash. Outside
  bootstrapping, this node has itself built a block of the same hash on the parent, and
  the verified block has the ancestors and the worst-case bounds computed by that build.\<close>

theorem VerifyBlock_sound:
  assumes "VerifyBlock E calc H S D openDB src now x R bCtx b w = (Inr (), w')"
  shows "\<exists>parent a w1. GetBlock E H x (Block_ParentHash w b) w = (Inr parent, w1)
    \<and> cells w1 CellLastAccepted = Some a \<and> Height w1 a < Height w1 b
    \<and> critical_Load w' (Hash E w' b) = Some b
    \<and> (consensusState w1 \<noteq> Bootstrapping \<longrightarrow> (\<exists>p c w2. parent = Some p
         \<and> rebuild E calc H S openDB src now R bCtx p b w1 = (Inr c, w2) \<and> Hash E w2 c = Hash E w2 b
         \<and> ParentBlock w' b = Some p \<and> ancestry (heap w' b) = ancestry (heap w2 c)
         \<and> WorstCaseBounds w' b = WorstCaseBounds w2 c))"
proof -
  obtain r w1 where g0: "GetBlock E H x (Block_ParentHash w b) w = (r, w1)" by fastforce
  then obtain parent where g: "GetBlock E H x (Block_ParentHash w b) w = (Inr parent, w1)"
    using assms by (cases r) (auto simp: VerifyBlock_def prog_simps)
  obtain a where a: "cells w1 CellLastAccepted = Some a"
    using assms g by (cases "cells w1 CellLastAccepted") (auto simp: VerifyBlock_def prog_simps deref_def)
  moreover have "\<not> Height w1 b \<le> Height w1 a"
    using assms g a by (cases "Height w1 b \<le> Height w1 a") (auto simp: VerifyBlock_def prog_simps deref_def)
  ultimately have a: "cells w1 CellLastAccepted = Some a" "\<not> Height w1 b \<le> Height w1 a" by blast+
  show ?thesis
  proof (cases "consensusState w1 = Bootstrapping")
    case True
    have "verifyWhenBootstrapping E H D now b parent w1 = (Inr (), w')"
      using assms g a True by (simp add: VerifyBlock_def prog_simps deref_def)
    then obtain v where "critical_Store D (Hash E v b) b v = (Inr (), w')"
      unfolding verifyWhenBootstrapping_def by (auto simp: mbind_Inr mget_apply)
    then have "critical_Load w' (Hash E w' b) = Some b"
      using critical_Store_run [of D "Hash E v b" b v] by (auto simp: accessor_defs)
    then show ?thesis using g a True by auto
  next
    case False
    then obtain p where p: "parent = Some p"
      using assms g a by (cases parent) (auto simp: VerifyBlock_def prog_simps deref_def)
    have "mbind (rebuild E calc H S openDB src now R bCtx p b) (adopt E D b) w1 = (Inr (), w')"
      using VerifyBlock_adopt [OF False g [unfolded p] a(1), of calc S D openDB src now R bCtx] a(2) assms by (simp add: not_le)
    then obtain c w2 where r: "rebuild E calc H S openDB src now R bCtx p b w1 = (Inr c, w2)"
      "adopt E D b c w2 = (Inr (), w')" by (auto simp: mbind_Inr)
    note ad = adopt_Inr [OF r(2)]
    obtain ls where "ancestry (heap w2 c) = Some \<lparr>anc_parent = Some p, anc_lastSettled = Some ls\<rparr>"
      using rebuilt_block [OF r(1)] by blast
    then have "ParentBlock w' b = Some p \<and> ancestry (heap w' b) = ancestry (heap w2 c)
      \<and> WorstCaseBounds w' b = WorstCaseBounds w2 c \<and> Hash E w' b = Hash E w2 b"
      using ad by (simp add: adopted_def ParentBlock_def ancestor_def WorstCaseBounds_def accessor_defs)
    then show ?thesis using g a p r ad by (auto simp: adopted_def not_le)
  qed
qed

lemma verify_of_build:
  assumes "rebuilder_laws B R"
    and "build E calc H S openDB src now pending B bCtx parent w = (Inr c, v)"
    and "EthBlock w b = EthBlock v c" and "b < fresh w" and "now \<le> now'"
    and "critical_Load w (Block_ParentHash w b) = Some parent"
    and "cells w CellLastAccepted = Some a" and "Height w a < Height w b" and "consensusState w \<noteq> Bootstrapping"
  shows "\<exists>w'. VerifyBlock E calc H S D openDB src' now' x R bCtx b w = (Inr (), w')
    \<and> critical_Load w' (Hash E w b) = Some b \<and> ParentBlock w' b = Some parent
    \<and> ancestry (heap w' b) = ancestry (heap v c) \<and> WorstCaseBounds w' b = WorstCaseBounds v c"
proof -
  obtain ls where c: "c = fresh w" "heap v = (heap w)(c := heap v c)" "SetAncestors_check E c (Some parent) v = None"
    "ancestry (heap v c) = Some \<lparr>anc_parent = Some parent, anc_lastSettled = Some ls\<rparr>"
    using built_block [OF assms(2) [unfolded build_def]] by blast
  have bc: "b \<noteq> c" using assms(4) c(1) by simp
  have same: "heap v b = heap w b" using c(2) bc by (metis fun_upd_other)
  then have eth: "eth (heap v b) = eth (heap v c)" using assms(3) by (simp add: EthBlock_def)
  then have "Hash E v c = Hash E v b" "SetAncestors_check E b (Some parent) v = None"
    using c(3) by (auto simp: accessor_defs SetAncestors_check_def split: if_splits)
  then obtain w' where w': "adopt E D b c v = (Inr (), w')" "adopted E b c v w'"
    using adopt_ok [of E v c b _ D] c(4) by fastforce
  have g: "GetBlock E H x (Block_ParentHash w b) w = (Inr (Some parent), w)"
    using assms(6) by (simp add: GetBlock_def FromHash_def prog_simps)
  have "VerifyBlock E calc H S D openDB src' now' x R bCtx b w = (Inr (), w')"
    using VerifyBlock_adopt [OF assms(9) g assms(7,8), of calc S D openDB src' now' R bCtx] rebuild_of_build [OF assms(1-3,5)] w'(1)
    by (simp add: mbind_apply)
  moreover have "Hash E w b = Hash E v b" using same by (simp add: accessor_defs)
  ultimately show ?thesis
    using w' c(4) by (auto simp: adopted_def ParentBlock_def ancestor_def WorstCaseBounds_def)
qed


section \<open>Examples\<close>

lemma sample_env_blocks: "block_db_laws sample_env"
  unfolding block_db_laws_def
proof (intro allI impI)
  fix kv h n eb
  assume "ReadBlock sample_env kv h n = Some eb"
  then show "HeaderHash sample_env (eb_header eb) = h"
    by (auto simp: sample_env_def sample_block_def dest!: first_some_Some split: db_write.splits if_splits)
qed


definition sample_unsettled :: "(db_write list, (u64 \<times> encoding) list, hash \<Rightarrow> nat, unit) vm_world" where
  "sample_unsettled = sample_vm\<lparr>kvdb := [WriteBlock (sample_eth 2)]\<rparr>"

theorem GetBlock_drops_error_witness:
  "GetBlock sample_env flat_points 0 3 sample_unsettled = (Inr None, sample_unsettled)
   \<and> fst (BuildBlock_vm sample_env (\<lambda>m x k. max m x) flat_points flat_statedb (\<lambda>_. Inl ErrNotFound) (\<lambda>_ _. None) 0
       (\<lambda>_. []) (unit_builder []) None (snd (SetPreference sample_env flat_points 0 3 sample_unsettled))) = Inl nil_deref"
proof -
  have "critical_Load sample_unsettled 3 = None" "ReadHeaderNumber sample_env (kvdb sample_unsettled) 3 = Some 2"
    "cells sample_unsettled CellLastSettled = Some 0" by code_simp+
  moreover have "Height sample_unsettled 0 < 2" by code_simp
  ultimately show ?thesis
    using GetBlock_drops_error [of sample_unsettled 3 sample_env 2 0, where H = flat_points and x = 0 and calc = "\<lambda>m x k. max m x"
        and S = flat_statedb and openDB = "\<lambda>_. Inl ErrNotFound" and src = "\<lambda>_ _. None" and now = 0
        and pending = "\<lambda>_. []" and B = "unit_builder []" and bCtx = None] by blast
qed

definition sample_node :: "(db_write list, (u64 \<times> encoding) list, hash \<Rightarrow> nat, unit) vm_world" where
  "sample_node = exec_world.extend
     (world.extend (sample_sync\<lparr>cells := (\<lambda>_. Some 0)\<rparr>)
       \<lparr>ex_tracker = sample_tracker, queue = [], queue_cap = 4, quit_closed = False, done_closed = False,
        receipt_map = receipts_newSyncMap, recent = (), feeds = []\<rparr>)
     \<lparr>consensusState = NormalOp, last_synchronous = 0, critical = [(1, 0)], acceptedBlocks = []\<rparr>"

lemma sample_node_ready: "sync_ready sample_node"
  by (simp add: sync_ready_def sample_node_def sample_sync_def world.defs exec_world.defs)

lemma sample_node_facts:
  "critical_Load sample_node (Block_ParentHash sample_node 1) = Some 0" "cells sample_node CellLastAccepted = Some 0"
  "Height sample_node 0 < Height sample_node 1" "consensusState sample_node \<noteq> Bootstrapping"
  "Hash sample_env sample_node 1 = 100" "1 < fresh sample_node" "EthBlock sample_node 1 = sample_block1"
  by code_simp+

abbreviation sample_verify :: "((db_write list, (u64 \<times> encoding) list, hash \<Rightarrow> nat, unit) vm_world, unit) prog" where
  "sample_verify \<equiv> VerifyBlock sample_env (\<lambda>m x k. max m x) flat_points flat_statedb count_triedb
     (\<lambda>_. Inr ((\<lambda>_. 0), (\<lambda>_. 0))) (\<lambda>_ _. None) 1 0 unit_rebuilder None 1"


lemma sample_verified: "\<exists>w'. sample_verify sample_node = (Inr (), w')"
proof -
  obtain v where b: "build sample_env (\<lambda>m x k. max m x) flat_points flat_statedb (\<lambda>_. Inr ((\<lambda>_. 0), (\<lambda>_. 0))) (\<lambda>_ _. None) 0
      (\<lambda>_. [sample_skipped]) (unit_builder []) None 0 sample_node = (Inr 2, v)" "EthBlock v 2 = sample_block1"
    using sample_build [OF sample_node_ready] by blast
  have "EthBlock sample_node 1 = EthBlock v 2" using b(2) sample_node_facts(7) by simp
  then show ?thesis
    using verify_of_build [OF unit_rebuilder_laws b(1) _ sample_node_facts(6) _ sample_node_facts(1-4),
        where now' = 1 and D = count_triedb and src' = "\<lambda>_ _. None" and x = 0] by fastforce
qed

theorem VerifyBlock_sound_witness:
  "\<exists>w' parent a w1. sample_verify sample_node = (Inr (), w') \<and> critical_Load w' (Hash sample_env w' 1) = Some 1
     \<and> GetBlock sample_env flat_points 0 (Block_ParentHash sample_node 1) sample_node = (Inr parent, w1)
     \<and> cells w1 CellLastAccepted = Some a \<and> Height w1 a < Height w1 1"
proof -
  obtain w' where v: "sample_verify sample_node = (Inr (), w')" using sample_verified by blast
  show ?thesis using VerifyBlock_sound [OF v] v by blast
qed

end
