(* ===== verification/Recovery.thy ===== *)
theory Recovery
  imports Verify
begin

text \<open>
  Recovery after a restart (\<^verbatim>\<open>src/sae/recovery.go\<close>).

  The parameters are those of \<^verbatim>\<open>recovery\<close>: the hooks \<open>H\<close>, the database configuration \<open>c\<close> and the
  last synchronous block \<open>ls\<close>. \<^verbatim>\<open>executeAllAccepted\<close> waits for the executor, so it is split at the
  wait. The loop of \<^verbatim>\<open>extend\<close> has fuel, one unit for each iteration; running out of it is
  not returning (\<open>Blocked\<close>), and \<open>extend_returns\<close> shows that the fuel supplied is enough.
\<close>

section \<open>Blocks from the database\<close>

definition newCanonicalBlock :: "('kv, 'x, 'e) env_scheme \<Rightarrow> u64 \<Rightarrow> ptr option
    \<Rightarrow> (('kv, 'x, 'z) world_scheme, ptr) prog" where
  "newCanonicalBlock E num parent =
     mbind (mget (\<lambda>w. canonicalBlock E (kvdb w) num)) (\<lambda>ethB.
     mbind (mlift ethB) (\<lambda>ethB.
     blocks_New E (Some ethB) parent None))"

definition lastCommittedBlock :: "('kv, 'x, 'e) env_scheme \<Rightarrow> db_config \<Rightarrow> ('db, 'a) points_scheme \<Rightarrow> ptr
    \<Rightarrow> (('kv, 'x, 'z) world_scheme, ptr) prog" where
  "lastCommittedBlock E c H ls =
     mbind (mget (\<lambda>w. LastHeightWithExecutionRootCommitted E (kvdb w) c H (Height w ls))) (\<lambda>num.
     mbind (mlift num) (\<lambda>num.
     mbind (mget (\<lambda>w. num = Height w ls)) (\<lambda>sync.
     if sync then mreturn ls
     else mbind (newCanonicalBlock E num None) (\<lambda>b.
          mbind (RestoreExecutionArtefacts E b) (\<lambda>_.
          mreturn b)))))"

text \<open>
  \<^verbatim>\<open>canonicalAfter\<close> is an iterator; ranging over it runs \<open>body\<close> on each block, on top of the
  previous one, until an error. The result is the last block.
\<close>

definition canonicalAfter_next :: "('kv, 'x, 'e) env_scheme \<Rightarrow> (ptr \<Rightarrow> (('kv, 'x, 'z) world_scheme, unit) prog)
    \<Rightarrow> u64 \<Rightarrow> ptr \<Rightarrow> (('kv, 'x, 'z) world_scheme, ptr) prog" where
  "canonicalAfter_next E body num parent =
     mbind (newCanonicalBlock E num (Some parent)) (\<lambda>b.
     mbind (body b) (\<lambda>_.
     mreturn b))"

definition canonicalAfter :: "('kv, 'x, 'e) env_scheme \<Rightarrow> ptr \<Rightarrow> (ptr \<Rightarrow> (('kv, 'x, 'z) world_scheme, unit) prog)
    \<Rightarrow> (('kv, 'x, 'z) world_scheme, ptr) prog" where
  "canonicalAfter E parent body =
     mbind (mget (\<lambda>w. ReadAllCanonicalHashes E (kvdb w) (NumberU64 w parent + 1) MaxUint64)) (\<lambda>nums.
     mfold (canonicalAfter_next E body) nums parent)"

section \<open>Re-execution\<close>

definition executeAllAccepted_enqueue :: "('kv, 'x, 'e) env_scheme \<Rightarrow> bool \<Rightarrow> nat
    \<Rightarrow> (('kv, 'x, 't, 'c, 'z) exec_world_scheme, ptr \<times> ptr) prog" where
  "executeAllAccepted_enqueue E ctxDone pick =
     mbind (mget (\<lambda>w. deref (LastExecuted w))) (\<lambda>after.
     mbind (mlift after) (\<lambda>after.
     mbind (canonicalAfter E after (\<lambda>b. Enqueue_outcome b ctxDone pick)) (\<lambda>last.
     mreturn (after, last))))"

text \<open>The loop after the wait, with the roots that it has untracked so far.\<close>

partial_function (option) untrack_loop :: "('kv, 'x, 'z) world_scheme \<Rightarrow> u64 \<Rightarrow> u64 \<Rightarrow> hash list \<Rightarrow> ptr option
    \<Rightarrow> hash list res option" where
  "untrack_loop w afterNum keepFrom roots block =
     (case block of
        None \<Rightarrow> Some (Inl nil_deref)
      | Some b \<Rightarrow>
          if \<not> NumberU64 w b > afterNum then Some (Inr roots)
          else if NumberU64 w b < keepFrom
          then (case PostExecutionStateRoot w b of
                  Inl e \<Rightarrow> Some (Inl e)
                | Inr r \<Rightarrow> untrack_loop w afterNum keepFrom (roots @ [r]) (ParentBlock w b))
          else untrack_loop w afterNum keepFrom roots (ParentBlock w b))"

definition executeAllAccepted_untrack :: "('db, 'a) points_scheme \<Rightarrow> 't triedb \<Rightarrow> ptr \<Rightarrow> ptr \<Rightarrow> bool \<Rightarrow> nat
    \<Rightarrow> (('kv, 'x, 't, 'c, 'z) exec_world_scheme, unit) prog" where
  "executeAllAccepted_untrack H D after lastB ctxDone pick =
     mbind (mget (\<lambda>w. case WaitUntilExecuted w lastB ctxDone of
         [] \<Rightarrow> Inl Blocked
       | outs \<Rightarrow> (case outs ! (pick mod length outs) of None \<Rightarrow> Inr () | Some e \<Rightarrow> Inl e))) (\<lambda>waited.
     mbind (mlift waited) (\<lambda>_.
     mbind (mget (\<lambda>w. untrack_loop w (NumberU64 w after) (SettledHeight H (Header w lastB)) [] (Some lastB))) (\<lambda>roots.
     case roots of
       None \<Rightarrow> mfail Blocked
     | Some r \<Rightarrow> mbind (mlift r) (\<lambda>roots.
         with_tracker (mmod (fold (Untrack D) roots))))))"

section \<open>The consensus-critical blocks\<close>

text \<open>
  One iteration of the loop of \<^verbatim>\<open>extend\<close> on the last block of the chain: \<open>None\<close> to return, or the
  block to append.
\<close>

definition extend_iter :: "('kv, 'x, 'e) env_scheme \<Rightarrow> ptr \<Rightarrow> ptime \<Rightarrow> ptr
    \<Rightarrow> (('kv, 'x, 'z) world_scheme, ptr option) prog" where
  "extend_iter E ls tm b =
     mbind (mget (\<lambda>w. Synchronous w b)) (\<lambda>sync.
     if sync then mreturn None
     else
     mbind (mget (\<lambda>w. ExecutedByGasTime w b)) (\<lambda>g.
     mbind (mlift g) (\<lambda>g.
     if proxytime_Compare (gt_time g) tm \<le> 0
     then mbind (mget (\<lambda>w. Settled w b)) (\<lambda>done1.
          if done1 then mreturn None
          else mbind (MarkSettled E b (Some CellBlackhole)) (\<lambda>_. mreturn None))
     else
     mbind (mget (\<lambda>w. Height w b = Height w ls + 1)) (\<lambda>first.
     if first then mreturn (Some ls)
     else
     mbind (mget (\<lambda>w. Height w b - 1)) (\<lambda>num.
     mbind (newCanonicalBlock E num None) (\<lambda>parent.
     mbind (RestoreExecutionArtefacts E parent) (\<lambda>_.
     mbind (mget (\<lambda>w. Settled w b)) (\<lambda>stl.
     mbind (if stl then MarkSettled E parent (Some CellBlackhole) else mreturn ()) (\<lambda>_.
     mreturn (Some parent))))))))))"

fun extend_loop :: "nat \<Rightarrow> ('kv, 'x, 'e) env_scheme \<Rightarrow> ptr \<Rightarrow> ptime \<Rightarrow> ptr list
    \<Rightarrow> (('kv, 'x, 'z) world_scheme, ptr list) prog" where
  "extend_loop 0 E ls tm chain = mfail Blocked"
| "extend_loop (Suc n) E ls tm chain =
     mbind (extend_iter E ls tm (last chain)) (\<lambda>r.
     case r of None \<Rightarrow> mreturn chain | Some p \<Rightarrow> extend_loop n E ls tm (chain @ [p]))"

definition extend :: "('kv, 'x, 'e) env_scheme \<Rightarrow> ('db, 'a) points_scheme \<Rightarrow> ptr \<Rightarrow> ptr \<Rightarrow> ptr list
    \<Rightarrow> (('kv, 'x, 'z) world_scheme, ptr list) prog" where
  "extend E H ls settler chain =
     mbind (mget (\<lambda>w. proxytime_Of (PreciseTime H (Header w settler) - Tau))) (\<lambda>tm.
     mbind (mlift tm) (\<lambda>tm.
     mbind (mget (\<lambda>w. unat (Height w (last chain)) + 2)) (\<lambda>fuel.
     extend_loop fuel E ls tm chain)))"

text \<open>The loop that links every block of the first chain to its parent and the block it settled.\<close>

fun link_chain :: "('kv, 'x, 'e) env_scheme \<Rightarrow> ('db, 'a) points_scheme \<Rightarrow> ptr \<Rightarrow> nat \<Rightarrow> ptr list \<Rightarrow> ptr list
    \<Rightarrow> (('kv, 'x, 'z) world_scheme, unit) prog" where
  "link_chain E H ls i [] chain = mreturn ()"
| "link_chain E H ls i (b # bs) chain =
     mbind (extend E H ls b chain) (\<lambda>chain.
     mbind (SetAncestors E b (Some (chain ! (i + 1))) (Some (last chain))) (\<lambda>_.
     link_chain E H ls (i + 1) bs chain))"

definition check_critical :: "('kv, 'x, 'e) env_scheme \<Rightarrow> ('kv, 'x, 't, 'c, 'z) vm_world_scheme \<Rightarrow> ptr \<Rightarrow> go_error option" where
  "check_critical E w lastSettled =
     first_some (\<lambda>(_, b). CheckInvariants E w b
       (if Hash E w b = Hash E w lastSettled then StageSettled else StageExecuted)) (critical w)"

definition consensusCriticalBlocks :: "('kv, 'x, 'e) env_scheme \<Rightarrow> ('db, 'a) points_scheme \<Rightarrow> 't triedb \<Rightarrow> ptr
    \<Rightarrow> (('kv, 'x, 't, 'c, 'z) vm_world_scheme, ptr) prog" where
  "consensusCriticalBlocks E H D ls =
     mbind (mget (\<lambda>w. deref (LastExecuted w))) (\<lambda>le.
     mbind (mlift le) (\<lambda>le.
     mbind (extend E H ls le [le]) (\<lambda>chain.
     mbind (mmod (\<lambda>w. w\<lparr>critical := []\<rparr>)) (\<lambda>_.
     mbind (mfor chain (\<lambda>b. mbind (mget (\<lambda>w. Hash E w b)) (\<lambda>h. critical_Store D h b))) (\<lambda>_.
     mbind (link_chain E H ls 0 (butlast chain) chain) (\<lambda>_.
     mbind (mget (\<lambda>w. check_critical E w (last chain))) (\<lambda>chk.
     case chk of Some err \<Rightarrow> mfail err | None \<Rightarrow> mreturn (last chain))))))))"

section \<open>What recovery leaves alone\<close>

text \<open>Constructing a block touches no block that existed before, nor anything else.\<close>

definition grows :: "('kv, 'x, 'z) world_scheme \<Rightarrow> ('kv, 'x, 'z) world_scheme \<Rightarrow> bool" where
  "grows w w' \<longleftrightarrow> fresh w \<le> fresh w' \<and> (\<forall>c < fresh w. heap w' c = heap w c) \<and> kvdb w' = kvdb w"

lemma grows_refl: "grows w w"
  by (simp add: grows_def)

lemma grows_trans: "grows w w' \<Longrightarrow> grows w' w'' \<Longrightarrow> grows w w''"
  by (auto simp: grows_def)

lemma newCanonicalBlock_Inr:
  assumes "newCanonicalBlock E num p w = (Inr b, w')"
  shows "b = fresh w \<and> fresh w' = Suc (fresh w) \<and> (\<forall>c. c \<noteq> b \<longrightarrow> heap w' c = heap w c)
    \<and> canonicalBlock E (kvdb w) num = Inr (EthBlock w' b)
    \<and> ancestry (heap w' b) = Some \<lparr>anc_parent = p, anc_lastSettled = None\<rparr> \<and> execution (heap w' b) = None
    \<and> \<not> synchronous (heap w' b) \<and> SetAncestors_check E b p w' = None
    \<and> kvdb w' = kvdb w \<and> trace w' = trace w \<and> cells w' = cells w \<and> world.more w' = world.more w"
proof -
  obtain eb where eb: "canonicalBlock E (kvdb w) num = Inr eb" "blocks_New E (Some eb) p None w = (Inr b, w')"
    using assms unfolding newCanonicalBlock_def by (auto simp: mbind_Inr mget_apply mlift_apply)
  define w0 where "w0 = w\<lparr>heap := (heap w)(fresh w := zero_blk eb), fresh := fresh w + 1,
    inMemoryBlockCount := inMemoryBlockCount w + 1\<rparr>"
  have x: "SetAncestors_check E (fresh w) p w0 = None" "b = fresh w"
    "w' = upd_blk b (\<lambda>k. k\<lparr>ancestry := Some \<lparr>anc_parent = p, anc_lastSettled = None\<rparr>\<rparr>) w0"
    using eb(2) by (auto simp: blocks_New_def SetAncestors_def prog_simps w0_def split: option.splits)
  have "same_eth w0 w'" by (simp add: same_eth_def x(3))
  then have "SetAncestors_check E b p w' = None" using x check_cong [of w0 w' E b p] by simp
  then show ?thesis using x eb(1) by (simp add: w0_def EthBlock_def zero_blk_def upd_blk_def)
qed

lemma newCanonicalBlock_inv:
  assumes "newCanonicalBlock E num p w = (r, w')" and "heap_inv E w" and "ptr_ok w p"
  shows "heap_inv E w' \<and> grows w w'"
proof (cases "canonicalBlock E (kvdb w) num")
  case (Inl e)
  then show ?thesis using assms by (simp add: newCanonicalBlock_def prog_simps grows_def)
next
  case (Inr eb)
  then have n: "blocks_New E (Some eb) p None w = (r, w')"
    using assms(1) by (simp add: newCanonicalBlock_def prog_simps)
  moreover have "grows w w'"
    using n by (auto simp: blocks_New_def SetAncestors_def prog_simps grows_def split: option.splits)
  ultimately show ?thesis using heap_inv_blocks_New [OF assms(2,3) _ n] by (simp add: ptr_ok_def)
qed

section \<open>Every accepted block is executed again\<close>

fun parent_chain :: "('kv, 'x, 'z) world_scheme \<Rightarrow> ptr \<Rightarrow> ptr list \<Rightarrow> bool" where
  "parent_chain w p [] \<longleftrightarrow> True"
| "parent_chain w p (b # bs) \<longleftrightarrow> ParentBlock w b = Some p \<and> parent_chain w b bs"

definition recovered :: "('kv, 'x, 'e) env_scheme \<Rightarrow> 'kv \<Rightarrow> ('kv, 'x, 'z) world_scheme \<Rightarrow> ptr \<Rightarrow> u64 list \<Rightarrow> ptr list \<Rightarrow> bool" where
  "recovered E kv w p nums bs \<longleftrightarrow> parent_chain w p bs \<and> hash_chain E w (p # bs)
     \<and> list_all2 (\<lambda>n b. canonicalBlock E kv n = Inr (EthBlock w b)) nums bs"

text \<open>The blocks that were constructed since \<open>w\<close>, which nothing but the chain below them knows yet.\<close>

definition new_blocks :: "('kv, 'x, 'z) world_scheme \<Rightarrow> ('kv, 'x, 'z) world_scheme \<Rightarrow> ptr list \<Rightarrow> bool" where
  "new_blocks w w' bs \<longleftrightarrow> cells w' = cells w \<and> distinct bs
     \<and> (\<forall>b\<in>set bs. fresh w \<le> b \<and> b < fresh w' \<and> execution (heap w' b) = None \<and> \<not> Settled w' b)"

lemma enqueue_all:
  assumes "mfold (canonicalAfter_next E (\<lambda>b. Enqueue_outcome b ctxDone pick)) nums p w = (Inr l, w')"
    and "heap_inv E w" and "p < fresh w"
  shows "\<exists>bs. l = last (p # bs) \<and> queue w' = queue w @ bs \<and> recovered E (kvdb w) w' p nums bs
    \<and> heap_inv E w' \<and> grows w w' \<and> new_blocks w w' bs"
  using assms
proof (induction nums arbitrary: p w)
  case Nil
  then show ?case by (auto simp: prog_simps recovered_def grows_refl new_blocks_def)
next
  case (Cons n nums)
  let ?next = "canonicalAfter_next E (\<lambda>b. Enqueue_outcome b ctxDone pick)"
  obtain b w2 where m: "?next n p w = (Inr b, w2)" "mfold ?next nums b w2 = (Inr l, w')"
    using Cons.prems(1) by (auto simp: mbind_Inr)
  obtain w1 where x: "newCanonicalBlock E n (Some p) w = (Inr b, w1)" "Enqueue_outcome b ctxDone pick w1 = (Inr (), w2)"
    "mfold ?next nums b w2 = (Inr l, w')"
    using m(1) [unfolded canonicalAfter_next_def] m(2) by (auto simp: mbind_Inr mreturn_apply)
  note nb = newCanonicalBlock_Inr [OF x(1)]
  have w1: "heap_inv E w1" "grows w w1"
    using newCanonicalBlock_inv [OF x(1) Cons.prems(2)] Cons.prems(3) by (auto simp: ptr_ok_def)
  have "(Inr (), w2) \<in> set (Enqueue b ctxDone w1)" using Enqueue_outcome_in [OF x(2)] by blast
  then have w2: "queue w2 = queue w1 @ [b]" "heap w2 = heap w1" "fresh w2 = fresh w1" "kvdb w2 = kvdb w1" "cells w2 = cells w1"
    using Enqueue_Inr by blast+
  have q: "queue w1 = queue w" using nb by (intro more_fields(1)) simp
  have i2: "heap_inv E w2" using w1(1) w2 heap_inv_cong [of w2 w1 E] by simp
  have bf: "b < fresh w2" using nb w2(3) by simp
  obtain bs where bs: "l = last (b # bs)" "queue w' = queue w2 @ bs" "recovered E (kvdb w2) w' b nums bs"
    "heap_inv E w'" "grows w2 w'" "new_blocks w2 w' bs"
    using Cons.IH [OF x(3) i2 bf] by blast
  have g: "grows w w'" using w1(2) w2 bs(5) by (auto simp: grows_def)
  have hb: "heap w' b = heap w1 b" "heap w' p = heap w1 p"
    using bs(5) w2 nb Cons.prems(3) bf by (auto simp: grows_def)
  have "ParentBlock w' b = Some p" using nb hb(1) by (auto simp: ParentBlock_def ancestor_def)
  moreover have "canonicalBlock E (kvdb w) n = Inr (EthBlock w' b)" using nb hb(1) by (auto simp: EthBlock_def)
  moreover have "Hash E w' p = Block_ParentHash w' b"
    using nb hb by (auto simp: SetAncestors_check_def accessor_defs split: if_splits)
  moreover have "new_blocks w w' (b # bs)"
    using bs(5,6) w2 nb hb(1) by (auto simp: new_blocks_def grows_def Settled_def)
  ultimately show ?case
    using bs g w2 q w1(2) by (intro exI [of _ "b # bs"]) (auto simp: recovered_def grows_def)
qed

lemma executeAllAccepted_enqueue_run:
  assumes "heap_inv E w" and "LastExecuted w = Some a" and "a < fresh w"
    and "executeAllAccepted_enqueue E ctxDone pick w = (Inr (after, l), w')"
  shows "\<exists>bs. after = a \<and> l = last (a # bs) \<and> queue w' = queue w @ bs
    \<and> recovered E (kvdb w) w' a (ReadAllCanonicalHashes E (kvdb w) (NumberU64 w a + 1) MaxUint64) bs
    \<and> heap_inv E w' \<and> grows w w' \<and> new_blocks w w' bs"
proof -
  have d: "deref (LastExecuted w) = Inr a" using assms(2) by (simp add: deref_def)
  obtain r w1 where c: "canonicalAfter E a (\<lambda>b. Enqueue_outcome b ctxDone pick) w = (r, w1)" by fastforce
  have "after = a \<and> canonicalAfter E a (\<lambda>b. Enqueue_outcome b ctxDone pick) w = (Inr l, w')"
    using assms(4) c by (cases r) (simp_all add: executeAllAccepted_enqueue_def prog_simps d)
  then have "after = a" and m: "mfold (canonicalAfter_next E (\<lambda>b. Enqueue_outcome b ctxDone pick))
      (ReadAllCanonicalHashes E (kvdb w) (NumberU64 w a + 1) MaxUint64) a w = (Inr l, w')"
    unfolding canonicalAfter_def by (simp_all add: mbind_apply mget_apply)
  show ?thesis using enqueue_all [OF m assms(1,3)] \<open>after = a\<close> by blast
qed

text \<open>C8: Recovery re-executes exactly what was accepted. When \<open>executeAllAccepted\<close> has pushed its
  blocks, the executor's queue has gained one block for each canonical height after the
  last executed block, in order; each is the canonical block of its height, linked to the
  one before it, and the life-cycle invariant holds. The last of them is the block it then
  waits for.\<close>

theorem recovery_enqueues_accepted:
  assumes "heap_inv E w" and "LastExecuted w = Some a" and "a < fresh w"
    and "executeAllAccepted_enqueue E ctxDone pick w = (Inr (after, l), w')"
  shows "\<exists>bs. after = a \<and> l = last (a # bs) \<and> queue w' = queue w @ bs \<and> parent_chain w' a bs \<and> hash_chain E w' (a # bs)
    \<and> list_all2 (\<lambda>n b. canonicalBlock E (kvdb w) n = Inr (EthBlock w' b))
        (ReadAllCanonicalHashes E (kvdb w) (NumberU64 w a + 1) MaxUint64) bs
    \<and> heap_inv E w'"
  using executeAllAccepted_enqueue_run [OF assms] unfolding recovered_def by blast

section \<open>The recovered consensus-critical blocks\<close>

text \<open>An operation on one block.\<close>

definition touches :: "ptr \<Rightarrow> ('kv, 'x, 'z) world_scheme \<Rightarrow> ('kv, 'x, 'z) world_scheme \<Rightarrow> bool" where
  "touches b w w' \<longleftrightarrow> (\<forall>c. c \<noteq> b \<longrightarrow> heap w' c = heap w c) \<and> eth (heap w' b) = eth (heap w b)
     \<and> synchronous (heap w' b) = synchronous (heap w b) \<and> fresh w' = fresh w \<and> kvdb w' = kvdb w
     \<and> world.more w' = world.more w"

lemma touches_restore:
  assumes "RestoreExecutionArtefacts E b w = (r, w')" and "heap_inv E w" and "b < fresh w"
  shows "touches b w w' \<and> ancestry (heap w' b) = ancestry (heap w b)"
  using assms(1)
proof (cases rule: RestoreExecutionArtefacts_cases)
  case (run e rs)
  from run(3) show ?thesis
  proof (cases rule: markExecutedAfterDiskArtefacts_cases)
    case closed
    then show ?thesis using assms(2,3) by (auto simp: heap_inv_def blk_ok_def)
  qed (auto simp: executed_world_def touches_def announce_def emit_def upd_blk_def)
qed (auto simp: touches_def emit_def)

lemma touches_settle:
  assumes "MarkSettled E b (Some c) w = (r, w')" and "heap_inv E w" and "b < fresh w"
  shows "touches b w w' \<and> (r = Inr () \<longrightarrow> Settled w' b)"
proof -
  have "markSettled E b (Some c) w = (r, w')" using assms(1) by (simp add: MarkSettled_def)
  then show ?thesis
  proof (cases rule: markSettled_cases)
    case closed
    then show ?thesis using assms(2,3) by (auto simp: heap_inv_def blk_ok_def Settled_def)
  qed (auto simp: settled_world_def touches_def announce_def emit_def upd_blk_def store_cell_def Settled_def)
qed

text \<open>
  What an iteration of \<^verbatim>\<open>extend\<close> does to the blocks that exist: only the last block of the chain is
  changed, by being settled, and then the loop is over.
\<close>

definition extends :: "ptr \<Rightarrow> ('kv, 'x, 'z) world_scheme \<Rightarrow> ('kv, 'x, 'z) world_scheme \<Rightarrow> bool" where
  "extends b w w' \<longleftrightarrow> fresh w \<le> fresh w' \<and> (\<forall>c < fresh w. c \<noteq> b \<longrightarrow> heap w' c = heap w c)
     \<and> eth (heap w' b) = eth (heap w b) \<and> synchronous (heap w' b) = synchronous (heap w b)
     \<and> (synchronous (heap w b) \<longrightarrow> heap w' b = heap w b)
     \<and> kvdb w' = kvdb w \<and> world.more w' = world.more w"

lemma touches_extends: "touches b w w' \<Longrightarrow> \<not> synchronous (heap w b) \<Longrightarrow> extends b w w'"
  by (auto simp: touches_def extends_def)

lemma extends_refl: "extends b w w"
  by (simp add: extends_def)

lemma recovered_parent:
  assumes "newCanonicalBlock E num None w = (Inr p, w1)" and "RestoreExecutionArtefacts E p w1 = (r, w')" and "heap_inv E w"
  shows "heap_inv E w' \<and> grows w w' \<and> world.more w' = world.more w \<and> p = fresh w \<and> fresh w' = Suc (fresh w)
    \<and> \<not> Settled w' p \<and> \<not> synchronous (heap w' p) \<and> canonicalBlock E (kvdb w) num = Inr (EthBlock w' p)"
proof -
  note n = newCanonicalBlock_Inr [OF assms(1)]
  have w1: "heap_inv E w1" "grows w w1" "p < fresh w1"
    using newCanonicalBlock_inv [OF assms(1,3)] n by (auto simp: ptr_ok_def)
  have t: "touches p w1 w'" "ancestry (heap w' p) = ancestry (heap w1 p)" using touches_restore [OF assms(2) w1(1,3)] by auto
  have "heap_inv E w'" by (rule heap_inv_RestoreExecutionArtefacts [OF w1(1,3) assms(2)])
  then show ?thesis using n t w1(2) by (auto simp: touches_def grows_def Settled_def EthBlock_def)
qed

lemma extend_iter_run:
  assumes "extend_iter E ls tm b w = (r, w')" and "heap_inv E w" and "b < fresh w"
  shows "heap_inv E w' \<and> extends b w w'
    \<and> (\<forall>p. r = Inr (Some p) \<longrightarrow> heap w' b = heap w b \<and> \<not> synchronous (heap w b)
         \<and> (p = ls \<and> w' = w \<or> p = fresh w \<and> fresh w' = Suc (fresh w) \<and> \<not> synchronous (heap w' p)
              \<and> (Settled w' p \<longrightarrow> Settled w b)))"
proof (cases "synchronous (heap w b) \<or> (\<exists>e. ExecutedByGasTime w b = Inl e)")
  case True
  then have "w' = w \<and> (\<forall>p. r \<noteq> Inr (Some p))"
    using assms(1) by (cases "synchronous (heap w b)")
      (auto simp: extend_iter_def prog_simps Synchronous_def)
  then show ?thesis using assms by (auto simp: extends_refl)
next
  case False
  then obtain g where g: "ExecutedByGasTime w b = Inr g" "\<not> Synchronous w b"
    by (cases "ExecutedByGasTime w b") (auto simp: Synchronous_def)
  show ?thesis
  proof (cases "proxytime_Compare (gt_time g) tm \<le> 0")
    case True
    show ?thesis
    proof (cases "Settled w b")
      case True
      then show ?thesis using assms \<open>proxytime_Compare (gt_time g) tm \<le> 0\<close> g
        by (auto simp: extend_iter_def prog_simps extends_refl)
    next
      case False
      obtain r1 w1 where m: "MarkSettled E b (Some CellBlackhole) w = (r1, w1)" by fastforce
      then have "w' = w1 \<and> (\<forall>p. r \<noteq> Inr (Some p))"
        using assms(1) g True False by (cases r1) (auto simp: extend_iter_def prog_simps)
      moreover have "heap_inv E w1"
        using m heap_inv_markSettled [OF assms(2,3), of "Some CellBlackhole"] by (auto simp: MarkSettled_def)
      ultimately show ?thesis using touches_settle [OF m assms(2,3)] touches_extends g by (auto simp: Synchronous_def)
    qed
  next
    case late: False
    show ?thesis
    proof (cases "Height w b = Height w ls + 1")
      case True
      then show ?thesis using assms late g
        by (auto simp: extend_iter_def prog_simps extends_refl Synchronous_def)
    next
      case False
      obtain r1 w1 where n: "newCanonicalBlock E (Height w b - 1) None w = (r1, w1)" by fastforce
      have gr: "heap_inv E w1 \<and> grows w w1" using newCanonicalBlock_inv [OF n assms(2)] by (simp add: ptr_ok_def)
      show ?thesis
      proof (cases r1)
        case (Inl e)
        then have "w' = w1 \<and> (\<forall>p. r \<noteq> Inr (Some p))"
          using assms(1) g late False n by (auto simp: extend_iter_def prog_simps)
        moreover have "world.more w1 = world.more w"
          using n Inl by (auto simp: newCanonicalBlock_def blocks_New_def SetAncestors_def SetAncestors_check_def prog_simps split: sum.splits)
        ultimately show ?thesis using gr assms(3) by (auto simp: grows_def extends_def)
      next
        case (Inr p)
        obtain r2 w2 where rs: "RestoreExecutionArtefacts E p w1 = (r2, w2)" by fastforce
        note rp = recovered_parent [OF n [unfolded Inr] rs assms(2)]
        have hb: "heap w2 b = heap w b" "p \<noteq> b" using rp assms(3) by (auto simp: grows_def)
        have x2: "extends b w w2" using rp assms(3) by (auto simp: grows_def extends_def)
        have ns: "\<not> synchronous (heap w b)" using g by (simp add: Synchronous_def)
        show ?thesis
        proof (cases r2)
          case (Inl e)
          then have "w' = w2 \<and> (\<forall>p. r \<noteq> Inr (Some p))"
            using assms(1) g late False n Inr rs by (auto simp: extend_iter_def prog_simps)
          then show ?thesis using rp x2 by auto
        next
          case ok: (Inr u)
          show ?thesis
          proof (cases "Settled w b")
            case settled: False
            then have "w' = w2 \<and> r = Inr (Some p)"
              using assms(1) g late False n Inr rs ok hb by (auto simp: extend_iter_def prog_simps Settled_def)
            then show ?thesis using rp x2 hb ns by auto
          next
            case settled: True
            obtain r3 w3 where m: "MarkSettled E p (Some CellBlackhole) w2 = (r3, w3)" by fastforce
            have w': "w' = w3 \<and> (\<forall>q. r = Inr (Some q) \<longrightarrow> q = p)"
              using assms(1) g late False n Inr rs ok hb settled m
              by (cases r3) (auto simp: extend_iter_def prog_simps Settled_def)
            have p: "heap_inv E w2" "p < fresh w2" using rp by auto
            have "heap_inv E w3"
              using m heap_inv_markSettled [OF p, of "Some CellBlackhole"] by (auto simp: MarkSettled_def)
            moreover have t: "touches p w2 w3" using touches_settle [OF m p] by blast
            then have "extends b w w3" using x2 hb rp by (auto simp: extends_def touches_def)
            ultimately show ?thesis using w' rp t hb ns settled by (auto simp: touches_def)
          qed
        qed
      qed
    qed
  qed
qed

definition critical_chain :: "('kv, 'x, 'e) env_scheme \<Rightarrow> ptr \<Rightarrow> ('kv, 'x, 'z) world_scheme \<Rightarrow> ptr list \<Rightarrow> bool" where
  "critical_chain E ls w chain \<longleftrightarrow> heap_inv E w \<and> chain \<noteq> [] \<and> (\<forall>b\<in>set chain. b < fresh w) \<and> ls < fresh w
     \<and> synchronous (heap w ls) \<and> distinct chain \<and> ls \<notin> set (butlast chain)"

lemma last_notin_butlast: "distinct xs \<Longrightarrow> xs \<noteq> [] \<Longrightarrow> last xs \<notin> set (butlast xs)"
  by (induction xs) (auto dest: in_set_butlastD)

lemma set_butlast_last: "xs \<noteq> [] \<Longrightarrow> set xs = insert (last xs) (set (butlast xs))"
  by (metis append_butlast_last_id list.set(1,2) set_append sup_bot_right Un_insert_right)

lemma critical_chain_extend:
  assumes "critical_chain E ls w chain" and "heap_inv E w'" and "extends (last chain) w w'"
    and "heap w' (last chain) = heap w (last chain)" and "\<not> synchronous (heap w (last chain))"
    and "p = ls \<and> w' = w \<or> p = fresh w \<and> fresh w' = Suc (fresh w)"
  shows "critical_chain E ls w' (chain @ [p])"
proof -
  have c: "chain \<noteq> []" "last chain \<noteq> ls" using assms(1,5) by (auto simp: critical_chain_def)
  then have "ls \<notin> set chain" using assms(1) set_butlast_last [of chain] by (auto simp: critical_chain_def)
  moreover have "p \<notin> set chain" using calculation assms(1,6) by (auto simp: critical_chain_def)
  moreover have "heap w' ls = heap w ls" using assms(1,3) c by (auto simp: critical_chain_def extends_def)
  ultimately show ?thesis using assms by (auto simp: critical_chain_def extends_def)
qed

lemma extends_trans:
  assumes "extends b w w1" and "heap w1 b = heap w b" and "\<not> synchronous (heap w b)" and "b < fresh w"
    and "p = ls \<and> w1 = w \<or> p = fresh w \<and> fresh w1 = Suc (fresh w)" and "synchronous (heap w ls)" and "extends p w1 w'"
  shows "extends b w w'"
  using assms by (auto simp: extends_def)

lemma extend_loop_run:
  assumes "extend_loop n E ls tm chain w = (r, w')" and "critical_chain E ls w chain"
  shows "heap_inv E w' \<and> extends (last chain) w w'
    \<and> (\<forall>chain'. r = Inr chain' \<longrightarrow> critical_chain E ls w' chain' \<and> (\<exists>more. chain' = chain @ more)
         \<and> ((\<forall>c\<in>set chain. c \<noteq> ls \<longrightarrow> \<not> Settled w c) \<longrightarrow> (\<forall>c\<in>set (butlast chain'). \<not> Settled w' c)))"
  using assms
proof (induction n arbitrary: chain w)
  case 0
  then show ?case by (auto simp: prog_simps extends_refl critical_chain_def)
next
  case (Suc n)
  let ?b = "last chain"
  obtain r1 w1 where i: "extend_iter E ls tm ?b w = (r1, w1)" by fastforce
  have c: "heap_inv E w" "chain \<noteq> []" "?b < fresh w" "?b \<notin> set (butlast chain)"
    using Suc.prems(2) last_notin_butlast by (auto simp: critical_chain_def)
  note it = extend_iter_run [OF i c(1,3)]
  show ?case
  proof (cases "\<exists>p. r1 = Inr (Some p)")
    case False
    then have r: "w' = w1" "\<And>ch. r = Inr ch \<Longrightarrow> ch = chain"
      using Suc.prems(1) i by (cases r1; auto simp: prog_simps split: option.splits)+
    have same: "heap w1 x = heap w x" if "x \<in> set (butlast chain)" for x
      using that it c(4) Suc.prems(2) by (metis critical_chain_def extends_def in_set_butlastD)
    have "critical_chain E ls w1 chain"
      using Suc.prems(2) it by (auto simp: critical_chain_def extends_def dest: bspec)
    moreover have "\<forall>x\<in>set (butlast chain). x \<noteq> ls" using Suc.prems(2) by (auto simp: critical_chain_def)
    then have "\<forall>x\<in>set (butlast chain). \<not> Settled w1 x" if "\<forall>x\<in>set chain. x \<noteq> ls \<longrightarrow> \<not> Settled w x"
      using that same in_set_butlastD [of _ chain] by (metis Settled_def)
    ultimately show ?thesis using it r by auto
  next
    case True
    then obtain p where p: "r1 = Inr (Some p)" by blast
    then have rec: "extend_loop n E ls tm (chain @ [p]) w1 = (r, w')" using Suc.prems(1) i by (simp add: prog_simps)
    have np: "p = ls \<and> w1 = w \<or> p = fresh w \<and> fresh w1 = Suc (fresh w)" using it p by blast
    have c1: "critical_chain E ls w1 (chain @ [p])" using critical_chain_extend [OF Suc.prems(2)] it p np by blast
    note ih = Suc.IH [OF rec c1]
    have sy: "synchronous (heap w ls)" using Suc.prems(2) by (simp add: critical_chain_def)
    have ex: "extends ?b w w'"
      by (rule extends_trans [of _ _ w1 p ls]) (use it p np c(3) sy ih in auto)
    have "(\<forall>c\<in>set (chain @ [p]). c \<noteq> ls \<longrightarrow> \<not> Settled w1 c)" if u: "\<forall>c\<in>set chain. c \<noteq> ls \<longrightarrow> \<not> Settled w c"
    proof -
      have "?b \<noteq> ls" using it p sy by auto
      then have "\<not> Settled w ?b" using u c(2) by simp
      moreover have "heap w1 x = heap w x" if "x \<in> set chain" for x
        using that it p Suc.prems(2) by (metis critical_chain_def extends_def)
      ultimately show ?thesis using u it p by (auto simp: Settled_def)
    qed
    then show ?thesis using ih ex by auto
  qed
qed

text \<open>
  The loop of \<^verbatim>\<open>extend\<close> descends one height at a time to the last synchronous block, so that it
  returns: more fuel than one unit for each height changes nothing.
\<close>

definition block_number_laws :: "('kv, 'x, 'e) env_scheme \<Rightarrow> bool" where
  "block_number_laws E \<longleftrightarrow> (\<forall>kv h n eb. ReadBlock E kv h n = Some eb \<longrightarrow> word_of_int (Number (eb_header eb)) = n)"

lemma canonicalBlock_number:
  "block_number_laws E \<Longrightarrow> canonicalBlock E kv n = Inr (EthBlock w b) \<Longrightarrow> Height w b = n"
  by (auto simp: block_number_laws_def canonicalBlock_def accessor_defs split: option.splits)

lemma extend_iter_height:
  assumes "extend_iter E ls tm b w = (Inr (Some p), w')" and "heap_inv E w" and "b < fresh w"
  shows "p = ls \<and> Height w b = Height w ls + 1
    \<or> Height w b \<noteq> Height w ls + 1 \<and> canonicalBlock E (kvdb w) (Height w b - 1) = Inr (EthBlock w' p)"
proof -
  have "\<not> Synchronous w b" using assms(1) by (cases "Synchronous w b") (auto simp: extend_iter_def prog_simps)
  moreover obtain g where g: "ExecutedByGasTime w b = Inr g"
    using assms(1) calculation by (cases "ExecutedByGasTime w b") (auto simp: extend_iter_def prog_simps)
  moreover have "\<not> proxytime_Compare (gt_time g) tm \<le> 0"
  proof
    assume le: "proxytime_Compare (gt_time g) tm \<le> 0"
    obtain r1 w1 where "MarkSettled E b (Some CellBlackhole) w = (r1, w1)" by fastforce
    then show False using assms(1) calculation g le
      by (cases "Settled w b"; cases r1) (auto simp: extend_iter_def prog_simps)
  qed
  ultimately have eq: "(if Height w b = Height w ls + 1 then mreturn (Some ls)
      else mbind (newCanonicalBlock E (Height w b - 1) None) (\<lambda>parent.
        mbind (RestoreExecutionArtefacts E parent) (\<lambda>_.
        mbind (mget (\<lambda>w. Settled w b)) (\<lambda>stl.
        mbind (if stl then MarkSettled E parent (Some CellBlackhole) else mreturn ()) (\<lambda>_.
        mreturn (Some parent)))))) w = (Inr (Some p), w')"
    using assms(1) unfolding extend_iter_def
    by (cases "Height w b = Height w ls + 1") (simp_all add: mbind_apply mget_apply mlift_apply)
  show ?thesis
  proof (cases "Height w b = Height w ls + 1")
    case True
    then show ?thesis using eq by (simp add: mreturn_apply)
  next
    case False
    obtain w1 w2 where x: "newCanonicalBlock E (Height w b - 1) None w = (Inr p, w1)"
      "RestoreExecutionArtefacts E p w1 = (Inr (), w2)"
      "(if Settled w2 b then MarkSettled E p (Some CellBlackhole) else mreturn ()) w2 = (Inr (), w')"
      using eq False by (auto simp: mbind_Inr mreturn_apply mget_apply)
    note rp = recovered_parent [OF x(1,2) assms(2)]
    have "eth (heap w' p) = eth (heap w2 p)"
      using x(3) touches_settle [of E p CellBlackhole w2] rp by (auto simp: mreturn_apply touches_def split: if_splits)
    then show ?thesis using rp False by (simp add: EthBlock_def)
  qed
qed

lemma height_step:
  fixes h l :: u64
  assumes "l < h" and "h \<noteq> l + 1"
  shows "l < h - 1" and "unat (h - 1) = unat h - 1"
proof -
  have "h \<noteq> 0" using assms(1) by auto
  then show u: "unat (h - 1) = unat h - 1" by (simp add: unat_minus_one)
  have "unat l < unat h" using assms(1) by (simp add: word_less_nat_alt)
  moreover have "unat h \<noteq> unat l + 1"
  proof
    assume "unat h = unat l + 1"
    then have "h = l + 1" by (metis of_nat_1 of_nat_add word_of_nat_unat)
    then show False using assms(2) by simp
  qed
  ultimately show "l < h - 1" using u by (simp add: word_less_nat_alt)
qed

text \<open>The loop with a given outcome for when the fuel runs out.\<close>

fun extend_from :: "(('kv, 'x, 'z) world_scheme, ptr list) prog \<Rightarrow> nat \<Rightarrow> ('kv, 'x, 'e) env_scheme \<Rightarrow> ptr \<Rightarrow> ptime
    \<Rightarrow> ptr list \<Rightarrow> (('kv, 'x, 'z) world_scheme, ptr list) prog" where
  "extend_from exhausted 0 E ls tm chain = exhausted"
| "extend_from exhausted (Suc n) E ls tm chain =
     mbind (extend_iter E ls tm (last chain)) (\<lambda>r.
     case r of None \<Rightarrow> mreturn chain | Some p \<Rightarrow> extend_from exhausted n E ls tm (chain @ [p]))"

lemma extend_loop_fuel:
  assumes "block_number_laws E" and "critical_chain E ls w chain"
    and "last chain = ls \<or> Height w ls < Height w (last chain)"
    and "unat (Height w (last chain)) - unat (Height w ls) < n"
  shows "extend_from exhausted (n + k) E ls tm chain w = extend_loop n E ls tm chain w"
  using assms(2-)
proof (induction n arbitrary: chain w)
  case 0
  then show ?case by simp
next
  case (Suc n)
  let ?b = "last chain"
  obtain r1 w1 where i: "extend_iter E ls tm ?b w = (r1, w1)" by fastforce
  have c: "heap_inv E w" "chain \<noteq> []" "?b < fresh w" "synchronous (heap w ls)" "ls < fresh w"
    using Suc.prems(1) by (auto simp: critical_chain_def)
  note it = extend_iter_run [OF i c(1,3)]
  show ?case
  proof (cases "\<exists>p. r1 = Inr (Some p)")
    case False
    then show ?thesis using i by (cases r1) (auto simp: prog_simps split: option.splits)
  next
    case True
    then obtain p where p: "r1 = Inr (Some p)" by blast
    have np: "p = ls \<and> w1 = w \<or> p = fresh w \<and> fresh w1 = Suc (fresh w)" using it p by blast
    have c1: "critical_chain E ls w1 (chain @ [p])" using critical_chain_extend [OF Suc.prems(1)] it p np by blast
    have bl: "?b \<noteq> ls" using it p c(4) by auto
    then have lt: "Height w ls < Height w ?b" using Suc.prems(2) by blast
    have ls: "Height w1 ls = Height w ls" using it bl c(5) by (auto simp: extends_def accessor_defs)
    have "(p = ls \<or> Height w1 ls < Height w1 p) \<and> unat (Height w1 p) - unat (Height w1 ls) < n"
      using extend_iter_height [OF i [unfolded p] c(1,3)]
    proof (elim disjE conjE)
      assume h: "p = ls" "Height w ?b = Height w ls + 1"
      have "unat (Height w ls) < unat (Height w ?b)" using lt by (simp add: word_less_nat_alt)
      then show ?thesis using h(1) Suc.prems(3) by simp
    next
      assume h: "Height w ?b \<noteq> Height w ls + 1" "canonicalBlock E (kvdb w) (Height w ?b - 1) = Inr (EthBlock w1 p)"
      have hp: "Height w1 p = Height w ?b - 1" by (rule canonicalBlock_number [OF assms(1) h(2)])
      note hs = height_step [OF lt h(1)]
      have "unat (Height w ls) < unat (Height w ?b - 1)" using hs(1) by (simp add: word_less_nat_alt)
      then show ?thesis using hp hs ls Suc.prems(3) by simp
    qed
    then show ?thesis using Suc.IH [OF c1] i p by (simp add: prog_simps)
  qed
qed

text \<open>C9: The search for the settled ancestors returns. From a block above the last synchronous one,
  and with a database that stores blocks under their numbers, the fuel that \<open>extend\<close> gives
  its loop is enough: with that much or more, the result is the same whatever the outcome of
  running out of fuel is taken to be, so that the loop ends by itself.\<close>

theorem extend_returns:
  assumes "block_number_laws E" and "critical_chain E ls w chain"
    and "last chain = ls \<or> Height w ls < Height w (last chain)"
    and "proxytime_Of (PreciseTime H (Header w settler) - Tau) = Inr tm"
  shows "extend_from exhausted (unat (Height w (last chain)) + 2 + k) E ls tm chain w = extend E H ls settler chain w"
  using extend_loop_fuel [where n = "unat (Height w (last chain)) + 2", OF assms(1-3)] assms(4)
  by (simp add: extend_def prog_simps)

lemma extend_run:
  assumes "extend E H ls settler chain w = (r, w')" and "critical_chain E ls w chain"
  shows "heap_inv E w' \<and> extends (last chain) w w'
    \<and> (\<forall>chain'. r = Inr chain' \<longrightarrow> critical_chain E ls w' chain' \<and> (\<exists>more. chain' = chain @ more)
         \<and> ((\<forall>c\<in>set chain. c \<noteq> ls \<longrightarrow> \<not> Settled w c) \<longrightarrow> (\<forall>c\<in>set (butlast chain'). \<not> Settled w' c)))"
proof (cases "proxytime_Of (PreciseTime H (Header w settler) - Tau)")
  case (Inl e)
  then show ?thesis using assms by (auto simp: extend_def prog_simps extends_refl critical_chain_def)
next
  case (Inr tm)
  then have "extend_loop (unat (Height w (last chain)) + 2) E ls tm chain w = (r, w')"
    using assms(1) by (simp add: extend_def prog_simps)
  then show ?thesis using extend_loop_run assms(2) by blast
qed

definition keeps_eth :: "('kv, 'x, 'z) world_scheme \<Rightarrow> ('kv, 'x, 'z) world_scheme \<Rightarrow> bool" where
  "keeps_eth w w' \<longleftrightarrow> fresh w \<le> fresh w' \<and> (\<forall>c < fresh w. eth (heap w' c) = eth (heap w c))
     \<and> world.more w' = world.more w"

lemma keeps_eth_trans: "keeps_eth w w' \<Longrightarrow> keeps_eth w' w'' \<Longrightarrow> keeps_eth w w''"
  by (auto simp: keeps_eth_def)

lemma extends_keeps: "extends b w w' \<Longrightarrow> keeps_eth w w'"
  by (auto simp: extends_def keeps_eth_def)

lemma link_one:
  assumes "SetAncestors E b (Some p) (Some l) w = (r, w')" and "critical_chain E ls w chain" and "p \<in> set chain" and "l \<in> set chain"
    and "b \<in> set (butlast chain)" and "\<not> Settled w b"
  shows "critical_chain E ls w' chain \<and> keeps_eth w w' \<and> (\<forall>c. \<not> Settled w c \<longrightarrow> \<not> Settled w' c)"
proof -
  have c: "heap_inv E w" "ptr_ok w (Some p)" "ptr_ok w (Some l)" "b < fresh w" "ls \<noteq> b"
    using assms(2-5) in_set_butlastD [OF assms(5)] by (auto simp: critical_chain_def ptr_ok_def)
  have "\<not> settled_closed (heap w b)" using c(1,4) assms(6) by (auto simp: heap_inv_def blk_ok_def Settled_def)
  then have "heap_inv E w'" using heap_inv_SetAncestors [OF c(1-3) _ assms(1)] by blast
  moreover have "w' = w \<or> w' = upd_blk b (\<lambda>k. k\<lparr>ancestry := Some \<lparr>anc_parent = Some p, anc_lastSettled = Some l\<rparr>\<rparr>) w"
    using assms(1) by (auto simp: SetAncestors_def prog_simps split: option.splits)
  ultimately show ?thesis using assms(2) c(5)
    by (auto simp: critical_chain_def keeps_eth_def Settled_def upd_blk_def)
qed

lemma link_chain_run:
  assumes "link_chain E H ls i bs chain w = (r, w')" and "critical_chain E ls w chain"
    and "chain = pre @ bs @ rest" and "length pre = i" and "rest \<noteq> []" and "\<forall>b\<in>set bs. \<not> Settled w b"
  shows "heap_inv E w' \<and> keeps_eth w w'"
  using assms
proof (induction bs arbitrary: i pre chain w rest)
  case Nil
  then show ?case by (auto simp: prog_simps critical_chain_def keeps_eth_def)
next
  case (Cons b bs)
  obtain r1 w1 where e: "extend E H ls b chain w = (r1, w1)" by fastforce
  note er = extend_run [OF e Cons.prems(2)]
  then have k1: "keeps_eth w w1" using extends_keeps by blast
  show ?case
  proof (cases r1)
    case (Inl err)
    then have "w' = w1" using Cons.prems(1) e by (simp add: prog_simps)
    then show ?thesis using er k1 by simp
  next
    case (Inr chain')
    then obtain more where ch: "chain' = chain @ more" "critical_chain E ls w1 chain'" using er by blast
    obtain r2 w2 where s: "SetAncestors E b (Some (chain' ! (i + 1))) (Some (last chain')) w1 = (r2, w2)" by fastforce
    have unset: "\<not> Settled w1 c" if "c \<in> set (b # bs)" for c
    proof -
      have cb: "c \<in> set (butlast chain)" using that Cons.prems(3,5) by (auto simp: butlast_append)
      have "c < fresh w" "c \<noteq> last chain"
        using cb Cons.prems(2) last_notin_butlast [of chain] by (auto simp: critical_chain_def dest: in_set_butlastD)
      then show ?thesis using er Cons.prems(6) that by (auto simp: extends_def Settled_def)
    qed
    have bs: "b \<in> set (butlast chain')" using ch(1) Cons.prems(3,5) by (auto simp: butlast_append)
    have pr: "chain' ! (i + 1) \<in> set chain'" "last chain' \<in> set chain'"
    proof -
      have "i + 1 < length chain'" using ch(1) Cons.prems(3-5) by (cases rest) auto
      then show "chain' ! (i + 1) \<in> set chain'" by (rule nth_mem)
      show "last chain' \<in> set chain'" using ch(1) Cons.prems(3) by (intro last_in_set) simp
    qed
    note l1 = link_one [OF s ch(2) pr bs unset [of b]]
    have k2: "keeps_eth w w2" using keeps_eth_trans [OF k1] l1 by simp
    show ?thesis
    proof (cases r2)
      case (Inl err)
      then have "w' = w2" using Cons.prems(1) e Inr s by (simp add: prog_simps)
      then show ?thesis using l1 k2 by (simp add: critical_chain_def)
    next
      case ok: (Inr u)
      then have rec: "link_chain E H ls (i + 1) bs chain' w2 = (r, w')"
        using Cons.prems(1) e Inr s by (simp add: prog_simps)
      have "heap_inv E w' \<and> keeps_eth w2 w'"
        by (rule Cons.IH [OF rec, of "pre @ [b]" "rest @ more"]) (use ch(1) Cons.prems(3-5) l1 unset in auto)
      then show ?thesis using keeps_eth_trans [OF k2] by blast
    qed
  qed
qed

text \<open>Storing the chain in the map.\<close>

lemma set_alist_update: "x \<in> set (AList.update k v al) \<Longrightarrow> x = (k, v) \<or> x \<in> set al"
  by (induction al) (auto split: if_splits)

abbreviation store_block :: "('kv, 'x, 'e) env_scheme \<Rightarrow> 't triedb \<Rightarrow> ptr \<Rightarrow> (('kv, 'x, 't, 'c, 'z) vm_world_scheme, unit) prog" where
  "store_block E D b \<equiv> mbind (mget (\<lambda>w. Hash E w b)) (\<lambda>h. critical_Store D h b)"

lemma store_block_run:
  "\<exists>w'. store_block E D b w = (Inr (), w') \<and> heap w' = heap w \<and> fresh w' = fresh w
     \<and> critical w' = AList.update (Hash E w b) b (critical w)"
  by (simp add: prog_simps critical_Store_def critical_map_def sm_Store_def Let_def)

lemma store_all:
  "\<exists>w'. mfor bs (store_block E D) w = (Inr (), w') \<and> heap w' = heap w \<and> fresh w' = fresh w
     \<and> critical w' = fold (\<lambda>b. AList.update (Hash E w b) b) bs (critical w)"
proof (induction bs arbitrary: w)
  case Nil
  then show ?case by (simp add: prog_simps)
next
  case (Cons b bs)
  obtain w1 where w1: "store_block E D b w = (Inr (), w1)" "heap w1 = heap w" "fresh w1 = fresh w"
    "critical w1 = AList.update (Hash E w b) b (critical w)" using store_block_run [where E = E and D = D and b = b and w = w] by blast
  have "Hash E w1 = Hash E w" using w1(2) by (simp add: fun_eq_iff accessor_defs)
  then show ?case using Cons.IH [of w1] w1 by (auto simp: mbind_apply)
qed

lemma fold_update_keyed:
  "(\<And>k v. (k, v) \<in> set al \<Longrightarrow> f v = k) \<Longrightarrow> (k, v) \<in> set (fold (\<lambda>b. AList.update (f b) b) bs al)
     \<Longrightarrow> f v = k \<and> (v \<in> set bs \<or> (k, v) \<in> set al)"
proof (induction bs arbitrary: al)
  case (Cons b bs)
  have al: "f v' = k'" if "(k', v') \<in> set (AList.update (f b) b al)" for k' v'
    using set_alist_update [OF that] Cons.prems(1) by blast
  have "f v = k \<and> (v \<in> set bs \<or> (k, v) \<in> set (AList.update (f b) b al))"
    by (rule Cons.IH [OF al]) (use Cons.prems(2) in simp_all)
  then show ?case using set_alist_update [of "(k, v)" "f b" b al] by auto
qed auto

lemma fold_update_dom:
  "map_of (fold (\<lambda>b. AList.update (f b) b) bs al) k = None \<longleftrightarrow> map_of al k = None \<and> k \<notin> f ` set bs"
  by (induction bs arbitrary: al) (auto simp: update_conv')

lemma fold_update_last:
  "bs \<noteq> [] \<Longrightarrow> map_of (fold (\<lambda>b. AList.update (f b) b) bs al) (f (last bs)) = Some (last bs)"
  by (induction bs arbitrary: al rule: rev_induct) (simp_all add: update_conv')

lemma check_critical_None:
  assumes "check_critical E w s = None" and "(h, b) \<in> set (critical w)"
  shows "Executed w b \<and> (if Hash E w b = Hash E w s then Settled w b else \<not> Settled w b
    \<and> res_bind (deref (LastSettled w b)) (PostExecutionStateRoot w) = Inr (SettledStateRoot w b))"
proof -
  have "CheckInvariants E w b (if Hash E w b = Hash E w s then StageSettled else StageExecuted) = None"
    using assms by (auto simp: check_critical_def first_some_None)
  then show ?thesis
    by (auto simp: CheckInvariants_def CheckInvariants_execution_def CheckInvariants_ancestry_def Executed_def Settled_def
        less_eq_LifeCycleStage_def less_LifeCycleStage_def split: option.splits if_splits sum.splits)
qed

lemma more_critical:
  fixes w w' :: "('kv, 'x, 't, 'c, 'z) vm_world_scheme"
  assumes "world.more w' = world.more w"
  shows "critical w' = critical w"
  using assms by (cases w; cases w') simp

lemma consensusCriticalBlocks_steps:
  assumes "consensusCriticalBlocks E H D ls w = (Inr s, w')" and "LastExecuted w = Some le"
  obtains chain w1 w3 where "extend E H ls le [le] w = (Inr chain, w1)"
    and "mfor chain (store_block E D) (w1\<lparr>critical := []\<rparr>) = (Inr (), w3)"
    and "link_chain E H ls 0 (butlast chain) chain w3 = (Inr (), w')"
    and "check_critical E w' s = None" and "s = last chain"
proof -
  obtain chain w1 where e: "extend E H ls le [le] w = (Inr chain, w1)"
    using assms by (cases "extend E H ls le [le] w"; cases "fst (extend E H ls le [le] w)")
      (auto simp: consensusCriticalBlocks_def prog_simps deref_def)
  obtain w3 where m: "mfor chain (store_block E D) (w1\<lparr>critical := []\<rparr>) = (Inr (), w3)"
    using store_all [of chain E D "w1\<lparr>critical := []\<rparr>"] by blast
  have rest: "mbind (link_chain E H ls 0 (butlast chain) chain) (\<lambda>_.
     mbind (mget (\<lambda>w. check_critical E w (last chain))) (\<lambda>chk.
     case chk of Some err \<Rightarrow> mfail err | None \<Rightarrow> mreturn (last chain))) w3 = (Inr s, w')"
    using assms e m by (simp add: consensusCriticalBlocks_def mbind_apply mget_apply mlift_apply mmod_apply deref_def)
  then obtain w4 where l: "link_chain E H ls 0 (butlast chain) chain w3 = (Inr (), w4)"
    by (auto simp: mbind_Inr)
  then have "check_critical E w' s = None \<and> s = last chain \<and> w4 = w'"
    using rest by (cases "check_critical E w4 (last chain)") (auto simp: prog_simps)
  then show thesis using that e m l by blast
qed

lemma consensusCriticalBlocks_run:
  assumes "heap_inv E w" and "LastExecuted w = Some le" and "le < fresh w" and "ls < fresh w" and "Synchronous w ls"
    and "le = ls \<or> \<not> Settled w le" and "consensusCriticalBlocks E H D ls w = (Inr s, w')"
  shows "heap_inv E w' \<and> keyed_by_hash E w' \<and> critical_Load w' (Hash E w' s) = Some s
    \<and> critical_Load w' (Hash E w' le) \<noteq> None
    \<and> list_all (\<lambda>(h, b). Executed w' b \<and> (if h = Hash E w' s then Settled w' b else \<not> Settled w' b
        \<and> res_bind (deref (LastSettled w' b)) (PostExecutionStateRoot w') = Inr (SettledStateRoot w' b))) (critical w')"
proof -
  obtain chain w1 w3 where x: "extend E H ls le [le] w = (Inr chain, w1)"
    "mfor chain (store_block E D) (w1\<lparr>critical := []\<rparr>) = (Inr (), w3)"
    "link_chain E H ls 0 (butlast chain) chain w3 = (Inr (), w')"
    "check_critical E w' s = None" "s = last chain"
    by (rule consensusCriticalBlocks_steps [OF assms(7,2)])
  have c0: "critical_chain E ls w [le]" using assms(1,3-5) by (simp add: critical_chain_def Synchronous_def)
  have "\<forall>c\<in>set [le]. c \<noteq> ls \<longrightarrow> \<not> Settled w c" using assms(6) by auto
  then have c1: "critical_chain E ls w1 chain" "\<forall>c\<in>set (butlast chain). \<not> Settled w1 c" "le \<in> set chain"
    using extend_run [OF x(1) c0] by auto
  have w3: "heap w3 = heap w1" "fresh w3 = fresh w1" "critical w3 = fold (\<lambda>b. AList.update (Hash E w1 b) b) chain []"
  proof -
    have h: "Hash E (w1\<lparr>critical := []\<rparr>) b = Hash E w1 b" for b by (simp add: accessor_defs)
    show "heap w3 = heap w1" "fresh w3 = fresh w1" "critical w3 = fold (\<lambda>b. AList.update (Hash E w1 b) b) chain []"
      using store_all [of chain E D "w1\<lparr>critical := []\<rparr>"] x(2) by (simp_all add: h)
  qed
  have c3: "critical_chain E ls w3 chain" "\<forall>c\<in>set (butlast chain). \<not> Settled w3 c"
    using c1 w3(1,2) heap_inv_cong [of w3 w1 E] by (auto simp: critical_chain_def Settled_def)
  have ne: "chain \<noteq> []" and ptrs: "\<And>b. b \<in> set chain \<Longrightarrow> b < fresh w3" using c3(1) by (auto simp: critical_chain_def)
  have l: "heap_inv E w' \<and> keeps_eth w3 w'"
    by (rule link_chain_run [OF x(3) c3(1), of "[]" "[last chain]"]) (use ne c3(2) in simp_all)
  have hash: "Hash E w' b = Hash E w1 b" if "b \<in> set chain" for b
    using l ptrs [OF that] w3(1) by (simp add: keeps_eth_def accessor_defs)
  have crit: "critical w' = fold (\<lambda>b. AList.update (Hash E w1 b) b) chain []"
    using more_critical [of w' w3] l w3(3) by (simp add: keeps_eth_def)
  have keyed: "b \<in> set chain \<and> Hash E w' b = h" if "(h, b) \<in> set (critical w')" for h b
    using fold_update_keyed [of "[]" "Hash E w1" h b chain] that hash unfolding crit by simp
  have load: "critical_Load w' = map_of (critical w')" by (simp add: fun_eq_iff critical_Load_def sm_Load_def critical_map_def)
  have "critical_Load w' (Hash E w' s) = Some s"
    using fold_update_last [OF ne, of "Hash E w1" "[]"] hash ne by (simp add: load crit x(5))
  moreover have "critical_Load w' (Hash E w' le) \<noteq> None"
    using fold_update_dom [of "Hash E w1" chain "[]"] hash [OF c1(3)] c1(3) by (simp add: load crit)
  moreover have "keyed_by_hash E w'" using keyed by (auto simp: keyed_by_hash_def list_all_iff)
  ultimately show ?thesis using l check_critical_None [OF x(4)] keyed by (fastforce simp: list_all_iff)
qed


section \<open>Examples\<close>

text \<open>A restart with one canonical block after the last executed one.\<close>

definition sample_recovering :: "(db_write list, (u64 \<times> encoding) list, hash \<Rightarrow> nat, unit) vm_world" where
  "sample_recovering = sample_vm\<lparr>fresh := 1, kvdb := [WriteCanonicalHash 2 1, WriteBlock (sample_eth 1)]\<rparr>"

definition sample_enqueued :: "(db_write list, (u64 \<times> encoding) list, hash \<Rightarrow> nat, unit) vm_world" where
  "sample_enqueued = snd (executeAllAccepted_enqueue sample_env False 0 sample_recovering)"

theorem recovery_enqueues_accepted_witness:
  "queue sample_enqueued = [1] \<and> parent_chain sample_enqueued 0 [1] \<and> heap_inv sample_env sample_enqueued"
proof -
  have "fresh sample_recovering = 1" "blk_ok (heap sample_recovering 0)" "link_ok sample_env sample_recovering 0"
    by code_simp+
  then have inv: "heap_inv sample_env sample_recovering" by (simp add: heap_inv_def)
  have "fst (executeAllAccepted_enqueue sample_env False 0 sample_recovering) = Inr (0, 1)" by code_simp
  then have run: "executeAllAccepted_enqueue sample_env False 0 sample_recovering = (Inr (0, 1), sample_enqueued)"
    by (simp add: sample_enqueued_def prod_eq_iff)
  have le: "LastExecuted sample_recovering = Some 0" "0 < fresh sample_recovering" "queue sample_recovering = []"
    by code_simp+
  have "queue sample_enqueued = [1]" by code_simp
  then show ?thesis using recovery_enqueues_accepted [OF inv le(1,2) run] le(3) by auto
qed

text \<open>A restart whose last executed block is the one after the last synchronous block.\<close>

definition sample_restart :: "(db_write list, (u64 \<times> encoding) list, hash \<Rightarrow> nat, unit) vm_world" where
  "sample_restart = sample_vm\<lparr>heap := (sample_vm_blk)(1 := (sample_vm_blk 1)\<lparr>eth := (sample_eth 1)
       \<lparr>eb_header := (eb_header (sample_eth 1))\<lparr>Root := 5\<rparr>\<rparr>\<rparr>),
     cells := (\<lambda>c. if c = CellLastExecuted then Some 1 else Some 0), fresh := 2\<rparr>"

definition sample_tm :: ptime where
  "sample_tm = \<lparr>seconds = 4, fraction = 0, hertz = 1000000000\<rparr>"

lemma sample_tm: "proxytime_Of (9000000000 - Tau) = Inr sample_tm"
  by (simp add: proxytime_Of_def proxytime_New_def proxytime_Tick_def sample_tm_def Tau_def TauSeconds_def time_Second_def
      Time_Unix_def Time_Nanosecond_def Add64_def Div64_def Let_def)

lemma sample_later: "proxytime_Compare (gt_time sample_gtime) sample_tm = 1"
  by (simp add: proxytime_Compare_def sample_gtime_def sample_tm_def go_cmp_def)

lemma sample_restart_facts:
  assumes "heap w = heap sample_restart"
  shows "PreciseTime flat_points (Header w 1) = 9000000000" "\<not> Synchronous w 1" "Synchronous w 0"
    "ExecutedByGasTime w 1 = Inr sample_gtime" "Height w 1 = 1" "Height w 0 = 0" "Hash sample_env w 0 = 1" "Hash sample_env w 1 = 2"
  using assms
  by (simp_all add: PreciseTime_def preciseTime_def time_Unix_def flat_points_def sample_restart_def accessor_defs
      sample_vm_blk_def sample_eth_def sample_header_def zero_blk_def time_Second_def Synchronous_def sample_env_def
      ExecutedByGasTime_def executionArtefact_def gastime_Clone_def)
lemma sample_restart_inv: "heap_inv sample_env sample_restart"
proof -
  have "blk_ok (heap sample_restart b) \<and> link_ok sample_env sample_restart b" if "b < 2" for b
  proof -
    have "b = 0 \<or> b = 1" using that by linarith
    then show ?thesis by (elim disjE; hypsubst) code_simp+
  qed
  moreover have "fresh sample_restart = 2" by code_simp
  ultimately show ?thesis by (simp add: heap_inv_def)
qed

lemma sample_env_numbers: "block_number_laws sample_env"
  unfolding block_number_laws_def
proof (intro allI impI)
  fix kv h n eb
  assume "ReadBlock sample_env kv h n = Some eb"
  then show "word_of_int (Number (eb_header eb)) = n"
    by (auto simp: sample_env_def sample_block_def dest!: first_some_Some split: db_write.splits if_splits)
qed

lemma sample_extend:
  assumes "heap w = heap sample_restart"
  shows "extend sample_env flat_points 0 1 [1, 0] w = (Inr [1, 0], w)"
    and "extend sample_env flat_points 0 1 [1] w = (Inr [1, 0], w)"
  by (simp_all add: extend_def prog_simps sample_restart_facts [OF assms] sample_tm sample_restart_facts [OF assms, unfolded One_nat_def]
      extend_iter_def sample_later numeral_2_eq_2)

theorem extend_returns_witness:
  "extend_from (mfail Blocked) 100 sample_env 0 sample_tm [1] sample_restart = (Inr [1, 0], sample_restart)
   \<and> extend_from (mreturn []) 100 sample_env 0 sample_tm [1] sample_restart = (Inr [1, 0], sample_restart)"
proof -
  have c: "critical_chain sample_env 0 sample_restart [1]"
    using sample_restart_inv sample_restart_facts(3) [of sample_restart]
    by (simp add: critical_chain_def Synchronous_def) (simp add: sample_restart_def)
  have "proxytime_Of (PreciseTime flat_points (Header sample_restart 1) - Tau) = Inr sample_tm"
    using sample_restart_facts(1) [of sample_restart] sample_tm by simp
  then show ?thesis
    using extend_returns [where H = flat_points and settler = 1 and tm = sample_tm and k = 97 and exhausted = "mfail Blocked", OF sample_env_numbers c]
      extend_returns [where H = flat_points and settler = 1 and tm = sample_tm and k = 97 and exhausted = "mreturn []", OF sample_env_numbers c] sample_restart_facts(5,6) [of sample_restart]
      sample_extend(2) [of sample_restart] by simp
qed

lemma sample_critical:
  "\<exists>w'. consensusCriticalBlocks sample_env flat_points count_triedb 0 sample_restart = (Inr 0, w') \<and> critical w' = [(2, 1), (1, 0)]"
proof -
  have le: "LastExecuted sample_restart = Some 1" by (simp add: LastExecuted_def sample_restart_def)
  obtain w3 where w3: "mfor [1, 0] (store_block sample_env count_triedb) (sample_restart\<lparr>critical := []\<rparr>) = (Inr (), w3)"
    "heap w3 = heap sample_restart"
    "critical w3 = fold (\<lambda>b. AList.update (Hash sample_env (sample_restart\<lparr>critical := []\<rparr>) b) b) [1, 0] []"
    using store_all [of "[1, 0]" sample_env count_triedb "sample_restart\<lparr>critical := []\<rparr>"] by auto
  have crit: "critical w3 = [(2, 1), (1, 0)]"
    using w3(3) sample_restart_facts(7,8) [of "sample_restart\<lparr>critical := []\<rparr>"] by (simp add: One_nat_def)
  define w' where "w' = upd_blk 1 (\<lambda>k. k\<lparr>ancestry := Some \<lparr>anc_parent = Some 0, anc_lastSettled = Some 0\<rparr>\<rparr>) w3"
  have "SetAncestors_check sample_env 1 (Some 0) w3 = None"
    using w3(2) by (simp add: SetAncestors_check_def accessor_defs sample_restart_def sample_vm_blk_def sample_eth_def
        sample_header_def zero_blk_def sample_env_def)
  then have l: "link_chain sample_env flat_points 0 0 [1] [1, 0] w3 = (Inr (), w')"
    using sample_extend(1) [OF w3(2)] by (simp add: prog_simps SetAncestors_ok w'_def)
  have "check_critical sample_env w' 0 = None"
    using w3(2) crit
    by (simp add: check_critical_def w'_def CheckInvariants_def CheckInvariants_execution_def CheckInvariants_ancestry_def
        accessor_defs sample_restart_def sample_vm_blk_def sample_eth_def sample_header_def zero_blk_def sample_env_def
        less_eq_LifeCycleStage_def less_LifeCycleStage_def LastSettled_def ancestor_def deref_def PostExecutionStateRoot_def
        executionArtefact_def Synchronous_def upd_blk_def)
  then have "consensusCriticalBlocks sample_env flat_points count_triedb 0 sample_restart = (Inr 0, w')"
    using sample_extend(2) [of sample_restart] le w3(1) l
    by (simp add: consensusCriticalBlocks_def mbind_apply mget_apply mlift_apply mmod_apply mreturn_apply deref_def)
  moreover have "critical w' = [(2, 1), (1, 0)]" using crit by (simp add: w'_def upd_blk_def)
  ultimately show ?thesis by blast
qed


end
