(* ===== verification/Liveness.thy ===== *)
theory Liveness
  imports Saexec
begin

text \<open>
  The queue drains: how the goroutine of \<^verbatim>\<open>processQueue\<close> (\<^verbatim>\<open>src/saexec/execution.go\<close>) comes to rest when
  nothing is pushed, and in which states.
\<close>

text \<open>One iteration at any time of the wall clock, and a state without one.\<close>

definition queue_step :: "('kv, 'x, 'e) env_scheme \<Rightarrow> price_fun \<Rightarrow> ('db, 'a) exec_points_scheme \<Rightarrow> 'db statedb
    \<Rightarrow> 't triedb \<Rightarrow> ('db, 't, 'c, 'v) evm_scheme \<Rightarrow> (hash \<Rightarrow> u64 \<Rightarrow> header option)
    \<Rightarrow> ('kv, 'x, 't, 'c, 'z) exec_world_scheme \<Rightarrow> ('kv, 'x, 't, 'c, 'z) exec_world_scheme \<Rightarrow> bool" where
  "queue_step E calc H S D V headers w w' \<longleftrightarrow> (\<exists>now. w' \<in> set (processQueue_iter E calc H S D V headers now w))"

text \<open>
  The goroutine has ended, or everything pushed was executed, or the next block's execution panics
  or blocks whenever it is attempted.
\<close>

definition at_rest :: "('kv, 'x, 'e) env_scheme \<Rightarrow> price_fun \<Rightarrow> ('db, 'a) exec_points_scheme \<Rightarrow> 'db statedb
    \<Rightarrow> 't triedb \<Rightarrow> ('db, 't, 'c, 'v) evm_scheme \<Rightarrow> (hash \<Rightarrow> u64 \<Rightarrow> header option)
    \<Rightarrow> ('kv, 'x, 't, 'c, 'z) exec_world_scheme \<Rightarrow> bool" where
  "at_rest E calc H S D V headers w \<longleftrightarrow>
     done_closed w
     \<or> (queue w = [] \<and> executed_seq (trace w) = enqueued (trace w))
     \<or> (\<exists>b bs. queue w = b # bs
          \<and> (\<forall>now. \<exists>err w'. execute E calc H S D V headers now b (w\<lparr>queue := bs\<rparr>) = (Inl err, w') \<and> stops err))"

lemma execute_fields:
  assumes "execute E calc H S D V headers now b w = (r, w')" and "heap_inv E w" and "b < fresh w"
  shows "queue w' = queue w \<and> done_closed w' = done_closed w"
  using assms(1)
proof (cases rule: execute_run)
  case (fail err)
  then show ?thesis using quiet_facts [OF fail(2)] by simp
next
  case (mark l w1 g wall bf rs rt r2 w2)
  note q = quiet_facts [OF mark(3)]
  have "world.more w2 = world.more w1"
    using MarkExecuted_summary [OF quiet_heap_inv [OF mark(3) assms(2)] _ mark(4)] assms(3) q(2) by simp
  then show ?thesis using mark(6) q more_fields [of w2 w1]
    by (auto simp: sendPostExecutionEvents_def Let_def prog_simps emit_def split: sum.splits)
qed

definition queue_measure :: "('kv, 'x, 't, 'c, 'z) exec_world_scheme \<Rightarrow> nat" where
  "queue_measure w = (if done_closed w then 0 else length (queue w) + 1)"

lemma queue_step_decreases:
  assumes "exec_inv E l0 w" and "queue_step E calc H S D V headers w w'"
  shows "exec_inv E l0 w' \<and> queue_measure w' < queue_measure w"
proof -
  obtain now where s: "w' \<in> set (processQueue_iter E calc H S D V headers now w)" using assms(2) by (auto simp: queue_step_def)
  then have nd: "\<not> done_closed w" by (auto simp: processQueue_iter_def split: if_splits)
  have "queue_measure w' < queue_measure w"
  proof (cases "done_closed w'")
    case False
    then obtain b bs where q: "queue w = b # bs" using s nd by (cases "queue w") (auto simp: processQueue_iter_def split: if_splits)
    obtain r v where v: "execute E calc H S D V headers now b (w\<lparr>queue := bs\<rparr>) = (r, v)" by fastforce
    then obtain u where "r = Inr u" "v = w'"
      using s nd q False by (cases r) (auto simp: processQueue_iter_def split: if_splits)
    then have x: "queue w = b # bs" "execute E calc H S D V headers now b (w\<lparr>queue := bs\<rparr>) = (Inr u, w')" using q v by auto
    have "heap_inv E (w\<lparr>queue := bs\<rparr>)" "b < fresh w"
      using assms(1) x(1) heap_inv_cong [of "w\<lparr>queue := bs\<rparr>" w E] by (auto simp: exec_inv_def)
    then show ?thesis using execute_fields [OF x(2)] x(1) nd by (simp add: queue_measure_def)
  qed (simp add: queue_measure_def nd)
  then show ?thesis using exec_inv_process [OF assms(1) s] by blast
qed

lemma queue_run_bounded:
  "exec_inv E l0 w \<Longrightarrow> (queue_step E calc H S D V headers ^^ n) w w' \<Longrightarrow> exec_inv E l0 w' \<and> n + queue_measure w' \<le> queue_measure w"
proof (induction n arbitrary: w')
  case (Suc n)
  then obtain v where v: "(queue_step E calc H S D V headers ^^ n) w v" "queue_step E calc H S D V headers v w'" by auto
  then show ?case using Suc.IH [OF Suc.prems(1) v(1)] queue_step_decreases [OF _ v(2)] by fastforce
qed simp

lemma stuck_at_rest:
  assumes "exec_inv E l0 w" and "\<nexists>w'. queue_step E calc H S D V headers w w'"
  shows "at_rest E calc H S D V headers w"
proof (cases "done_closed w")
  case False
  have none: "processQueue_iter E calc H S D V headers now w = []" for now
    using assms(2) by (auto simp: queue_step_def) (metis list.set_intros(1) neq_Nil_conv)
  show ?thesis
  proof (cases "queue w")
    case Nil
    then show ?thesis using assms(1) False by (auto simp: at_rest_def exec_inv_def)
  next
    case (Cons b bs)
    have "\<exists>err w'. execute E calc H S D V headers now b (w\<lparr>queue := bs\<rparr>) = (Inl err, w') \<and> stops err" for now
      using none [of now] False Cons by (auto simp: processQueue_iter_def split: if_splits sum.splits prod.splits)
    then show ?thesis using Cons by (auto simp: at_rest_def)
  qed
qed (simp add: at_rest_def)

lemma queue_comes_to_rest:
  assumes "exec_inv E l0 w"
  shows "\<exists>n w'. (queue_step E calc H S D V headers ^^ n) w w' \<and> at_rest E calc H S D V headers w'"
  using assms
proof (induction "queue_measure w" arbitrary: w rule: less_induct)
  case less
  show ?case
  proof (cases "\<exists>w'. queue_step E calc H S D V headers w w'")
    case True
    then obtain v where v: "queue_step E calc H S D V headers w v" by blast
    note d = queue_step_decreases [OF less.prems v]
    obtain n w' where "(queue_step E calc H S D V headers ^^ n) v w'" "at_rest E calc H S D V headers w'"
      using less.hyps [of v] d by blast
    then show ?thesis using v relpowp_Suc_I2 by metis
  next
    case False
    have "(queue_step E calc H S D V headers ^^ 0) w w" by simp
    then show ?thesis using stuck_at_rest [OF less.prems False] by blast
  qed
qed

text \<open>C2:
  The queue drains. From every reachable state of the executor, its goroutine left to itself comes to
  rest, and no run of it takes more than one iteration for each queued block and one to end. Where it
  cannot go on, it has ended (by shutdown or a failed execution), or everything that was ever pushed has
  been executed, or the execution of the next block panics or blocks.
\<close>

theorem executor_drains:
  assumes "heap_inv E w0" and "ordered (trace w0)" and "l0 < fresh w0"
    and "enqueued (trace w0) = []" and "executed_seq (trace w0) = []"
    and "(exec_step E calc H S D V headers)\<^sup>*\<^sup>* (saexec_New t lru l0 w0) w"
  shows "(\<exists>n w'. (queue_step E calc H S D V headers ^^ n) w w' \<and> at_rest E calc H S D V headers w')
    \<and> (\<forall>n w'. (queue_step E calc H S D V headers ^^ n) w w' \<longrightarrow> n \<le> length (queue w) + 1
         \<and> ((\<nexists>w''. queue_step E calc H S D V headers w' w'') \<longrightarrow> at_rest E calc H S D V headers w'))"
proof -
  have inv: "exec_inv E l0 w" by (rule exec_steps_inv [OF assms(6) exec_inv_init [OF assms(1-5)]])
  have "queue_measure w \<le> length (queue w) + 1" by (simp add: queue_measure_def)
  then have "n \<le> length (queue w) + 1 \<and> ((\<nexists>w''. queue_step E calc H S D V headers w' w'') \<longrightarrow> at_rest E calc H S D V headers w')"
    if "(queue_step E calc H S D V headers ^^ n) w w'" for n w'
    using queue_run_bounded [OF inv that] stuck_at_rest [of E l0 w'] by auto
  then show ?thesis using queue_comes_to_rest [OF inv] by blast
qed

theorem executor_drains_witness:
  "\<exists>w'. queue_step sample_env (\<lambda>m x k. max m x) sample_exec_points flat_statedb count_triedb sample_evm (\<lambda>_ _. None) sample_exec2 w'
    \<and> done_closed w'
    \<and> at_rest sample_env (\<lambda>m x k. max m x) sample_exec_points flat_statedb count_triedb sample_evm (\<lambda>_ _. None) w'"
proof -
  let ?step = "queue_step sample_env (\<lambda>m x k. max m x) sample_exec_points flat_statedb count_triedb sample_evm (\<lambda>_ _. None)"
  have o: "enqueued (trace sample_world2) = []" "executed_seq (trace sample_world2) = []" "ordered (trace sample_world2)"
    by code_simp+
  have s: "?step sample_exec2 sample_exec3" by (simp add: queue_step_def sample_exec3_step)
  have d: "done_closed sample_exec3" by (simp add: sample_exec3_def)
  have "(?step ^^ 0) sample_exec3 sample_exec3" by simp
  moreover have "\<nexists>w''. ?step sample_exec3 w''" using d by (simp add: queue_step_def processQueue_iter_def)
  ultimately have "at_rest sample_env (\<lambda>m x k. max m x) sample_exec_points flat_statedb count_triedb sample_evm (\<lambda>_ _. None) sample_exec3"
    using executor_drains [OF sample_world2_inv(1) o(3) sample_world2_inv(2) o(1,2) sample_exec_steps [unfolded sample_exec0_def]]
    by blast
  then show ?thesis using s d by blast
qed

end
