(* ===== verification/Startup.thy ===== *)
theory Startup
  imports Recovery Liveness "HOL-Library.Sublist"
begin

text \<open>
  The VM's construction and its notifications to the engine (\<^verbatim>\<open>src/sae/vm.go\<close>).

  \<open>engine_step\<close> interleaves the pool, the goroutine of \<^verbatim>\<open>signalNewTxsToEngine\<close> and one engine that calls \<^verbatim>\<open>WaitForEvent\<close>.
  \<open>NewVM\<close> composes the recovery with the constructors of services outside of the repository, whose errors are parameters.
\<close>

section \<open>Transactions wake the engine\<close>

text \<open>
  Where the engine is in \<^verbatim>\<open>WaitForEvent\<close>: not in a call, about to empty the buffer of \<^verbatim>\<open>newTxs\<close> after it saw pending
  transactions, in the \<^verbatim>\<open>select\<close> of the loop, about to count the pending transactions again, or back with a message or the error
  \<^verbatim>\<open>VM closed\<close>.
\<close>

datatype waiter = NotWaiting | Draining | Waiting | Rechecking | Notified | FoundClosed

text \<open>\<open>nf_events\<close> counts the events that the pool is still to hand to the goroutine on its unbuffered channel.\<close>

record notifier =
  nf_pending :: nat
  nf_events :: nat
  nf_newTxs :: bool
  nf_ch_closed :: bool
  nf_newTxs_closed :: bool
  nf_waiter :: waiter

text \<open>The steps that are taken by the goroutine and by an engine that waits, without which nothing else need happen.\<close>

inductive wake_step :: "notifier \<Rightarrow> notifier \<Rightarrow> bool" where
  forward: "nf_events s = Suc n \<Longrightarrow> wake_step s (s\<lparr>nf_events := n, nf_newTxs := True\<rparr>)"
| finish: "nf_ch_closed s \<Longrightarrow> \<not> nf_newTxs_closed s \<Longrightarrow> wake_step s (s\<lparr>nf_newTxs_closed := True\<rparr>)"
| drain: "nf_waiter s = Draining \<Longrightarrow> wake_step s (s\<lparr>nf_newTxs := False, nf_waiter := Notified\<rparr>)"
| receive: "nf_waiter s = Waiting \<Longrightarrow> nf_newTxs s \<Longrightarrow> wake_step s (s\<lparr>nf_newTxs := False, nf_waiter := Rechecking\<rparr>)"
| recheck: "nf_waiter s = Rechecking \<Longrightarrow> wake_step s (s\<lparr>nf_waiter := if 0 < nf_pending s then Notified else Waiting\<rparr>)"
| closed: "nf_waiter s = Waiting \<Longrightarrow> \<not> nf_newTxs s \<Longrightarrow> nf_newTxs_closed s \<Longrightarrow> wake_step s (s\<lparr>nf_waiter := FoundClosed\<rparr>)"

text \<open>The pool gains transactions, and sends an event, or loses some; the engine calls or its context ends; the VM shuts down.\<close>

inductive engine_step :: "notifier \<Rightarrow> notifier \<Rightarrow> bool" where
  wake: "wake_step s s' \<Longrightarrow> engine_step s s'"
| add: "engine_step s (s\<lparr>nf_pending := nf_pending s + Suc k, nf_events := (if nf_ch_closed s then 0 else Suc (nf_events s))\<rparr>)"
| remove: "engine_step s (s\<lparr>nf_pending := nf_pending s - k\<rparr>)"
| call_pending: "nf_waiter s \<in> {NotWaiting, Notified, FoundClosed} \<Longrightarrow> 0 < nf_pending s \<Longrightarrow> engine_step s (s\<lparr>nf_waiter := Draining\<rparr>)"
| call_wait: "nf_waiter s \<in> {NotWaiting, Notified, FoundClosed} \<Longrightarrow> nf_pending s = 0 \<Longrightarrow> engine_step s (s\<lparr>nf_waiter := Waiting\<rparr>)"
| cancel: "nf_waiter s = Waiting \<Longrightarrow> engine_step s (s\<lparr>nf_waiter := NotWaiting\<rparr>)"
| shutdown: "engine_step s (s\<lparr>nf_events := 0, nf_ch_closed := True\<rparr>)"

inductive_cases wake_stepE: "wake_step s s'"
inductive_cases engine_stepE: "engine_step s s'"

definition signalNewTxsToEngine :: "nat \<Rightarrow> notifier" where
  "signalNewTxsToEngine pending = \<lparr>nf_pending = pending, nf_events = 0, nf_newTxs = False, nf_ch_closed = False,
     nf_newTxs_closed = False, nf_waiter = NotWaiting\<rparr>"

text \<open>A waiting engine is not left behind.\<close>

definition wake_inv :: "notifier \<Rightarrow> bool" where
  "wake_inv s \<longleftrightarrow>
     (nf_waiter s = Waiting \<and> 0 < nf_pending s \<longrightarrow> nf_newTxs s \<or> 0 < nf_events s \<or> nf_ch_closed s)
   \<and> (nf_ch_closed s \<longrightarrow> nf_events s = 0) \<and> (nf_newTxs_closed s \<longrightarrow> nf_ch_closed s)
   \<and> (nf_waiter s = FoundClosed \<longrightarrow> nf_ch_closed s)"

lemma wake_inv_wake: "wake_step s s' \<Longrightarrow> wake_inv s \<Longrightarrow> wake_inv s'"
  by (erule wake_stepE) (auto simp: wake_inv_def split: if_splits)

lemma wake_inv_step: "engine_step s s' \<Longrightarrow> wake_inv s \<Longrightarrow> wake_inv s'"
  by (erule engine_stepE) (auto simp: wake_inv_def dest: wake_inv_wake [unfolded wake_inv_def] split: if_splits)

lemma wake_inv_reachable: "engine_step\<^sup>*\<^sup>* (signalNewTxsToEngine p) s \<Longrightarrow> wake_inv s"
  by (induction rule: rtranclp_induct) (auto simp: signalNewTxsToEngine_def wake_inv_def dest: wake_inv_step [unfolded wake_inv_def])

text \<open>Every wake step uses something up.\<close>

fun waiter_weight :: "waiter \<Rightarrow> nat" where
  "waiter_weight Rechecking = 2"
| "waiter_weight Waiting = 1"
| "waiter_weight Draining = 1"
| "waiter_weight _ = 0"

definition wake_measure :: "notifier \<Rightarrow> nat" where
  "wake_measure s = 3 * nf_events s + (if nf_newTxs s then 2 else 0) + (if nf_newTxs_closed s then 0 else 1) + waiter_weight (nf_waiter s)"

lemma wake_step_decreases: "wake_step s s' \<Longrightarrow> wake_measure s' < wake_measure s"
  by (erule wake_stepE) (auto simp: wake_measure_def)

lemma wake_run_bounded: "(wake_step ^^ n) s s' \<Longrightarrow> n + wake_measure s' \<le> wake_measure s"
proof (induction n arbitrary: s')
  case (Suc n)
  then obtain t where "(wake_step ^^ n) s t" "wake_step t s'" by auto
  then show ?case using Suc.IH [of t] wake_step_decreases [of t s'] by simp
qed simp

lemma wake_pending: "wake_step\<^sup>*\<^sup>* s s' \<Longrightarrow> nf_pending s' = nf_pending s"
  by (induction rule: rtranclp_induct) (auto elim: wake_stepE)

lemma wake_waiter:
  "wake_step\<^sup>*\<^sup>* s s' \<Longrightarrow> nf_waiter s \<in> {Waiting, Rechecking, Notified, FoundClosed} \<Longrightarrow> nf_waiter s' \<in> {Waiting, Rechecking, Notified, FoundClosed}"
  by (induction rule: rtranclp_induct) (auto elim!: wake_stepE split: if_splits)

lemma wake_inv_wakes: "wake_step\<^sup>*\<^sup>* s s' \<Longrightarrow> wake_inv s \<Longrightarrow> wake_inv s'"
  by (induction rule: rtranclp_induct) (auto dest: wake_inv_wake)

lemma wake_rest:
  assumes "\<And>t. \<not> wake_step s t" and "wake_inv s" and "0 < nf_pending s"
  shows "nf_waiter s \<notin> {Waiting, Rechecking, Draining}"
proof -
  have "nf_events s = 0" using assms(1) forward [of s] by (cases "nf_events s") auto
  moreover have "nf_ch_closed s \<Longrightarrow> nf_newTxs_closed s" using assms(1) finish [of s] by blast
  ultimately show ?thesis using assms by (auto simp: wake_inv_def dest: wake_step.intros)
qed


definition sample_waiting :: notifier where
  "sample_waiting = \<lparr>nf_pending = 1, nf_events = 1, nf_newTxs = False, nf_ch_closed = False, nf_newTxs_closed = False,
     nf_waiter = Waiting\<rparr>"

lemma sample_waiting_reached: "engine_step\<^sup>*\<^sup>* (signalNewTxsToEngine 0) sample_waiting"
proof -
  let ?s = "(signalNewTxsToEngine 0)\<lparr>nf_waiter := Waiting\<rparr>"
  have "engine_step (signalNewTxsToEngine 0) ?s" by (rule call_wait) (simp_all add: signalNewTxsToEngine_def)
  moreover have "engine_step ?s sample_waiting"
    using add [of ?s 0] by (simp add: signalNewTxsToEngine_def sample_waiting_def)
  ultimately show ?thesis by simp
qed


section \<open>The construction of a VM\<close>

text \<open>The constructors of libevm that \<^verbatim>\<open>NewTracker\<close> and the executor's \<^verbatim>\<open>New\<close> call. The trie database and its snapshots are one value.\<close>

record ('kv, 't, 'c) libevm =
  NewDatabaseWithConfig :: "'kv \<Rightarrow> 't"
  Backend_isHashDB :: "'t \<Rightarrow> bool"
  snapshot_New :: "'kv \<Rightarrow> 't \<Rightarrow> hash \<Rightarrow> 't res"
  lru_NewCache :: "nat \<Rightarrow> 'c"

definition NewTracker :: "('kv, 't, 'c) libevm \<Rightarrow> 'kv \<Rightarrow> db_config \<Rightarrow> hash \<Rightarrow> 't tracker res" where
  "NewTracker L kv c lastExecuted =
     (let cache0 = NewDatabaseWithConfig L kv
      in res_bind (snapshot_New L kv cache0 lastExecuted) (\<lambda>snaps.
         Inr \<lparr>cache = snaps, isHashDB = Backend_isHashDB L cache0, tr_config = c, tr_log = []\<rparr>))"

definition Executor_New :: "('kv, 't, 'c) libevm \<Rightarrow> db_config \<Rightarrow> ptr \<Rightarrow> ('kv, 'x) world \<Rightarrow> ('kv, 'x, 't, 'c) exec_world res" where
  "Executor_New L c lastExecuted w =
     res_bind (PostExecutionStateRoot w lastExecuted) (\<lambda>root.
     res_bind (NewTracker L (kvdb w) c root) (\<lambda>t.
     Inr (saexec_New t (lru_NewCache L 256) lastExecuted w)))"

text \<open>The resources of \<^verbatim>\<open>toClose\<close>, and the errors of closing them and of the constructors that are not part of the repository.\<close>

datatype resource = ExecutionResultsDB | ExecutorLoop | TxPool | NewTxsSubscription | GossipLoops | RPCProvider

record vm_services =
  metrics_Register :: "go_error option"
  hooks_ExecutionResultsDB :: "go_error option"
  txpool_New :: "go_error option"
  bloom_NewMetrics :: "go_error option"
  txgossip_NewSet :: "go_error option"
  newNetwork :: "go_error option"
  gossip_NewSystem :: "go_error option"
  network_AddHandler :: "go_error option"
  rpc_New :: "go_error option"
  resource_Close :: "resource \<Rightarrow> go_error option"

text \<open>
  The deferred function of \<^verbatim>\<open>NewVM\<close>, with the resources in the order they are closed in. A panic leaves \<^verbatim>\<open>retErr\<close> nil, so that nothing is closed.
\<close>

definition NewVM_abort :: "vm_services \<Rightarrow> resource list \<Rightarrow> go_error \<Rightarrow> go_error option \<times> resource list" where
  "NewVM_abort X toClose err =
     (if stops err then (Some err, [])
      else let (closeErr, closed) = vm_close (map (\<lambda>r closed. (resource_Close X r, closed @ [r])) toClose) []
           in (errors_Join [Some err, closeErr], closed))"

definition NewVM_sync :: "('kv, 'x, 'e) env_scheme \<Rightarrow> ('db, 'a) points_scheme \<Rightarrow> gas \<Rightarrow> eth_block
    \<Rightarrow> (('kv, 'x, 'z) world_scheme, ptr) prog" where
  "NewVM_sync E H excessAfterLastSynchronous lastSynchronous =
     mbind (mmap_err (\<lambda>_. ErrOther ''blocks.New([last synchronous], ...)'') (blocks_New E (Some lastSynchronous) None None)) (\<lambda>lastSync.
     mbind (mmap_err (\<lambda>_. ErrOther ''MarkSynchronous()'') (MarkSynchronous E H lastSync excessAfterLastSynchronous)) (\<lambda>_.
     mbind (canonicaliseLastSynchronous E lastSync) (\<lambda>_.
     mreturn lastSync)))"

text \<open>
  The part on the block state, once there is an executor. The executor's goroutine runs all along; \<open>run\<close> is what it does until
  \<^verbatim>\<open>executeAllAccepted\<close> stops waiting. The frontier pointers are not shared yet, so that storing to them is no event of the trace.
\<close>

definition NewVM_recover :: "('kv, 'x, 'e) env_scheme \<Rightarrow> ('db, 'a) points_scheme \<Rightarrow> 't triedb \<Rightarrow> bool \<Rightarrow> nat
    \<Rightarrow> (('kv, 'x, 't, 'c, 'z) vm_world_scheme \<Rightarrow> ('kv, 'x, 't, 'c, 'z) vm_world_scheme) \<Rightarrow> ptr
    \<Rightarrow> (('kv, 'x, 't, 'c, 'z) vm_world_scheme, unit) prog" where
  "NewVM_recover E H D ctxDone pick run lastSync =
     mbind (executeAllAccepted_enqueue E ctxDone pick) (\<lambda>(after, last).
     mbind (mmod run) (\<lambda>_.
     mbind (executeAllAccepted_untrack H D after last ctxDone pick) (\<lambda>_.
     mbind (consensusCriticalBlocks E H D lastSync) (\<lambda>lastSettled.
     mmod (\<lambda>w. w\<lparr>cells := (cells w)(CellLastSettled := Some lastSettled, CellLastAccepted := LastExecuted w,
       CellPreference := LastExecuted w)\<rparr>)))))"

definition new_vm_world :: "u64 \<Rightarrow> ('kv, 'x, 't, 'c) exec_world \<Rightarrow> ('kv, 'x, 't, 'c) vm_world" where
  "new_vm_world lastSync w = exec_world.extend w
     \<lparr>consensusState = Initializing, last_synchronous = lastSync, critical = [], acceptedBlocks = []\<rparr>"

definition NewVM_services :: "vm_services \<Rightarrow> 'w \<Rightarrow> (go_error option \<times> resource list) + ('w \<times> resource list)" where
  "NewVM_services X w =
     (let toClose = [ExecutionResultsDB, ExecutorLoop] in
      case txpool_New X of Some _ \<Rightarrow> Inl (NewVM_abort X toClose (ErrOther ''txpool.New(...)'')) | None \<Rightarrow>
      let toClose = toClose @ [TxPool] in
      case bloom_NewMetrics X of Some err \<Rightarrow> Inl (NewVM_abort X toClose err) | None \<Rightarrow>
      case txgossip_NewSet X of Some err \<Rightarrow> Inl (NewVM_abort X toClose err) | None \<Rightarrow>
      let toClose = toClose @ [NewTxsSubscription] in
      case newNetwork X of Some _ \<Rightarrow> Inl (NewVM_abort X toClose (ErrOther ''newNetwork(...)'')) | None \<Rightarrow>
      case gossip_NewSystem X of Some _ \<Rightarrow> Inl (NewVM_abort X toClose (ErrOther ''gossip.NewSystem(...)'')) | None \<Rightarrow>
      case network_AddHandler X of Some _ \<Rightarrow> Inl (NewVM_abort X toClose (ErrOther ''network.AddHandler(...)'')) | None \<Rightarrow>
      let toClose = toClose @ [GossipLoops] in
      case rpc_New X of Some err \<Rightarrow> Inl (NewVM_abort X toClose err) | None \<Rightarrow>
      Inr (w, toClose @ [RPCProvider]))"

definition NewVM :: "('kv, 'x, 'e) env_scheme \<Rightarrow> ('db, 'a) points_scheme \<Rightarrow> ('kv, 't, 'c) libevm \<Rightarrow> 't triedb \<Rightarrow> db_config
    \<Rightarrow> vm_services \<Rightarrow> gas \<Rightarrow> bool \<Rightarrow> nat \<Rightarrow> (('kv, 'x, 't, 'c) vm_world \<Rightarrow> ('kv, 'x, 't, 'c) vm_world) \<Rightarrow> eth_block
    \<Rightarrow> ('kv, 'x) world \<Rightarrow> (go_error option \<times> resource list) + (('kv, 'x, 't, 'c) vm_world \<times> resource list)" where
  "NewVM E H L D c X excessAfter ctxDone pick run lastSynchronous w =
     (case metrics_Register X of Some err \<Rightarrow> Inl (NewVM_abort X [] err) | None \<Rightarrow>
      case hooks_ExecutionResultsDB X of Some _ \<Rightarrow> Inl (NewVM_abort X [] (ErrOther ''ExecutionResultsDB()'')) | None \<Rightarrow>
      case NewVM_sync E H excessAfter lastSynchronous w of
        (Inl err, _) \<Rightarrow> Inl (NewVM_abort X [ExecutionResultsDB] err)
      | (Inr lastSync, w) \<Rightarrow>
      (case lastCommittedBlock E c H lastSync w of
        (Inl err, _) \<Rightarrow> Inl (NewVM_abort X [ExecutionResultsDB] err)
      | (Inr lastCommitted, w) \<Rightarrow>
      (case Executor_New L c lastCommitted w of
        Inl err \<Rightarrow> Inl (NewVM_abort X [ExecutionResultsDB] (Errorf (\<lambda>_. ErrOther ''saexec.New(...)'') err))
      | Inr ex \<Rightarrow>
      (case NewVM_recover E H D ctxDone pick run lastSync (new_vm_world (Height w lastSync) ex) of
        (Inl err, _) \<Rightarrow> Inl (NewVM_abort X [ExecutionResultsDB, ExecutorLoop] err)
      | (Inr _, w) \<Rightarrow> NewVM_services X w))))"

section \<open>A constructed VM is ready\<close>

text \<open>The last synchronous block, from the database that the harness provides.\<close>

lemma MarkSynchronous_Inr:
  assumes "MarkSynchronous E H b x w = (Inr u, w')"
  shows "Synchronous w' b \<and> Executed w' b \<and> EthBlock w' b = EthBlock w b \<and> fresh w' = fresh w"
  using assms
proof (cases rule: MarkSynchronous_cases)
  case (run e w1)
  have w1: "eth (heap w1 b) = eth (heap w b)" "execution (heap w1 b) \<noteq> None" "fresh w1 = fresh w"
    using run(1) by (rule markExecuted_Inr, simp add: executed_world_def)+
  from run(2) show ?thesis
  proof (cases rule: markSettled_cases)
    case ok
    then show ?thesis using w1 by (simp add: settled_world_def Synchronous_def Executed_def EthBlock_def)
  next
    case closed
    then have "Synchronous w' b \<and> execution (heap w' b) = execution (heap w1 b) \<and> eth (heap w' b) = eth (heap w1 b) \<and> fresh w' = fresh w1"
      using run(2) by (auto simp: markSettled_def markSettled_swap_def prog_simps Settled_def Synchronous_def split: option.splits if_splits)
    then show ?thesis using w1 by (simp add: Executed_def EthBlock_def)
  qed simp
qed auto

lemma canonicaliseLastSynchronous_blocks:
  "canonicaliseLastSynchronous E b w = (r, w') \<Longrightarrow> heap w' = heap w \<and> fresh w' = fresh w"
  by (auto simp: canonicaliseLastSynchronous_def prog_simps write_batch_def emit_def split: if_splits prod.splits option.splits)

lemma NewVM_sync_run:
  assumes "NewVM_sync E H x eb w = (Inr ls, w')" and "heap_inv E w"
  shows "heap_inv E w' \<and> ls < fresh w' \<and> Synchronous w' ls \<and> EthBlock w' ls = eb"
proof -
  obtain w1 w2 where s: "blocks_New E (Some eb) None None w = (Inr ls, w1)" "MarkSynchronous E H ls x w1 = (Inr (), w2)"
    "canonicaliseLastSynchronous E ls w2 = (Inr (), w')"
    using assms(1) by (auto simp: NewVM_sync_def mbind_Inr mmap_err_Inr mreturn_apply)
  have w1: "heap_inv E w1" "ls < fresh w1" "EthBlock w1 ls = eb"
    using heap_inv_blocks_New [OF assms(2) _ _ s(1)] blocks_New_Inr [OF s(1)] s(1)
    by (auto simp: ptr_ok_def blocks_New_def SetAncestors_def SetAncestors_check_def prog_simps EthBlock_def upd_blk_def zero_blk_def)
  have w2: "heap_inv E w2" "Synchronous w2 ls" "EthBlock w2 ls = eb" "fresh w2 = fresh w1"
    using heap_inv_MarkSynchronous [OF w1(1,2) s(2)] MarkSynchronous_Inr [OF s(2)] w1(3) by auto
  have "heap w' = heap w2" "fresh w' = fresh w2" using canonicaliseLastSynchronous_blocks [OF s(3)] by auto
  then show ?thesis using w1(2) w2 heap_inv_cong [of w' w2 E] by (simp add: Synchronous_def EthBlock_def)
qed

lemma lastCommittedBlock_run:
  assumes "lastCommittedBlock E c H ls w = (Inr lc, w')" and "heap_inv E w" and "ls < fresh w"
  shows "heap_inv E w' \<and> grows w w' \<and> lc < fresh w' \<and> (lc = ls \<or> \<not> Settled w' lc)
    \<and> (\<exists>n. LastHeightWithExecutionRootCommitted E (kvdb w) c H (Height w ls) = Inr n
         \<and> (if n = Height w ls then lc = ls else canonicalBlock E (kvdb w) n = Inr (EthBlock w' lc)))"
proof -
  obtain n where n: "LastHeightWithExecutionRootCommitted E (kvdb w) c H (Height w ls) = Inr n"
    using assms(1) by (cases "LastHeightWithExecutionRootCommitted E (kvdb w) c H (Height w ls)")
      (auto simp: lastCommittedBlock_def mbind_apply mget_apply mlift_apply)
  show ?thesis
  proof (cases "n = Height w ls")
    case True
    then have "lc = ls \<and> w' = w" using assms(1) n by (simp add: lastCommittedBlock_def prog_simps)
    then show ?thesis using assms n True by (simp add: grows_refl)
  next
    case False
    then obtain w1 where x: "newCanonicalBlock E n None w = (Inr lc, w1)" "RestoreExecutionArtefacts E lc w1 = (Inr (), w')"
      using assms(1) n unfolding lastCommittedBlock_def
      by (auto simp: mbind_Inr mget_apply mlift_apply mreturn_apply)
    show ?thesis using recovered_parent [OF x assms(2)] n False by auto
  qed
qed

text \<open>What the executor's goroutine does to the blocks: it marks them executed, one after the other, and nothing else that recovery depends on.\<close>

definition same_links :: "('kv, 'x, 'z) world_scheme \<Rightarrow> ('kv, 'x, 'z) world_scheme \<Rightarrow> bool" where
  "same_links w w' \<longleftrightarrow> fresh w' = fresh w \<and> (\<forall>c. eth (heap w' c) = eth (heap w c) \<and> ancestry (heap w' c) = ancestry (heap w c)
     \<and> synchronous (heap w' c) = synchronous (heap w c))"

lemma same_links_refl: "same_links w w"
  by (simp add: same_links_def)

lemma same_links_trans: "same_links w w' \<Longrightarrow> same_links w' w'' \<Longrightarrow> same_links w w''"
  by (simp add: same_links_def)

lemma execute_links:
  assumes "execute E calc H S D V headers now b w = (r, w')" and "heap_inv E w" and "b < fresh w"
  shows "heap_inv E w' \<and> same_links w w' \<and> queue w' = queue w
    \<and> (case r of Inl _ \<Rightarrow> LastExecuted w' = LastExecuted w \<and> (\<forall>c. Executed w' c \<longleftrightarrow> Executed w c)
        | Inr _ \<Rightarrow> LastExecuted w' = Some b \<and> (\<forall>c. Executed w' c \<longleftrightarrow> c = b \<or> Executed w c))"
proof -
  have links: "same_links w v" if q: "quiet b w v" for v
  proof -
    obtain t where "heap v = (heap w)(b := (heap w b)\<lparr>interimExecutionTime := t\<rparr>)" "fresh v = fresh w"
      using q unfolding quiet_def by blast
    then show ?thesis by (simp add: same_links_def)
  qed
  from assms(1) show ?thesis
  proof (cases rule: execute_run)
    case (fail err)
    then show ?thesis using quiet_facts [OF fail(2)] quiet_heap_inv [OF fail(2) assms(2)] links [OF fail(2)]
      by (simp add: LastExecuted_def Executed_def)
  next
    case (mark l w1 g wall bf rs rt r2 w2)
    note q = quiet_facts [OF mark(3)]
    have h1: "heap_inv E w1" "b < fresh w1" using quiet_heap_inv [OF mark(3) assms(2)] assms(3) q(2) by auto
    note m = MarkExecuted_summary [OF h1 mark(4)]
    have v: "heap w' = heap w2" "fresh w' = fresh w2" "cells w' = cells w2" "queue w' = queue w2"
      using mark(6) by (auto simp: sendPostExecutionEvents_def Let_def prog_simps emit_def split: sum.splits)
    have "heap_inv E w'" using heap_inv_MarkExecuted [OF h1 mark(4)] heap_inv_cong [of w' w2 E] v by simp
    moreover have "queue w' = queue w" using m more_fields(1) [of w2 w1] q(3) v(4) by simp
    moreover have "same_links w1 w' \<and> (case r of Inl _ \<Rightarrow> LastExecuted w' = LastExecuted w1 \<and> heap w' = heap w1
        | Inr _ \<Rightarrow> LastExecuted w' = Some b \<and> (\<forall>c. Executed w' c \<longleftrightarrow> c = b \<or> Executed w1 c))"
    proof (cases r2)
      case (Inl err)
      then show ?thesis using m mark(5) v by (simp add: same_links_def LastExecuted_def)
    next
      case (Inr u)
      then obtain e where "heap w2 = (heap w1)(b := (heap w1 b)\<lparr>execution := Some e, executed_closed := True\<rparr>)"
        "cells w2 = (cells w1)(CellLastExecuted \<mapsto> b)" "fresh w2 = fresh w1" using m by auto
      then show ?thesis using Inr mark(5) v by (simp add: same_links_def LastExecuted_def Executed_def)
    qed
    ultimately show ?thesis using same_links_trans [OF links [OF mark(3)]] q(1,10)
      by (cases r) (auto simp: LastExecuted_def Executed_def)
  qed
qed

text \<open>While \<^verbatim>\<open>executeAllAccepted\<close> waits, the blocks it pushed on top of \<open>a\<close> are executed from the first on.\<close>

definition re_executing :: "('kv, 'x, 'e) env_scheme \<Rightarrow> ptr \<Rightarrow> ptr list \<Rightarrow> ('kv, 'x, 't, 'c, 'z) exec_world_scheme \<Rightarrow> bool" where
  "re_executing E a bs w \<longleftrightarrow> heap_inv E w \<and> distinct bs \<and> (\<forall>b\<in>set bs. b < fresh w)
     \<and> (\<exists>past rest. bs = past @ rest \<and> LastExecuted w = Some (last (a # past)) \<and> (\<forall>b\<in>set rest. \<not> Executed w b)
          \<and> (queue w = rest \<or> done_closed w))"

lemma re_executing_step:
  assumes "queue_step E calc H S D V headers w w'" and "re_executing E a bs w"
  shows "re_executing E a bs w' \<and> same_links w w'"
proof -
  obtain now where s: "w' \<in> set (processQueue_iter E calc H S D V headers now w)" using assms(1) by (auto simp: queue_step_def)
  then have nd: "\<not> done_closed w" by (auto simp: processQueue_iter_def split: if_splits)
  obtain past rest where x: "heap_inv E w" "distinct bs" "\<forall>b\<in>set bs. b < fresh w" "bs = past @ rest"
    "LastExecuted w = Some (last (a # past))" "\<forall>b\<in>set rest. \<not> Executed w b" "queue w = rest"
    using assms(2) nd by (auto simp: re_executing_def)
  show ?thesis
  proof (cases "w' = w\<lparr>done_closed := True\<rparr>")
    case True
    then show ?thesis using x heap_inv_cong [of w' w E]
      by (auto simp: re_executing_def same_links_def LastExecuted_def Executed_def)
  next
    case False
    then obtain b rest' where q: "rest = b # rest'"
      using s nd x(7) by (cases rest) (auto simp: processQueue_iter_def split: if_splits)
    obtain r v where e: "execute E calc H S D V headers now b (w\<lparr>queue := rest'\<rparr>) = (r, v)" by fastforce
    have i: "heap_inv E (w\<lparr>queue := rest'\<rparr>)" "b < fresh (w\<lparr>queue := rest'\<rparr>)"
      using x q heap_inv_cong [of "w\<lparr>queue := rest'\<rparr>" w E] by auto
    note l = execute_links [OF e i]
    show ?thesis
    proof (cases r)
      case (Inl err)
      then obtain ev where w': "w' = (emit ev v)\<lparr>done_closed := True\<rparr>"
        using s nd False x(7) q e by (fastforce simp: processQueue_iter_def split: if_splits)
      then show ?thesis using l Inl x heap_inv_cong [of w' v E]
        by (auto simp: re_executing_def same_links_def LastExecuted_def Executed_def emit_def)
    next
      case (Inr u)
      then have "w' = v" using s nd False x(7) q e by (auto simp: processQueue_iter_def split: if_splits)
      have sp: "bs = (past @ [b]) @ rest'" using x(4) q by simp
      have "LastExecuted w' = Some (last (a # past @ [b]))" "queue w' = rest'" "\<forall>c\<in>set rest'. \<not> Executed w' c"
        using l Inr x(2,6) sp q \<open>w' = v\<close> by (auto simp: Executed_def)
      then have "\<exists>past rest. bs = past @ rest \<and> LastExecuted w' = Some (last (a # past)) \<and> (\<forall>c\<in>set rest. \<not> Executed w' c)
        \<and> (queue w' = rest \<or> done_closed w')" using sp by blast
      then show ?thesis using l x(2,3) \<open>w' = v\<close> by (auto simp: re_executing_def same_links_def)
    qed
  qed
qed

lemma re_executing_run:
  "(queue_step E calc H S D V headers)\<^sup>*\<^sup>* w w' \<Longrightarrow> re_executing E a bs w \<Longrightarrow> re_executing E a bs w' \<and> same_links w w'"
proof (induction rule: rtranclp_induct)
  case (step v u)
  then show ?case using re_executing_step [OF step.hyps(2)] same_links_trans by blast
qed (simp add: same_links_refl)

lemma re_executing_done:
  assumes "re_executing E a bs w" and "Executed w (last (a # bs))"
  shows "LastExecuted w = Some (last (a # bs))"
proof -
  obtain past rest where x: "bs = past @ rest" "LastExecuted w = Some (last (a # past))" "\<forall>b\<in>set rest. \<not> Executed w b"
    using assms(1) by (auto simp: re_executing_def)
  have "rest = []" using x(1,3) assms(2) by (cases rest rule: rev_cases) auto
  then show ?thesis using x by simp
qed

text \<open>The end of the wait, and the roots that are untracked after it.\<close>

lemma executeAllAccepted_untrack_run:
  assumes "executeAllAccepted_untrack H D a l ctxDone pick w = (Inr u, w')"
  shows "executed_closed (heap w l) \<and> heap w' = heap w \<and> fresh w' = fresh w \<and> cells w' = cells w"
proof -
  have "executed_closed (heap w l)"
    using assms by (auto simp: executeAllAccepted_untrack_def prog_simps WaitUntilExecuted_def split: list.splits option.splits if_splits)
  moreover have "heap w' = heap w \<and> fresh w' = fresh w \<and> cells w' = cells w"
    using assms by (auto simp: executeAllAccepted_untrack_def prog_simps with_tracker_def split: list.splits option.splits if_splits sum.splits)
  ultimately show ?thesis by blast
qed

text \<open>The recovery of the consensus-critical blocks leaves the last executed block as it is.\<close>

definition keeps_head :: "ptr \<Rightarrow> eth_block \<Rightarrow> ('kv, 'x, 'z) world_scheme \<Rightarrow> bool" where
  "keeps_head b e w \<longleftrightarrow> b < fresh w \<and> EthBlock w b = e \<and> Executed w b \<and> LastExecuted w = Some b"

lemmas keeps_head_defs = keeps_head_def EthBlock_def Executed_def LastExecuted_def

lemma keeps_head_SetAncestors: "preserves (keeps_head b e) (SetAncestors E c p s)"
  unfolding SetAncestors_def
  by (intro preserves_rules preserves_mmod) (auto simp: keeps_head_defs upd_blk_def)

lemma keeps_head_zero_blk:
  assumes "keeps_head b e w"
  shows "keeps_head b e (snd (blocks_New E (Some e1) p s w))"
proof -
  define v where "v = w\<lparr>heap := (heap w)(fresh w := zero_blk e1), fresh := fresh w + 1,
    inMemoryBlockCount := inMemoryBlockCount w + 1\<rparr>"
  have "keeps_head b e v" using assms by (auto simp: keeps_head_defs v_def)
  then have "keeps_head b e (snd (SetAncestors E (fresh w) p s v))"
    by (rule keeps_head_SetAncestors [unfolded preserves_def, rule_format])
  moreover have "snd (blocks_New E (Some e1) p s w) = snd (SetAncestors E (fresh w) p s v)"
    by (simp add: blocks_New_def prog_simps v_def split: prod.split sum.split)
  ultimately show ?thesis by simp
qed

lemma keeps_head_New: "preserves (keeps_head b e) (blocks_New E eb p s)"
  by (cases eb) (simp_all add: keeps_head_zero_blk preservesI blocks_New_def [of _ None] preserves_mfail)

lemma keeps_head_Restore: "preserves (keeps_head b e) (RestoreExecutionArtefacts E c)"
  unfolding RestoreExecutionArtefacts_def markExecutedAfterDiskArtefacts_def
  by (intro preserves_rules preserves_mmod) (auto simp: keeps_head_defs upd_blk_def emit_def store_cell_def)

lemma keeps_head_MarkSettled: "preserves (keeps_head b e) (MarkSettled E c (Some CellBlackhole))"
  unfolding MarkSettled_def markSettled_def markSettled_swap_def
  by (intro preserves_rules preserves_mmod) (auto simp: keeps_head_defs upd_blk_def emit_def store_cell_def)

lemma keeps_head_newCanonicalBlock: "preserves (keeps_head b e) (newCanonicalBlock E num p)"
  unfolding newCanonicalBlock_def by (intro preserves_rules keeps_head_New)

lemma keeps_head_Store: "preserves (keeps_head b e) (critical_Store D h c)"
  unfolding critical_Store_def by (intro preserves_mmod) (simp add: keeps_head_defs Let_def)

lemmas keeps_head_rules = preserves_rules keeps_head_SetAncestors keeps_head_New keeps_head_Restore keeps_head_MarkSettled
  keeps_head_newCanonicalBlock keeps_head_Store

lemma keeps_head_extend_loop: "preserves (keeps_head b e) (extend_loop n E ls tm chain)"
  by (induction n arbitrary: chain) (auto simp: extend_iter_def intro!: keeps_head_rules)

lemma keeps_head_extend: "preserves (keeps_head b e) (Recovery.extend E H ls settler chain)"
  unfolding Recovery.extend_def by (intro preserves_rules keeps_head_extend_loop)

lemma keeps_head_link_chain: "preserves (keeps_head b e) (link_chain E H ls i bs chain)"
  by (induction bs arbitrary: i chain) (auto intro!: keeps_head_rules keeps_head_extend)

lemma keeps_head_consensusCriticalBlocks: "preserves (keeps_head b e) (consensusCriticalBlocks E H D ls)"
  unfolding consensusCriticalBlocks_def
  by (intro keeps_head_rules keeps_head_extend keeps_head_link_chain preserves_mmod) (simp add: keeps_head_defs)

text \<open>
  What \<^verbatim>\<open>NewVM\<close> promises of its block state: the last executed block is the last accepted one and the preference, the blocks that
  consensus needs are those after the last settled one, and all of them are executed.
\<close>

definition critical_ready :: "('kv, 'x, 'e) env_scheme \<Rightarrow> ('kv, 'x, 't, 'c, 'z) vm_world_scheme \<Rightarrow> ptr \<Rightarrow> ptr \<Rightarrow> bool" where
  "critical_ready E w s head \<longleftrightarrow> heap_inv E w \<and> keyed_by_hash E w \<and> critical_Load w (Hash E w s) = Some s
     \<and> critical_Load w (Hash E w head) \<noteq> None
     \<and> list_all (\<lambda>(h, b). Executed w b \<and> (if h = Hash E w s then Settled w b else \<not> Settled w b
          \<and> res_bind (deref (LastSettled w b)) (PostExecutionStateRoot w) = Inr (SettledStateRoot w b))) (critical w)"

definition vm_ready :: "('kv, 'x, 'e) env_scheme \<Rightarrow> ('kv, 'x, 't, 'c, 'z) vm_world_scheme \<Rightarrow> bool" where
  "vm_ready E w \<longleftrightarrow> (case (cells w CellLastSettled, LastExecuted w) of
       (Some s, Some head) \<Rightarrow> cells w CellLastAccepted = Some head \<and> cells w CellPreference = Some head
         \<and> Executed w head \<and> critical_ready E w s head
     | _ \<Rightarrow> False)"

text \<open>The block that was accepted last according to the database: the one at the greatest canonical height after the last committed state, if any.\<close>

definition last_accepted_block :: "('kv, 'x, 'e) env_scheme \<Rightarrow> db_config \<Rightarrow> ('db, 'a) points_scheme \<Rightarrow> 'kv \<Rightarrow> eth_block \<Rightarrow> eth_block res" where
  "last_accepted_block E c H kv lastSynchronous =
     (let sync = word_of_int (Number (eb_header lastSynchronous))
      in res_bind (LastHeightWithExecutionRootCommitted E kv c H sync) (\<lambda>n.
         case ReadAllCanonicalHashes E kv (n + 1) MaxUint64 of
           [] \<Rightarrow> if n = sync then Inr lastSynchronous else canonicalBlock E kv n
         | nums \<Rightarrow> canonicalBlock E kv (last nums)))"

lemma critical_ready_cells: "critical_ready E (w\<lparr>cells := c\<rparr>) s head = critical_ready E w s head"
proof -
  have "heap_inv E (w\<lparr>cells := c\<rparr>) = heap_inv E w" by (rule heap_inv_cong) simp_all
  moreover have "Hash E (w\<lparr>cells := c\<rparr>) = Hash E w" "Executed (w\<lparr>cells := c\<rparr>) = Executed w" "Settled (w\<lparr>cells := c\<rparr>) = Settled w"
    "SettledStateRoot (w\<lparr>cells := c\<rparr>) = SettledStateRoot w" "LastSettled (w\<lparr>cells := c\<rparr>) = LastSettled w"
    "PostExecutionStateRoot (w\<lparr>cells := c\<rparr>) = PostExecutionStateRoot w" "critical_Load (w\<lparr>cells := c\<rparr>) = critical_Load w"
    by (simp_all add: fun_eq_iff accessor_defs Executed_def Settled_def LastSettled_def ancestor_def PostExecutionStateRoot_def
        executionArtefact_def critical_Load_def critical_map_def)
  ultimately show ?thesis unfolding critical_ready_def keyed_by_hash_def by simp
qed

lemma vm_ready_frontiers:
  assumes "critical_ready E w s head" and "LastExecuted w = Some head" and "Executed w head"
  shows "vm_ready E (w\<lparr>cells := (cells w)(CellLastSettled := Some s, CellLastAccepted := Some head, CellPreference := Some head)\<rparr>)"
  using assms unfolding vm_ready_def critical_ready_cells by (simp add: LastExecuted_def Executed_def)

lemma NewVM_recover_run:
  assumes "NewVM_recover E H D ctxDone pick run ls w = (Inr u, w')"
    and "heap_inv E w" and "LastExecuted w = Some a" and "a < fresh w" and "ls < fresh w" and "Synchronous w ls"
    and "a = ls \<or> \<not> Settled w a" and "queue w = []" and "\<And>v. (queue_step E calc H S D V headers)\<^sup>*\<^sup>* v (run v)"
  shows "vm_ready E w' \<and> (\<exists>head. LastExecuted w' = Some head
    \<and> (case ReadAllCanonicalHashes E (kvdb w) (NumberU64 w a + 1) MaxUint64 of
         [] \<Rightarrow> EthBlock w' head = EthBlock w a | nums \<Rightarrow> canonicalBlock E (kvdb w) (last nums) = Inr (EthBlock w' head)))"
proof -
  obtain after l w1 where en: "executeAllAccepted_enqueue E ctxDone pick w = (Inr (after, l), w1)"
    using assms(1) unfolding NewVM_recover_def mbind_Inr by auto
  then have "after = a" using executeAllAccepted_enqueue_run [OF assms(2-4)] by blast
  note en = en [unfolded this]
  obtain w3 s w4 where x: "executeAllAccepted_enqueue E ctxDone pick w = (Inr (a, l), w1)"
    "executeAllAccepted_untrack H D a l ctxDone pick (run w1) = (Inr (), w3)" "consensusCriticalBlocks E H D ls w3 = (Inr s, w4)"
    "w' = w4\<lparr>cells := (cells w4)(CellLastSettled := Some s, CellLastAccepted := LastExecuted w4, CellPreference := LastExecuted w4)\<rparr>"
    using assms(1) en unfolding NewVM_recover_def by (auto simp: mbind_Inr mmod_apply)
  let ?nums = "ReadAllCanonicalHashes E (kvdb w) (NumberU64 w a + 1) MaxUint64"
  obtain bs where bs: "l = last (a # bs)" "queue w1 = bs" "recovered E (kvdb w) w1 a ?nums bs" "heap_inv E w1" "grows w w1" "new_blocks w w1 bs"
    using executeAllAccepted_enqueue_run [OF assms(2-4) x(1)] assms(8) by auto
  have "re_executing E a bs w1"
    using bs assms(3) by (auto simp: re_executing_def new_blocks_def LastExecuted_def Executed_def intro!: exI [of _ "[]"])
  then have r2: "re_executing E a bs (run w1)" "same_links w1 (run w1)" using re_executing_run [OF assms(9)] by blast+
  note w3 = executeAllAccepted_untrack_run [OF x(2)]
  have l1: "l < fresh w1" "l = a \<and> bs = [] \<or> l \<in> set bs"
    using bs(1,5,6) assms(4) by (auto simp: new_blocks_def grows_def)
  have h2: "heap_inv E (run w1)" "l < fresh (run w1)" using r2 l1 by (auto simp: re_executing_def same_links_def)
  then have e2: "Executed (run w1) l" using w3 by (auto simp: heap_inv_def blk_ok_def Executed_def)
  then have le: "LastExecuted w3 = Some l" using re_executing_done [OF r2(1)] bs(1) w3 by (simp add: LastExecuted_def)
  have h3: "heap_inv E w3" "l < fresh w3" "ls < fresh w3" "Synchronous w3 ls"
    using h2 w3 heap_inv_cong [of w3 "run w1" E] r2(2) bs(5) assms(5,6)
    by (auto simp: same_links_def grows_def Synchronous_def)
  have st: "l = ls \<or> \<not> Settled w3 l"
    using l1(2) assms(4,7) bs(5,6) r2(2) w3 by (auto simp: new_blocks_def Settled_def grows_def same_links_def)
  have "keeps_head l (EthBlock w3 l) w3" using h3(2) e2 le w3 by (simp add: keeps_head_def Executed_def)
  then have k4: "keeps_head l (EthBlock w3 l) w4" by (rule preservesD [OF keeps_head_consensusCriticalBlocks _ x(3)])
  then have "LastExecuted w4 = Some l" "Executed w4 l" by (simp_all add: keeps_head_def)
  then have "vm_ready E w'"
    using vm_ready_frontiers [OF consensusCriticalBlocks_run [OF h3(1) le h3(2-4) st x(3), folded critical_ready_def]] x(4) by simp
  moreover have "LastExecuted w' = Some l" "EthBlock w' l = EthBlock w1 l"
    using k4 x(4) w3 r2(2) by (simp_all add: keeps_head_def LastExecuted_def EthBlock_def same_links_def)
  moreover have "case ?nums of [] \<Rightarrow> EthBlock w1 l = EthBlock w a | nums \<Rightarrow> canonicalBlock E (kvdb w) (last nums) = Inr (EthBlock w1 l)"
  proof (cases bs rule: rev_cases)
    case Nil
    then show ?thesis using bs(1,3,5) assms(4) by (auto simp: recovered_def grows_def EthBlock_def split: list.split)
  next
    case (snoc xs b)
    then obtain ns n where "?nums = ns @ [n]" "canonicalBlock E (kvdb w) n = Inr (EthBlock w1 b)"
      using bs(3) by (auto simp: recovered_def list_all2_append2 list_all2_Cons2)
    then show ?thesis using bs(1) snoc by (cases ns) auto
  qed
  ultimately show ?thesis by (auto split: list.splits)
qed

text \<open>The executor's constructor shares the blocks with its caller.\<close>

lemma Executor_New_run:
  assumes "Executor_New L c a w = Inr ex"
  shows "heap (new_vm_world n ex) = heap w \<and> fresh (new_vm_world n ex) = fresh w \<and> kvdb (new_vm_world n ex) = kvdb w
    \<and> queue (new_vm_world n ex) = [] \<and> LastExecuted (new_vm_world n ex) = Some a"
  using assms by (auto simp: Executor_New_def res_bind_def saexec_New_def new_vm_world_def world.defs exec_world.defs LastExecuted_def
      split: sum.splits)

lemma heap_inv_new_vm_world:
  assumes "Executor_New L c a w = Inr ex" and "heap_inv E w"
  shows "heap_inv E (new_vm_world n ex)"
proof -
  note f = Executor_New_run [OF assms(1), of n]
  have "link_ok E (new_vm_world n ex) b = link_ok E w b" for b
    by (simp add: link_ok_def f ptr_ok_def SetAncestors_check_def accessor_defs split: option.split)
  then show ?thesis using assms(2) by (simp add: heap_inv_def f)
qed

lemma NewVM_services_Inr: "NewVM_services X w = Inr (w', toClose) \<Longrightarrow> w' = w"
  by (auto simp: NewVM_services_def Let_def split: option.splits)

lemma NewVM_steps:
  assumes "NewVM E H L D c X excessAfter ctxDone pick run eb w = Inr (w', toClose)"
  obtains ls w1 lc w2 ex where "NewVM_sync E H excessAfter eb w = (Inr ls, w1)" and "lastCommittedBlock E c H ls w1 = (Inr lc, w2)"
    and "Executor_New L c lc w2 = Inr ex"
    and "NewVM_recover E H D ctxDone pick run ls (new_vm_world (Height w2 ls) ex) = (Inr (), w')"
  using assms unfolding NewVM_def
  by (auto split: option.splits prod.splits sum.splits dest: NewVM_services_Inr)


lemma vm_close_resources:
  "vm_close (map (\<lambda>r closed. (f r, closed @ [r])) rs) [] = (errors_Join (map f rs), rev rs)"
proof -
  have "foldr (\<lambda>c (errs, w). case c w of (e, w') \<Rightarrow> (e # errs, w')) (map (\<lambda>r closed. (f r, closed @ [r])) rs) ([], []) = (map f rs, rev rs)"
    by (induction rs) simp_all
  then show ?thesis by (simp add: vm_close_def)
qed

definition vm_resources :: "resource list" where
  "vm_resources = [ExecutionResultsDB, ExecutorLoop, TxPool, NewTxsSubscription, GossipLoops, RPCProvider]"

definition aborted :: "vm_services \<Rightarrow> go_error option \<times> resource list \<Rightarrow> bool" where
  "aborted X = (\<lambda>(err, closed). \<exists>e opened. strict_prefix opened vm_resources
     \<and> (if stops e then err = Some e \<and> closed = []
        else err = errors_Join [Some e, errors_Join (map (resource_Close X) opened)] \<and> closed = rev opened))"

lemma aborted_NewVM_abort: "strict_prefix opened vm_resources \<Longrightarrow> aborted X (NewVM_abort X opened e)"
  by (auto simp: aborted_def NewVM_abort_def vm_close_resources intro!: exI [of _ e] exI [of _ opened])

definition releases :: "vm_services \<Rightarrow> (go_error option \<times> resource list) + ('w \<times> resource list) \<Rightarrow> bool" where
  "releases X r = (case r of Inl abort \<Rightarrow> aborted X abort | Inr (_, toClose) \<Rightarrow> toClose = vm_resources)"

lemma releases_abort: "strict_prefix opened vm_resources \<Longrightarrow> releases X (Inl (NewVM_abort X opened e))"
  by (simp add: releases_def aborted_NewVM_abort)

lemma releases_services: "releases X (NewVM_services X w)"
proof -
  have "releases X (Inr (w, vm_resources))" by (simp add: releases_def)
  then show ?thesis by (auto simp: NewVM_services_def Let_def vm_resources_def split: option.split intro!: releases_abort)
qed

lemma releases_NewVM: "releases X (NewVM E H L D c X excessAfter ctxDone pick run lastSynchronous w)"
  unfolding NewVM_def
  by (auto simp: vm_resources_def split: option.split prod.split sum.split intro!: releases_abort releases_services)


section \<open>Example\<close>

text \<open>The first start of a chain, from its genesis block.\<close>

definition sample_libevm :: "(db_write list, hash \<Rightarrow> nat, unit) libevm" where
  "sample_libevm = \<lparr>NewDatabaseWithConfig = (\<lambda>_ _. 0), Backend_isHashDB = (\<lambda>_. True), snapshot_New = (\<lambda>_ t _. Inr t), lru_NewCache = (\<lambda>_. ())\<rparr>"

definition sample_services :: vm_services where
  "sample_services = \<lparr>metrics_Register = None, hooks_ExecutionResultsDB = None, txpool_New = None, bloom_NewMetrics = None,
     txgossip_NewSet = None, newNetwork = None, gossip_NewSystem = None, network_AddHandler = None, rpc_New = None,
     resource_Close = (\<lambda>_. None)\<rparr>"

definition sample_boot :: "(db_write list, (u64 \<times> encoding) list) world" where
  "sample_boot = init_world (\<lambda>_. zero_blk (sample_eth 0)) [WriteBlock (sample_eth 0)] []"

lemma sample_genesis_time: "\<exists>g. gastime_New 9000000000 5 0 DefaultGasPriceConfig = Inr g"
proof -
  define p :: ptime where "p = \<lparr>seconds = 9, fraction = 0, hertz = 1000000000\<rparr>"
  have "proxytime_Of 9000000000 = Inr p"
    by (simp add: p_def proxytime_Of_def proxytime_New_def proxytime_Tick_def time_Second_def Time_Unix_def Time_Nanosecond_def
        Add64_def Div64_def Let_def)
  moreover have "\<exists>c. newConfig DefaultGasPriceConfig = Inr c"
    by (simp add: newConfig_def GasPriceConfig_Validate_def DefaultGasPriceConfig_def)
  moreover have "rateOf (clampTarget 5) \<noteq> 0"
    by (simp add: unat_pos_iff [symmetric] unat_clampTarget unat_rateOf clampTarget_bounds)
  then have "\<exists>p'. proxytime_SetRate p (rateOf (clampTarget 5)) = Inr p'"
    using SetRate_instant' [of p] by (auto simp: p_def ptime_inv_def)
  ultimately show ?thesis by (auto simp: gastime_New_def)
qed

definition sample_db_config :: db_config where
  "sample_db_config = \<lparr>Archival = False, TrieCommitInterval = 2\<rparr>"

definition sample_genesis :: "execution_results \<Rightarrow> ('kv, 'x, 'z) world_scheme \<Rightarrow> bool" where
  "sample_genesis e w \<longleftrightarrow> fresh w = 1 \<and> stateRootPost e = 0 \<and> receiptRoot e = 0 \<and> er_receipts e = [] \<and> heap w 0 = (zero_blk (sample_eth 0))
     \<lparr>execution := Some e, executed_closed := True, settled_closed := True, synchronous := True, ancestry := None\<rparr>"

definition sample_genesis_kv :: "db_write list" where
  "sample_genesis_kv = [WriteFinalizedBlockHash 1, WriteHeadHeaderHash 1, WriteHeadBlockHash 1, WriteCanonicalHash 1 0, WriteBlock (sample_eth 0)]"

lemma sample_genesis_facts:
  assumes "sample_genesis e w"
  shows "Synchronous w 0" "Executed w 0" "Settled w 0" "Height w 0 = 0" "NumberU64 w 0 = 0" "Hash sample_env w 0 = 1"
    "PostExecutionStateRoot w 0 = Inr 0" "SettledStateRoot w 0 = 0" "executed_closed (heap w 0)"
    "PreciseTime sample_exec_points (Header w 0) = 9000000000"
  using assms by (simp_all add: sample_genesis_def Synchronous_def Executed_def Settled_def accessor_defs sample_eth_def sample_header_def
      zero_blk_def sample_env_def PostExecutionStateRoot_def executionArtefact_def PreciseTime_def preciseTime_def time_Unix_def
      sample_exec_points_def flat_points_def points.defs time_Second_def)

lemma sample_genesis_sync:
  "\<exists>e w. NewVM_sync sample_env sample_exec_points 0 (sample_eth 0) sample_boot = (Inr 0, w) \<and> sample_genesis e w
    \<and> kvdb w = sample_genesis_kv"
proof -
  obtain g where g: "gastime_New 9000000000 5 0 DefaultGasPriceConfig = Inr g" using sample_genesis_time by blast
  show ?thesis
    by (simp add: NewVM_sync_def prog_simps blocks_New_def sample_boot_def init_world_def SetAncestors_def SetAncestors_check_def
       MarkSynchronous_def accessor_defs upd_blk_def sample_eth_def sample_header_def zero_blk_def PreciseTime_def preciseTime_def time_Unix_def
       sample_exec_points_def flat_points_def points.defs time_Second_def g setBaseFee_def markExecuted_def markExecutedOnDisk_def write_xdb_def write_batch_def sample_env_def
       emit_def markExecutedAfterDiskArtefacts_def markSettled_def markSettled_swap_def canonicaliseLastSynchronous_def Synchronous_def SetAsHeadBlock_def
       sample_genesis_def sample_genesis_kv_def)
qed

lemma sample_genesis_reads:
  "LastHeightWithExecutionRootCommitted sample_env sample_genesis_kv c H 0 = Inr 0"
  "ReadAllCanonicalHashes sample_env sample_genesis_kv 1 MaxUint64 = []"
  by (simp_all add: LastHeightWithExecutionRootCommitted_def sample_env_def sample_genesis_kv_def sample_eth_def sample_header_def)

lemma sample_recover:
  assumes "sample_genesis e w" and "kvdb w = sample_genesis_kv" and "LastExecuted w = Some 0"
  shows "\<exists>w'. NewVM_recover sample_env sample_exec_points count_triedb False 0 (\<lambda>v. v) 0 w = (Inr (), w') \<and> LastExecuted w' = Some 0"
proof -
  note g = sample_genesis_facts [OF assms(1)]
  have en: "executeAllAccepted_enqueue sample_env False 0 w = (Inr (0, 0), w)"
    using assms g
    by (simp add: sample_genesis_reads executeAllAccepted_enqueue_def canonicalAfter_def prog_simps deref_def)
  have un: "executeAllAccepted_untrack sample_exec_points count_triedb 0 0 False 0 w = (Inr (), w)"
    using g by (simp add: executeAllAccepted_untrack_def prog_simps WaitUntilExecuted_def untrack_loop.simps with_tracker_def)
  have ex: "Recovery.extend sample_env sample_exec_points 0 0 [0] w = (Inr [0], w)"
    using g sample_tm by (simp add: Recovery.extend_def extend_iter_def prog_simps numeral_2_eq_2)
  define w4 where "w4 = snd (critical_Store count_triedb 1 0 (w\<lparr>critical := []\<rparr>))"
  have st: "mfor [0] (store_block sample_env count_triedb) (w\<lparr>critical := []\<rparr>) = (Inr (), w4)"
    using sample_genesis_facts(6) [of e "w\<lparr>critical := []\<rparr>"] assms(1)
    by (simp add: prog_simps w4_def critical_Store_def sample_genesis_def)
  have g4: "sample_genesis e w4" "critical w4 = [(1, 0)]" "cells w4 = cells w" 
    using assms(1) by (simp_all add: w4_def critical_Store_def prog_simps Let_def sample_genesis_def sm_Store_def critical_map_def)
  have "check_critical sample_env w4 0 = None"
    using g4 sample_genesis_facts [OF g4(1)] g4(1) [unfolded sample_genesis_def]
    by (simp add: sample_env_def accessor_defs check_critical_def CheckInvariants_def CheckInvariants_execution_def CheckInvariants_ancestry_def
        less_eq_LifeCycleStage_def less_LifeCycleStage_def)
  then have "consensusCriticalBlocks sample_env sample_exec_points count_triedb 0 w = (Inr 0, w4)"
    using assms(3) ex st by (simp add: consensusCriticalBlocks_def mbind_apply mget_apply mlift_apply mmod_apply mreturn_apply deref_def)
  then show ?thesis using en un g4(3) assms(3) by (simp add: NewVM_recover_def prog_simps LastExecuted_def)
qed


end
