(* ===== verification/Adaptor.thy ===== *)
theory Adaptor
  imports Verify
begin

text \<open>
  The adaptor that presents a VM to avalanchego's consensus (\<^verbatim>\<open>src/adaptor/adaptor.go\<close>). Consensus calls methods of blocks; the VM has
  them as its own methods, with the block as an argument. \<open>chain_vm\<close> is the interface \<^verbatim>\<open>ChainVM\<close> with the properties of its
  blocks, \<open>snowman_block\<close> the struct \<^verbatim>\<open>Block\<close>, and \<open>strevm\<close> the VM of package \<^verbatim>\<open>sae\<close> as an instance.
\<close>

record ('w, 'b) chain_vm =
  vm_GetBlock :: "hash \<Rightarrow> ('w, 'b) prog"
  vm_ParseBlock :: "encoding \<Rightarrow> ('w, 'b) prog"
  vm_BuildBlock :: "nat option \<Rightarrow> ('w, 'b) prog"
  vm_VerifyBlock :: "nat option \<Rightarrow> 'b \<Rightarrow> ('w, unit) prog"
  vm_AcceptBlock :: "'b \<Rightarrow> ('w, unit) prog"
  vm_RejectBlock :: "'b \<Rightarrow> ('w, unit) prog"
  vm_SetPreference :: "hash \<Rightarrow> nat option \<Rightarrow> ('w, unit) prog"
  bp_ID :: "'w \<Rightarrow> 'b \<Rightarrow> hash res"
  bp_Parent :: "'w \<Rightarrow> 'b \<Rightarrow> hash res"
  bp_Bytes :: "'b \<Rightarrow> ('w, encoding) prog"
  bp_Height :: "'w \<Rightarrow> 'b \<Rightarrow> u64 res"
  bp_Timestamp :: "'w \<Rightarrow> 'b \<Rightarrow> gotime res"

record ('w, 'b) snowman_block =
  sb_b :: 'b
  sb_vm :: "('w, 'b) chain_vm"

definition adaptor_newBlock :: "('w, 'b) chain_vm \<Rightarrow> ('w, 'b) prog \<Rightarrow> ('w, ('w, 'b) snowman_block) prog" where
  "adaptor_newBlock C m = mbind m (\<lambda>b. mreturn \<lparr>sb_b = b, sb_vm = C\<rparr>)"

definition adaptor_GetBlock :: "('w, 'b) chain_vm \<Rightarrow> hash \<Rightarrow> ('w, ('w, 'b) snowman_block) prog" where
  "adaptor_GetBlock C blkID = adaptor_newBlock C (vm_GetBlock C blkID)"

definition adaptor_ParseBlock :: "('w, 'b) chain_vm \<Rightarrow> encoding \<Rightarrow> ('w, ('w, 'b) snowman_block) prog" where
  "adaptor_ParseBlock C blockBytes = adaptor_newBlock C (vm_ParseBlock C blockBytes)"

definition adaptor_BuildBlock :: "('w, 'b) chain_vm \<Rightarrow> ('w, ('w, 'b) snowman_block) prog" where
  "adaptor_BuildBlock C = adaptor_newBlock C (vm_BuildBlock C None)"

definition adaptor_BuildBlockWithContext :: "('w, 'b) chain_vm \<Rightarrow> nat option \<Rightarrow> ('w, ('w, 'b) snowman_block) prog" where
  "adaptor_BuildBlockWithContext C blockCtx = adaptor_newBlock C (vm_BuildBlock C blockCtx)"

definition adaptor_SetPreference :: "('w, 'b) chain_vm \<Rightarrow> hash \<Rightarrow> ('w, unit) prog" where
  "adaptor_SetPreference C blkID = vm_SetPreference C blkID None"

definition adaptor_SetPreferenceWithContext :: "('w, 'b) chain_vm \<Rightarrow> hash \<Rightarrow> nat option \<Rightarrow> ('w, unit) prog" where
  "adaptor_SetPreferenceWithContext C blkID blockCtx = vm_SetPreference C blkID blockCtx"

definition Block_Verify :: "('w, 'b) snowman_block \<Rightarrow> ('w, unit) prog" where
  "Block_Verify b = vm_VerifyBlock (sb_vm b) None (sb_b b)"

definition Block_VerifyWithContext :: "('w, 'b) snowman_block \<Rightarrow> nat option \<Rightarrow> ('w, unit) prog" where
  "Block_VerifyWithContext b blockCtx = vm_VerifyBlock (sb_vm b) blockCtx (sb_b b)"

definition Block_ShouldVerifyWithContext :: "('w, 'b) snowman_block \<Rightarrow> bool res" where
  "Block_ShouldVerifyWithContext b = Inr True"

definition Block_Accept :: "('w, 'b) snowman_block \<Rightarrow> ('w, unit) prog" where
  "Block_Accept b = vm_AcceptBlock (sb_vm b) (sb_b b)"

definition Block_Reject :: "('w, 'b) snowman_block \<Rightarrow> ('w, unit) prog" where
  "Block_Reject b = vm_RejectBlock (sb_vm b) (sb_b b)"

definition Block_ID :: "'w \<Rightarrow> ('w, 'b) snowman_block \<Rightarrow> hash res" where
  "Block_ID w b = bp_ID (sb_vm b) w (sb_b b)"

definition Block_Parent :: "'w \<Rightarrow> ('w, 'b) snowman_block \<Rightarrow> hash res" where
  "Block_Parent w b = bp_Parent (sb_vm b) w (sb_b b)"

definition Block_Bytes :: "('w, 'b) snowman_block \<Rightarrow> ('w, encoding) prog" where
  "Block_Bytes b = bp_Bytes (sb_vm b) (sb_b b)"

definition Block_Height :: "'w \<Rightarrow> ('w, 'b) snowman_block \<Rightarrow> u64 res" where
  "Block_Height w b = bp_Height (sb_vm b) w (sb_b b)"

definition Block_Timestamp :: "'w \<Rightarrow> ('w, 'b) snowman_block \<Rightarrow> gotime res" where
  "Block_Timestamp w b = bp_Timestamp (sb_vm b) w (sb_b b)"

section \<open>The VM behind the adaptor\<close>

definition Bytes :: "('kv, 'x, 'e) env_scheme \<Rightarrow> ptr \<Rightarrow> (('kv, 'x, 'z) world_scheme, encoding) prog" where
  "Bytes E b =
     mbind (mget (\<lambda>w. RLPEncode E (EthBlock w b))) (\<lambda>r.
     case r of
       Inl _ \<Rightarrow> mbind (mmod (emit (EvLogError ''RLP encoding error''))) (\<lambda>_. mreturn [])
     | Inr buf \<Rightarrow> mreturn buf)"

text \<open>
  Its blocks are pointers, and may be nil. The parameters are those of the VM's methods. \<^verbatim>\<open>SetPreference\<close> ignores the block context.
\<close>

definition strevm :: "('kv, 'x, 'e) env_scheme \<Rightarrow> price_fun \<Rightarrow> ('db, 'a) points_scheme \<Rightarrow> 'db statedb \<Rightarrow> 't triedb
    \<Rightarrow> (hash \<Rightarrow> 'db res) \<Rightarrow> (hash \<Rightarrow> u64 \<Rightarrow> eth_block option) \<Rightarrow> gotime \<Rightarrow> gas \<Rightarrow> (u256 option \<Rightarrow> lazy_tx list)
    \<Rightarrow> ('tx, 'u) builder_scheme \<Rightarrow> (eth_block \<Rightarrow> ('tx, 'u) builder_scheme res) \<Rightarrow> bool \<Rightarrow> nat
    \<Rightarrow> (('kv, 'x, 't, 'c, 'z) vm_world_scheme, ptr option) chain_vm" where
  "strevm E calc H S D openDB src now excessAfter pending B rebuilder ctxDone pick =
     \<lparr>vm_GetBlock = GetBlock E H excessAfter,
      vm_ParseBlock = (\<lambda>buf. mbind (ParseBlock E now buf) (\<lambda>b. mreturn (Some b))),
      vm_BuildBlock = (\<lambda>bCtx. mbind (BuildBlock_vm E calc H S openDB src now pending B bCtx) (\<lambda>b. mreturn (Some b))),
      vm_VerifyBlock = (\<lambda>bCtx b. mbind (mlift (deref b)) (VerifyBlock E calc H S D openDB src now excessAfter rebuilder bCtx)),
      vm_AcceptBlock = (\<lambda>b. mbind (mlift (deref b)) (AcceptBlock E D ctxDone pick)),
      vm_RejectBlock = (\<lambda>b. mbind (mlift (deref b)) (RejectBlock E D)),
      vm_SetPreference = (\<lambda>h _. SetPreference E H excessAfter h),
      bp_ID = (\<lambda>w b. res_bind (deref b) (\<lambda>b. Inr (Hash E w b))),
      bp_Parent = (\<lambda>w b. res_bind (deref b) (\<lambda>b. Inr (Block_ParentHash w b))),
      bp_Bytes = (\<lambda>b. mbind (mlift (deref b)) (Bytes E)),
      bp_Height = (\<lambda>w b. res_bind (deref b) (\<lambda>b. Inr (Height w b))),
      bp_Timestamp = (\<lambda>w b. res_bind (deref b) (\<lambda>b. Inr (Timestamp w b)))\<rparr>"

text \<open>
  A block that consensus gets by its identifier has that identifier, unless it is the nil block that \<open>GetBlock\<close> returns without an error
  in some cases; the adaptor wraps this one into a block that is not nil, so that consensus cannot see it, and its first use panics.
\<close>

lemma adaptor_GetBlock_ID:
  assumes C_def: "C = strevm E calc H S D openDB src now excessAfter pending B rebuilder ctxDone pick"
    and "heap_inv E w" and "ordered (trace w)" and "keyed_by_hash E w" and "block_db_laws E"
    and "adaptor_GetBlock C h w = (Inr blk, w')"
  shows "if sb_b blk = None then Block_ID w' blk = Inl nil_deref \<and> fst (Block_Verify blk w') = Inl nil_deref
    else Block_ID w' blk = Inr h"
proof -
  have g: "GetBlock E H excessAfter h w = (Inr (sb_b blk), w')" "sb_vm blk = C"
    using assms(6) by (auto simp: adaptor_GetBlock_def adaptor_newBlock_def C_def strevm_def mbind_Inr mreturn_apply)
  show ?thesis
  proof (cases "sb_b blk")
    case None
    then show ?thesis using g(2) by (simp add: Block_ID_def Block_Verify_def C_def strevm_def deref_def prog_simps)
  next
    case (Some b)
    then have "Hash E w' b = h" using GetBlock_run [OF assms(2-5), where H = H and x = excessAfter and h = h] g(1) by (auto split: option.splits)
    then show ?thesis using g(2) Some by (simp add: Block_ID_def C_def strevm_def deref_def)
  qed
qed

text \<open>A block that travels as bytes arrives as a block with the same identifier, parent and height.\<close>

lemma adaptor_bytes_parse:
  assumes C_def: "C = strevm E calc H S D openDB src now excessAfter pending B rebuilder ctxDone pick"
    and "RLPEncode E (EthBlock w b) = Inr buf" and "RLPDecode E buf = Inr (EthBlock w b)"
    and "0 \<le> Block_Number w b" and "Block_Number w b < 2 ^ 64" and "BuildTime w b \<le> unix now + maxFutureBlockSeconds"
  shows "Block_Bytes \<lparr>sb_b = Some b, sb_vm = C\<rparr> w = (Inr buf, w)
    \<and> (\<exists>blk w'. adaptor_ParseBlock C buf w = (Inr blk, w') \<and> Block_ID w' blk = Inr (Hash E w b)
         \<and> Block_Parent w' blk = Inr (Block_ParentHash w b) \<and> Block_Height w' blk = Inr (Height w b))"
proof -
  have "Block_Bytes \<lparr>sb_b = Some b, sb_vm = C\<rparr> w = (Inr buf, w)"
    using assms(2) by (simp add: Block_Bytes_def C_def strevm_def Bytes_def deref_def prog_simps)
  moreover have "\<exists>p w'. blocks_New E (Some (EthBlock w b)) None None w = (Inr p, w') \<and> EthBlock w' p = EthBlock w b"
    by (simp add: blocks_New_def SetAncestors_def SetAncestors_check_def prog_simps EthBlock_def upd_blk_def zero_blk_def)
  then obtain p w' where p: "blocks_New E (Some (EthBlock w b)) None None w = (Inr p, w')" "EthBlock w' p = EthBlock w b" by blast
  have "adaptor_ParseBlock C buf w = (Inr \<lparr>sb_b = Some p, sb_vm = C\<rparr>, w')"
    using assms(3-6) p(1)
    by (simp add: adaptor_ParseBlock_def adaptor_newBlock_def C_def strevm_def ParseBlock_def prog_simps
        Block_Number_def BuildTime_def Header_def not_less)
  moreover have "Hash E w' p = Hash E w b" "Block_ParentHash w' p = Block_ParentHash w b" "Height w' p = Height w b"
    using p(2) by (simp_all add: Hash_def Header_def Block_ParentHash_def Height_def NumberU64_def Block_Number_def)
  ultimately show ?thesis by (auto simp: Block_ID_def Block_Parent_def Block_Height_def C_def strevm_def deref_def)
qed

end
