(* ===== verification/GoSort.thy ===== *)
theory GoSort
  imports Main "HOL-Library.Multiset"
begin

text \<open>
  The sort of Go's standard library that orders the mempool: \<^verbatim>\<open>slices.SortStableFunc\<close>, that is
  \<^verbatim>\<open>stableCmpFunc\<close>, which sorts blocks of 20 elements by insertion and merges them with SymMerge.

  It is followed step by step, and not replaced by a specification, because the mempool's comparison
  is not an ordering, so that the result depends on which elements are compared. \<open>lt a b\<close> is
  \<^verbatim>\<open>cmp(a, b) < 0\<close>; a slice \<^verbatim>\<open>data[a:b]\<close> that a Go function works on is a list here, and indices count
  from its start.
\<close>

section \<open>The algorithm\<close>

text \<open>
  Insertion: an element moves left, past those it is less than. The part sorted so far is held with
  its last element first.
\<close>

fun sink :: "('a \<Rightarrow> 'a \<Rightarrow> bool) \<Rightarrow> 'a \<Rightarrow> 'a list \<Rightarrow> 'a list" where
  "sink lt x [] = [x]"
| "sink lt x (y # ys) = (if lt x y then y # sink lt x ys else x # y # ys)"

definition insertionSort :: "('a \<Rightarrow> 'a \<Rightarrow> bool) \<Rightarrow> 'a list \<Rightarrow> 'a list" where
  "insertionSort lt xs = rev (foldl (\<lambda>acc x. sink lt x acc) [] xs)"

text \<open>The binary searches of SymMerge: the first index where \<open>P\<close> fails.\<close>

function bsearch :: "(nat \<Rightarrow> bool) \<Rightarrow> nat \<Rightarrow> nat \<Rightarrow> nat" where
  "bsearch P i j =
     (if i < j then (let h = (i + j) div 2 in if P h then bsearch P (h + 1) j else bsearch P i h) else i)"
  by auto
termination by (relation "measure (\<lambda>(_, i, j). j - i)") auto

declare bsearch.simps [simp del]

definition rotate_slice :: "'a list \<Rightarrow> nat \<Rightarrow> nat \<Rightarrow> nat \<Rightarrow> 'a list" where
  "rotate_slice xs start m e = take start xs @ take (e - m) (drop m xs) @ take (m - start) (drop start xs) @ drop e xs"

lemma slice_partition:
  assumes "s \<le> m" and "m \<le> e"
  shows "xs = take s xs @ take (m - s) (drop s xs) @ take (e - m) (drop m xs) @ drop e xs"
proof -
  have "take (m - s) (drop s xs) @ take (e - m) (drop m xs) @ drop e xs = drop s xs"
    using assms by (metis add.commute append_take_drop_id drop_drop le_add_diff_inverse2)
  then show ?thesis by (metis append_take_drop_id)
qed

lemma mset_rotate_slice: "s \<le> m \<Longrightarrow> m \<le> e \<Longrightarrow> mset (rotate_slice xs s m e) = mset xs"
  using arg_cong [OF slice_partition, of s m e mset xs] by (simp add: rotate_slice_def ac_simps)

lemma length_rotate_slice: "s \<le> m \<Longrightarrow> m \<le> e \<Longrightarrow> length (rotate_slice xs s m e) = length xs"
  using mset_rotate_slice [of s m e xs] by (metis size_mset)

text \<open>
  SymMerge of the two runs that meet at \<open>m\<close>: where to split both, the rotation, and the two smaller
  merges.
\<close>

definition sym_start :: "('a \<Rightarrow> 'a \<Rightarrow> bool) \<Rightarrow> 'a list \<Rightarrow> nat \<Rightarrow> nat" where
  "sym_start lt xs m =
     (let b = length xs; mid = b div 2; n = mid + m
      in bsearch (\<lambda>c. \<not> lt (xs ! (n - 1 - c)) (xs ! c)) (if m > mid then n - b else 0) (if m > mid then mid else m))"

definition sym_rotated :: "('a \<Rightarrow> 'a \<Rightarrow> bool) \<Rightarrow> 'a list \<Rightarrow> nat \<Rightarrow> 'a list" where
  "sym_rotated lt xs m =
     (let start = sym_start lt xs m; e = length xs div 2 + m - start
      in if start < m \<and> m < e then rotate_slice xs start m e else xs)"

lemma mset_sym_rotated: "mset (sym_rotated lt xs m) = mset xs"
  by (simp add: sym_rotated_def Let_def mset_rotate_slice)

lemma length_sym_rotated [simp]: "length (sym_rotated lt xs m) = length xs"
  by (metis mset_sym_rotated size_mset)

function symMerge :: "('a \<Rightarrow> 'a \<Rightarrow> bool) \<Rightarrow> 'a list \<Rightarrow> nat \<Rightarrow> 'a list" where
  "symMerge lt xs m =
     (let b = length xs
      in if m = 1
         then (let i = bsearch (\<lambda>h. lt (xs ! h) (xs ! 0)) m b in take (i - 1) (drop 1 xs) @ [xs ! 0] @ drop i xs)
         else if b - m = 1
         then (let i = bsearch (\<lambda>h. \<not> lt (xs ! m) (xs ! h)) 0 m in take i xs @ [xs ! m] @ drop i (take m xs))
         else
           let mid = b div 2; start = sym_start lt xs m; e = mid + m - start; ys = sym_rotated lt xs m
           in (if 0 < start \<and> start < mid then symMerge lt (take mid ys) start else take mid ys)
              @ (if mid < e \<and> e < b then symMerge lt (drop mid ys) (e - mid) else drop mid ys))"
  by auto
termination by (relation "measure (\<lambda>(_, xs, _). length xs)") auto

declare symMerge.simps [simp del]

text \<open>The blocks of the given size, sorted, and one pass of merges of neighbouring blocks.\<close>

function sort_blocks :: "('a \<Rightarrow> 'a \<Rightarrow> bool) \<Rightarrow> nat \<Rightarrow> 'a list \<Rightarrow> 'a list" where
  "sort_blocks lt k xs =
     (if k = 0 \<or> length xs < k then insertionSort lt xs
      else insertionSort lt (take k xs) @ sort_blocks lt k (drop k xs))"
  by auto
termination by (relation "measure (\<lambda>(_, _, xs). length xs)") auto

declare sort_blocks.simps [simp del]

function merge_pass :: "('a \<Rightarrow> 'a \<Rightarrow> bool) \<Rightarrow> nat \<Rightarrow> 'a list \<Rightarrow> 'a list" where
  "merge_pass lt k xs =
     (if k = 0 \<or> length xs < 2 * k then (if k < length xs \<and> 0 < k then symMerge lt xs k else xs)
      else symMerge lt (take (2 * k) xs) k @ merge_pass lt k (drop (2 * k) xs))"
  by auto
termination by (relation "measure (\<lambda>(_, _, xs). length xs)") auto

declare merge_pass.simps [simp del]

section \<open>The result is a permutation\<close>

lemma mset_sink: "mset (sink lt x ys) = add_mset x (mset ys)"
  by (induction ys) auto

lemma mset_insertionSort [simp]: "mset (insertionSort lt xs) = mset xs"
proof -
  have "mset (foldl (\<lambda>acc x. sink lt x acc) acc xs) = mset acc + mset xs" for acc
    by (induction xs arbitrary: acc) (auto simp: mset_sink)
  then show ?thesis by (simp add: insertionSort_def)
qed

lemma bsearch_range: "i \<le> j \<Longrightarrow> i \<le> bsearch P i j \<and> bsearch P i j \<le> j"
proof (induction P i j rule: bsearch.induct)
  case (1 P i j)
  then show ?case by (subst (1 2) bsearch.simps) (fastforce simp: Let_def)
qed

lemma mset_take_drop: "mset (take k xs) + mset (drop k xs) = mset xs"
  by (metis append_take_drop_id mset_append)

lemma mset_symMerge:
  assumes "0 < m" and "m < length xs"
  shows "mset (symMerge lt xs m) = mset xs"
  using assms
proof (induction lt xs m rule: symMerge.induct)
  case (1 lt xs m)
  let ?b = "length xs" and ?mid = "length xs div 2" and ?s = "sym_start lt xs m" and ?ys = "sym_rotated lt xs m"
  consider "m = 1" | "m \<noteq> 1" "?b - m = 1" | "m \<noteq> 1" "?b - m \<noteq> 1" by blast
  then show ?case
  proof cases
    case 1
    let ?i = "bsearch (\<lambda>h. lt (xs ! h) (xs ! 0)) m ?b"
    have i: "1 \<le> ?i" "?i \<le> ?b" using bsearch_range [of m ?b] 1 "1.prems" by auto
    have "xs = xs ! 0 # drop 1 xs" using "1.prems" by (cases xs) auto
    moreover have "drop 1 xs = take (?i - 1) (drop 1 xs) @ drop ?i xs" using i by (metis append_take_drop_id drop_drop le_add_diff_inverse2)
    ultimately have "mset xs = add_mset (xs ! 0) (mset (take (?i - 1) (drop 1 xs)) + mset (drop ?i xs))"
      by (metis mset.simps(2) mset_append)
    then show ?thesis using 1 by (subst symMerge.simps) (simp add: Let_def)
  next
    case 2
    let ?i = "bsearch (\<lambda>h. \<not> lt (xs ! m) (xs ! h)) 0 m"
    have i: "?i \<le> m" using bsearch_range [of 0 m] by auto
    have "xs = take m xs @ [xs ! m]" using 2 "1.prems" by (metis Suc_eq_plus1 add.commute le_add_diff_inverse less_imp_le_nat take_Suc_conv_app_nth take_all_iff order_refl)
    moreover have "take m xs = take ?i xs @ drop ?i (take m xs)" using i by (metis append_take_drop_id min.absorb1 take_take)
    ultimately have "mset xs = mset (take ?i xs) + mset (drop ?i (take m xs)) + {#xs ! m#}" by (metis mset.simps(1,2) mset_append)
    then show ?thesis using 2 by (simp add: symMerge.simps [of lt xs m] Let_def)
  next
    case 3
    have l: "mset (if 0 < ?s \<and> ?s < ?mid then symMerge lt (take ?mid ?ys) ?s else take ?mid ?ys) = mset (take ?mid ?ys)"
      using "1.IH"(1) [OF refl 3 refl refl refl refl] by auto
    have r: "mset (if ?mid < ?mid + m - ?s \<and> ?mid + m - ?s < ?b then symMerge lt (drop ?mid ?ys) (?mid + m - ?s - ?mid) else drop ?mid ?ys)
        = mset (drop ?mid ?ys)"
      using "1.IH"(2) [OF refl 3 refl refl refl refl] by auto
    have "mset (symMerge lt xs m) = mset (take ?mid ?ys) + mset (drop ?mid ?ys)"
      using 3 l r by (simp add: symMerge.simps [of lt xs m] Let_def)
    then show ?thesis by (simp only: mset_take_drop mset_sym_rotated)
  qed
qed

lemma length_symMerge: "0 < m \<Longrightarrow> m < length xs \<Longrightarrow> length (symMerge lt xs m) = length xs"
  by (metis mset_symMerge size_mset)

lemma mset_sort_blocks [simp]: "mset (sort_blocks lt k xs) = mset xs"
proof (induction lt k xs rule: sort_blocks.induct)
  case (1 lt k xs)
  then show ?case by (subst sort_blocks.simps) (auto simp: mset_take_drop)
qed

lemma mset_merge_pass [simp]: "mset (merge_pass lt k xs) = mset xs"
proof (induction lt k xs rule: merge_pass.induct)
  case (1 lt k xs)
  then show ?case by (subst merge_pass.simps) (auto simp: mset_take_drop mset_symMerge)
qed

lemma length_merge_pass [simp]: "length (merge_pass lt k xs) = length xs"
  by (metis mset_merge_pass size_mset)

text \<open>The passes, with blocks that double in size until one holds all.\<close>

function merge_passes :: "('a \<Rightarrow> 'a \<Rightarrow> bool) \<Rightarrow> nat \<Rightarrow> 'a list \<Rightarrow> 'a list" where
  "merge_passes lt k xs = (if 0 < k \<and> k < length xs then merge_passes lt (2 * k) (merge_pass lt k xs) else xs)"
  by auto
termination by (relation "measure (\<lambda>(_, k, xs). length xs - k)") auto

declare merge_passes.simps [simp del]

definition SortStableFunc :: "('a \<Rightarrow> 'a \<Rightarrow> bool) \<Rightarrow> 'a list \<Rightarrow> 'a list" where
  "SortStableFunc lt xs = merge_passes lt 20 (sort_blocks lt 20 xs)"

lemma mset_merge_passes [simp]: "mset (merge_passes lt k xs) = mset xs"
proof (induction lt k xs rule: merge_passes.induct)
  case (1 lt k xs)
  then show ?case by (subst merge_passes.simps) auto
qed

lemma mset_SortStableFunc [simp]: "mset (SortStableFunc lt xs) = mset xs"
  by (simp add: SortStableFunc_def)


section \<open>The result of a comparison by keys\<close>

text \<open>
  Where the comparison orders the elements by a key, all of this is the stable sort by that key:
  insertion, SymMerge, and so the whole.
\<close>

lemma bsearch_partition:
  assumes "i \<le> j" and "\<And>c c'. i \<le> c \<Longrightarrow> c \<le> c' \<Longrightarrow> c' < j \<Longrightarrow> P c' \<Longrightarrow> P c"
  shows "(\<forall>c. i \<le> c \<and> c < bsearch P i j \<longrightarrow> P c) \<and> (\<forall>c. bsearch P i j \<le> c \<and> c < j \<longrightarrow> \<not> P c)"
  using assms
proof (induction P i j rule: bsearch.induct)
  case (1 P i j)
  let ?h = "(i + j) div 2"
  show ?case
  proof (cases "i < j")
    case True
    then have h: "i \<le> ?h" "?h < j" by auto
    show ?thesis
    proof (cases "P ?h")
      case p: True
      have "\<And>c. i \<le> c \<Longrightarrow> c \<le> ?h \<Longrightarrow> P c" using "1.prems"(2) [OF _ _ h(2) p] by blast
      moreover have "(\<forall>c. ?h + 1 \<le> c \<and> c < bsearch P (?h + 1) j \<longrightarrow> P c) \<and> (\<forall>c. bsearch P (?h + 1) j \<le> c \<and> c < j \<longrightarrow> \<not> P c)"
        using "1.IH"(1) [OF True refl p] "1.prems"(2) h by force
      moreover have "bsearch P i j = bsearch P (?h + 1) j" using True p by (subst bsearch.simps) (simp add: Let_def)
      ultimately show ?thesis by (metis Suc_eq_plus1 not_less_eq_eq)
    next
      case p: False
      have "\<And>c. ?h \<le> c \<Longrightarrow> c < j \<Longrightarrow> \<not> P c" using "1.prems"(2) [OF h(1)] p by blast
      moreover have "(\<forall>c. i \<le> c \<and> c < bsearch P i ?h \<longrightarrow> P c) \<and> (\<forall>c. bsearch P i ?h \<le> c \<and> c < ?h \<longrightarrow> \<not> P c)"
        using "1.IH"(2) [OF True refl p] "1.prems"(2) h by force
      moreover have "bsearch P i j = bsearch P i ?h" using True p by (subst bsearch.simps) (simp add: Let_def)
      ultimately show ?thesis by (metis not_less)
    qed
  next
    case False
    then show ?thesis by (subst (1 2) bsearch.simps) auto
  qed
qed

lemma sort_key_unique:
  assumes "mset ys = mset xs" and "\<And>k. filter (\<lambda>x. key x = k) ys = filter (\<lambda>x. key x = k) xs" and "sorted (map key ys)"
  shows "sort_key key xs = ys"
proof (rule properties_for_sort_key [OF assms(1) _ assms(3)])
  fix k
  have "(\<lambda>x. key k = key x) = (\<lambda>x. key x = key k)" by auto
  then show "filter (\<lambda>x. key k = key x) ys = filter (\<lambda>x. key k = key x) xs" using assms(2) by simp
qed

lemma sort_key_append:
  assumes "\<And>x y. x \<in> set as \<Longrightarrow> y \<in> set bs \<Longrightarrow> key x \<le> key y"
  shows "sort_key key (as @ bs) = sort_key key as @ sort_key key bs"
  using assms by (intro sort_key_unique) (auto simp: sort_key_stable sorted_append)

lemma sort_key_swap:
  assumes "\<And>x y. x \<in> set us \<Longrightarrow> y \<in> set vs \<Longrightarrow> key y < key x"
  shows "sort_key key (as @ vs @ us @ bs) = sort_key key (as @ us @ vs @ bs)"
proof (rule sort_key_unique)
  fix k
  have "filter (\<lambda>x. key x = k) us = [] \<or> filter (\<lambda>x. key x = k) vs = []"
    using assms by (metis (mono_tags, lifting) filter_empty_conv order_less_irrefl)
  then show "filter (\<lambda>x. key x = k) (sort_key key (as @ us @ vs @ bs)) = filter (\<lambda>x. key x = k) (as @ vs @ us @ bs)"
    by (auto simp: sort_key_stable)
qed simp_all

lemma sort_key_presorted: "sorted (map key xs) \<Longrightarrow> sort_key key xs = xs"
  by (rule sort_key_unique) simp_all

text \<open>How SymMerge splits two sorted runs.\<close>

lemma sym_start_bounds:
  assumes "0 < m" and "m < length xs"
  shows "sym_start lt xs m \<le> m" and "sym_start lt xs m \<le> length xs div 2"
    and "length xs div 2 + m \<le> length xs + sym_start lt xs m"
proof -
  let ?lo = "if m > length xs div 2 then length xs div 2 + m - length xs else 0"
    and ?hi = "if m > length xs div 2 then length xs div 2 else m"
  have "?lo \<le> ?hi" using assms by auto
  from bsearch_range [OF this, of "\<lambda>c. \<not> lt (xs ! (length xs div 2 + m - 1 - c)) (xs ! c)"]
  have "?lo \<le> sym_start lt xs m" "sym_start lt xs m \<le> ?hi" by (simp_all add: sym_start_def Let_def)
  then show "sym_start lt xs m \<le> m" "sym_start lt xs m \<le> length xs div 2"
    "length xs div 2 + m \<le> length xs + sym_start lt xs m" using assms by (auto split: if_splits)
qed

lemma sym_rotated_slices:
  assumes "0 < m" and "m < length xs"
  shows "sym_rotated lt xs m = rotate_slice xs (sym_start lt xs m) m (length xs div 2 + m - sym_start lt xs m)"
proof -
  let ?s = "sym_start lt xs m" and ?e = "length xs div 2 + m - sym_start lt xs m"
  have "?s \<le> m" "m \<le> ?e" using sym_start_bounds [OF assms, of lt] by auto
  moreover have "rotate_slice xs ?s m ?e = xs" if "?s = m \<or> ?e = m"
    using slice_partition [OF calculation, of xs] that by (auto simp: rotate_slice_def)
  ultimately show ?thesis by (auto simp: sym_rotated_def Let_def)
qed

lemma sym_start_splits:
  assumes "0 < m" and "m < length xs" and "\<And>x y. x \<in> set xs \<Longrightarrow> y \<in> set xs \<Longrightarrow> lt x y \<longleftrightarrow> key x < (key y :: 'k :: linorder)"
    and "\<And>i j. i \<le> j \<Longrightarrow> j < m \<Longrightarrow> key (xs ! i) \<le> key (xs ! j)"
    and "\<And>i j. m \<le> i \<Longrightarrow> i \<le> j \<Longrightarrow> j < length xs \<Longrightarrow> key (xs ! i) \<le> key (xs ! j)"
    and "s = sym_start lt xs m" and "e = length xs div 2 + m - s"
  shows "i < s \<Longrightarrow> e \<le> j \<Longrightarrow> j < length xs \<Longrightarrow> key (xs ! i) \<le> key (xs ! j)"
    and "s \<le> i \<Longrightarrow> i < m \<Longrightarrow> m \<le> j \<Longrightarrow> j < e \<Longrightarrow> key (xs ! j) < key (xs ! i)"
proof -
  let ?n = "length xs div 2 + m"
  let ?lo = "if m > length xs div 2 then ?n - length xs else 0" and ?hi = "if m > length xs div 2 then length xs div 2 else m"
  define P where "P = (\<lambda>c. \<not> lt (xs ! (?n - 1 - c)) (xs ! c))"
  have s: "s = bsearch P ?lo ?hi" by (simp add: assms(6) sym_start_def Let_def P_def)
  have lh: "?lo \<le> ?hi" using assms(1,2) by auto
  note b = sym_start_bounds [OF assms(1,2), of lt, folded assms(6)]
  have r: "m \<le> ?n - 1 - c \<and> ?n - 1 - c < length xs \<and> c < m" if "?lo \<le> c" "c < ?hi" for c
    using that assms(1,2) by (auto split: if_splits)
  have P: "P c \<longleftrightarrow> key (xs ! c) \<le> key (xs ! (?n - 1 - c))" if c: "?lo \<le> c" "c < ?hi" for c
    using assms(3) [of "xs ! (?n - 1 - c)" "xs ! c"] r [OF c] assms(2) by (auto simp: P_def not_less)
  have mono: "P c" if c: "?lo \<le> c" "c \<le> c'" "c' < ?hi" "P c'" for c c'
  proof -
    have "key (xs ! c) \<le> key (xs ! c')" using r [of c'] c assms(4) [of c c'] by simp
    also have "\<dots> \<le> key (xs ! (?n - 1 - c'))" using c P [of c'] by simp
    also have "\<dots> \<le> key (xs ! (?n - 1 - c))" using c r [of c] r [of c'] assms(5) [of "?n - 1 - c'" "?n - 1 - c"] by simp
    finally show ?thesis using P [of c] c by simp
  qed
  have bs: "(\<forall>c. ?lo \<le> c \<and> c < s \<longrightarrow> P c) \<and> (\<forall>c. s \<le> c \<and> c < ?hi \<longrightarrow> \<not> P c)"
    unfolding s by (rule bsearch_partition [OF lh]) (rule mono)
  have sr: "?lo \<le> s" "s \<le> ?hi" unfolding s using bsearch_range [OF lh, of P] by auto
  have p: "key (xs ! c) \<le> key (xs ! (?n - 1 - c))" if "?lo \<le> c" "c < s" for c
    using conjunct1 [OF bs, rule_format, of c] P [of c] that sr by simp
  have q: "key (xs ! (?n - 1 - c)) < key (xs ! c)" if "s \<le> c" "c < ?hi" for c
    using conjunct2 [OF bs, rule_format, of c] P [of c] that sr by (simp add: not_le)
  show "key (xs ! i) \<le> key (xs ! j)" if "i < s" "e \<le> j" "j < length xs"
  proof -
    have "?n < length xs + s" using that b assms(7) by linarith
    then have lo: "?lo \<le> s - 1" using that by auto
    have "key (xs ! i) \<le> key (xs ! (s - 1))" using assms(4) [of i "s - 1"] that b by simp
    also have "\<dots> \<le> key (xs ! (?n - 1 - (s - 1)))" using p [OF lo] that by simp
    also have "?n - 1 - (s - 1) = e" using that by (simp add: assms(7))
    also have "key (xs ! e) \<le> key (xs ! j)" using assms(5) [of e j] that b assms(7) by simp
    finally show ?thesis .
  qed
  show "key (xs ! j) < key (xs ! i)" if "s \<le> i" "i < m" "m \<le> j" "j < e"
  proof -
    have hi: "s < ?hi" using that b assms(7) by auto
    have "key (xs ! j) \<le> key (xs ! (e - 1))" using assms(5) [of j "e - 1"] that b assms(7) by simp
    also have "e - 1 = ?n - 1 - s" by (simp add: assms(7))
    also have "key (xs ! (?n - 1 - s)) < key (xs ! s)" by (rule q [OF order_refl hi])
    also have "\<dots> \<le> key (xs ! i)" using assms(4) [of s i] that by simp
    finally show ?thesis .
  qed
qed

text \<open>The three cases of SymMerge: a left run of one element, a right run of one element, and the split.\<close>

lemma sorted_slices:
  assumes "sorted (map key xs)"
  shows "sorted (map key (take i xs))" and "sorted (map key (drop i xs))"
  using sorted_wrt_take [OF assms, of i] sorted_wrt_drop [OF assms, of i] by (simp_all add: take_map drop_map)

lemma symMerge_sort_left:
  assumes "1 < length xs" and lt: "\<And>x y. x \<in> set xs \<Longrightarrow> y \<in> set xs \<Longrightarrow> lt x y \<longleftrightarrow> key x < (key y :: 'k :: linorder)" and "sorted (map key (drop 1 xs))"
  shows "symMerge lt xs 1 = sort_key key xs"
proof -
  let ?b = "length xs"
  have "xs ! 0 \<in> set xs" using assms(1) by (intro nth_mem) linarith
  then have nth: "lt (xs ! c) (xs ! 0) \<longleftrightarrow> key (xs ! c) < key (xs ! 0)" if "c < ?b" for c using lt that by simp
  have mono: "key (xs ! i) \<le> key (xs ! j)" if "1 \<le> i" "i \<le> j" "j < ?b" for i j
    using sorted_nth_mono [OF assms(3), of "i - 1" "j - 1"] that by simp
  define i where "i = bsearch (\<lambda>h. lt (xs ! h) (xs ! 0)) 1 ?b"
  have i: "1 \<le> i" "i \<le> ?b" using bsearch_range [of 1 ?b] assms(1) unfolding i_def by auto
  have pt: "(\<forall>c. 1 \<le> c \<and> c < i \<longrightarrow> lt (xs ! c) (xs ! 0)) \<and> (\<forall>c. i \<le> c \<and> c < ?b \<longrightarrow> \<not> lt (xs ! c) (xs ! 0))"
    unfolding i_def
  proof (rule bsearch_partition)
    show "1 \<le> ?b" using assms(1) by simp
    show "lt (xs ! c) (xs ! 0)" if "1 \<le> c" "c \<le> c'" "c' < ?b" "lt (xs ! c') (xs ! 0)" for c c'
      using that mono [of c c'] nth [of c] nth [of c'] by auto
  qed
  let ?V = "take (i - 1) (drop 1 xs)" and ?D = "drop i xs"
  have "take 1 xs = [xs ! 0]" using assms(1) by (cases xs) auto
  then have xs: "xs = [] @ [xs ! 0] @ ?V @ ?D" using slice_partition [OF le0 i(1), of xs] by simp
  have v: "key v < key (xs ! 0)" if "v \<in> set ?V" for v
    using that pt nth i by (auto simp: in_set_conv_nth)
  have d: "key (xs ! 0) \<le> key d" if "d \<in> set ?D" for d
    using that pt nth i by (auto simp: in_set_conv_nth not_less)
  have "sorted (map key ?V)" "sorted (map key ?D)"
    using sorted_slices [OF assms(3), of "i - 1"] i by simp_all
  moreover have "key v \<le> key d" if "v \<in> set ?V" "d \<in> set ?D" for v d using v d that by force
  ultimately have s: "sorted (map key (?V @ [xs ! 0] @ ?D))" using v d by (auto simp: sorted_append less_imp_le)
  have "sort_key key xs = sort_key key ([] @ [xs ! 0] @ ?V @ ?D)" by (rule arg_cong [OF xs])
  also have "\<dots> = sort_key key ([] @ ?V @ [xs ! 0] @ ?D)" using v by (intro sort_key_swap [symmetric]) auto
  finally have "sort_key key xs = sort_key key (?V @ [xs ! 0] @ ?D)" by simp
  then show ?thesis unfolding sort_key_presorted [OF s] by (subst symMerge.simps) (simp add: Let_def i_def)
qed

lemma symMerge_sort_right:
  assumes "1 < m" and "length xs = m + 1" and lt: "\<And>x y. x \<in> set xs \<Longrightarrow> y \<in> set xs \<Longrightarrow> lt x y \<longleftrightarrow> key x < (key y :: 'k :: linorder)"
    and "sorted (map key (take m xs))"
  shows "symMerge lt xs m = sort_key key xs"
proof -
  have nth: "lt (xs ! m) (xs ! j) \<longleftrightarrow> key (xs ! m) < key (xs ! j)" if "j < m" for j using lt that assms(2) by simp
  have mono: "key (xs ! i) \<le> key (xs ! j)" if "i \<le> j" "j < m" for i j
    using sorted_nth_mono [OF assms(4), of i j] that assms(2) by simp
  define i where "i = bsearch (\<lambda>h. \<not> lt (xs ! m) (xs ! h)) 0 m"
  have i: "i \<le> m" using bsearch_range [of 0 m] unfolding i_def by auto
  have pt: "(\<forall>c. 0 \<le> c \<and> c < i \<longrightarrow> \<not> lt (xs ! m) (xs ! c)) \<and> (\<forall>c. i \<le> c \<and> c < m \<longrightarrow> \<not> \<not> lt (xs ! m) (xs ! c))"
    unfolding i_def
  proof (rule bsearch_partition)
    show "\<not> lt (xs ! m) (xs ! c)" if "c \<le> c'" "c' < m" "\<not> lt (xs ! m) (xs ! c')" for c c'
      using that mono [of c c'] nth [of c] nth [of c'] by auto
  qed simp
  let ?A = "take i xs" and ?U = "drop i (take m xs)"
  have "drop m xs = [xs ! m]" using assms(2) by (simp add: Cons_nth_drop_Suc [symmetric])
  moreover have "take m xs = ?A @ ?U" using i by (metis append_take_drop_id min.absorb1 take_take)
  ultimately have xs: "xs = ?A @ ?U @ [xs ! m] @ []" by (metis append.assoc append_Nil2 append_take_drop_id)
  have a: "key a \<le> key (xs ! m)" if "a \<in> set ?A" for a
    using that pt nth i assms(2) by (auto simp: in_set_conv_nth not_less)
  have u: "key (xs ! m) < key u" if "u \<in> set ?U" for u
    using that pt nth i assms(2) by (auto simp: in_set_conv_nth)
  have "sorted (map key ?A)" "sorted (map key ?U)"
    using sorted_slices [OF assms(4), of i] i by (simp_all add: min.absorb1)
  moreover have "key x \<le> key y" if "x \<in> set ?A" "y \<in> set ?U" for x y using a u that by force
  ultimately have s: "sorted (map key (?A @ [xs ! m] @ ?U))" using a u by (auto simp: sorted_append less_imp_le)
  have "sort_key key xs = sort_key key (?A @ ?U @ [xs ! m] @ [])" by (rule arg_cong [OF xs])
  also have "\<dots> = sort_key key (?A @ [xs ! m] @ ?U @ [])" using u by (intro sort_key_swap [symmetric]) auto
  finally have "sort_key key xs = sort_key key (?A @ [xs ! m] @ ?U)" by simp
  then show ?thesis unfolding sort_key_presorted [OF s] using assms(1,2) by (subst symMerge.simps) (simp add: Let_def i_def)
qed

lemma symMerge_sort_split:
  assumes "0 < m" and "m < length xs" and lt: "\<And>x y. x \<in> set xs \<Longrightarrow> y \<in> set xs \<Longrightarrow> lt x y \<longleftrightarrow> key x < (key y :: 'k :: linorder)"
    and "sorted (map key (take m xs))" and "sorted (map key (drop m xs))"
    and "s = sym_start lt xs m" and "e = length xs div 2 + m - s"
    and "as = take s xs" and "us = take (m - s) (drop s xs)" and "vs = take (e - m) (drop m xs)" and "bs = drop e xs"
  shows "sym_rotated lt xs m = (as @ vs) @ us @ bs" and "length (as @ vs) = length xs div 2" and "length as = s"
    and "length us = e - length xs div 2"
    and "sorted (map key as)" "sorted (map key us)" "sorted (map key vs)" "sorted (map key bs)"
    and "sort_key key (as @ vs) @ sort_key key (us @ bs) = sort_key key xs"
proof -
  let ?b = "length xs" and ?mid = "length xs div 2"
  note bd = sym_start_bounds [OF assms(1,2), of lt, folded assms(6)]
  have se: "s \<le> m" "m \<le> e" "e \<le> ?b" using bd assms(7) by auto
  show rot: "sym_rotated lt xs m = (as @ vs) @ us @ bs"
    unfolding sym_rotated_slices [OF assms(1,2)] by (simp add: rotate_slice_def assms(6-))
  show la: "length as = s" using se assms(2) by (simp add: assms(8))
  have lv: "length vs = e - m" using se by (simp add: assms(10))
  have lu: "length us = m - s" using se assms(2) by (simp add: assms(9))
  show "length (as @ vs) = ?mid" unfolding length_append la lv using bd assms(7) by linarith
  show "length us = e - ?mid" unfolding lu using bd assms(7) by linarith
  show so: "sorted (map key as)" "sorted (map key us)" "sorted (map key vs)" "sorted (map key bs)"
    using sorted_slices [OF assms(4), of s] sorted_slices(1) [OF assms(5), of "e - m"] sorted_slices(2) [OF assms(5), of "e - m"] se
    by (simp_all add: assms(8-) min.absorb1 drop_take)
  have ml: "key (xs ! i) \<le> key (xs ! j)" if "i \<le> j" "j < m" for i j
    using sorted_nth_mono [OF assms(4), of i j] that assms(2) by simp
  have mr: "key (xs ! i) \<le> key (xs ! j)" if "m \<le> i" "i \<le> j" "j < ?b" for i j
    using sorted_nth_mono [OF assms(5), of "i - m" "j - m"] that by simp
  note sp = sym_start_splits [OF assms(1,2) lt ml mr assms(6,7)]
  have a: "\<exists>i<s. x = xs ! i" if "x \<in> set as" for x using that se assms(2) by (auto simp: assms(8) in_set_conv_nth)
  have u: "\<exists>i. s \<le> i \<and> i < m \<and> x = xs ! i" if x: "x \<in> set us" for x
  proof -
    obtain k where "k < m - s" "x = xs ! (s + k)" using x se assms(2) by (auto simp: assms(9) in_set_conv_nth)
    then show ?thesis by (intro exI [of _ "s + k"]) auto
  qed
  have v: "\<exists>j. m \<le> j \<and> j < e \<and> x = xs ! j" if x: "x \<in> set vs" for x
  proof -
    obtain k where "k < e - m" "x = xs ! (m + k)" using x se by (auto simp: assms(10) in_set_conv_nth)
    then show ?thesis by (intro exI [of _ "m + k"]) auto
  qed
  have b: "\<exists>j. e \<le> j \<and> j < ?b \<and> x = xs ! j" if x: "x \<in> set bs" for x
  proof -
    obtain k where "k < ?b - e" "x = xs ! (e + k)" using x se by (auto simp: assms(11) in_set_conv_nth)
    then show ?thesis by (intro exI [of _ "e + k"]) auto
  qed
  have less: "key y < key x" if "x \<in> set us" "y \<in> set vs" for x y using u [OF that(1)] v [OF that(2)] sp(2) by auto
  have le: "key x \<le> key y" if xy: "x \<in> set (as @ vs)" "y \<in> set (us @ bs)" for x y
  proof -
    consider "x \<in> set as" "y \<in> set us" | "x \<in> set as" "y \<in> set bs" | "x \<in> set vs" "y \<in> set us" | "x \<in> set vs" "y \<in> set bs"
      using xy by auto
    then show ?thesis
    proof cases
      case 1
      then show ?thesis using a [of x] u [of y] ml by fastforce
    next
      case 2
      then show ?thesis using a [of x] b [of y] sp(1) by auto
    next
      case 3
      then show ?thesis using less by force
    next
      case 4
      then show ?thesis using v [of x] b [of y] mr by fastforce
    qed
  qed
  have "sort_key key (as @ vs) @ sort_key key (us @ bs) = sort_key key (as @ vs @ us @ bs)"
    using sort_key_append [of "as @ vs" "us @ bs" key] le by simp
  also have "\<dots> = sort_key key (as @ us @ vs @ bs)" using less by (rule sort_key_swap)
  also have "as @ us @ vs @ bs = xs" using slice_partition [OF se(1,2), of xs] by (simp add: assms(8-))
  finally show "sort_key key (as @ vs) @ sort_key key (us @ bs) = sort_key key xs" .
qed

lemma symMerge_is_sort:
  assumes "0 < m" and "m < length xs" and "\<And>x y. x \<in> set xs \<Longrightarrow> y \<in> set xs \<Longrightarrow> lt x y \<longleftrightarrow> key x < (key y :: 'k :: linorder)"
    and "sorted (map key (take m xs))" and "sorted (map key (drop m xs))"
  shows "symMerge lt xs m = sort_key key xs"
  using assms
proof (induction lt xs m rule: symMerge.induct)
  case (1 lt xs m)
  consider "m = 1" | "m \<noteq> 1" "length xs - m = 1" | "m \<noteq> 1" "length xs - m \<noteq> 1" by blast
  then show ?case
  proof cases
    case 1
    then show ?thesis using symMerge_sort_left [OF _ "1.prems"(3)] "1.prems"(2,5) by auto
  next
    case 2
    then show ?thesis using symMerge_sort_right [where lt = lt and key = key, OF _ _ "1.prems"(3)] "1.prems"(1,2,4) by auto
  next
    case 3
    let ?mid = "length xs div 2"
    define s e where se: "s = sym_start lt xs m" "e = ?mid + m - s"
    define as us vs bs where d: "as = take s xs" "us = take (m - s) (drop s xs)" "vs = take (e - m) (drop m xs)" "bs = drop e xs"
    note sp = symMerge_sort_split [where lt = lt and key = key, OF "1.prems" se d]
    have tl: "take ?mid (sym_rotated lt xs m) = as @ vs" "drop ?mid (sym_rotated lt xs m) = us @ bs"
      using sp(1,2) by simp_all
    have "set (as @ vs) \<union> set (us @ bs) = set xs"
      using mset_eq_setD [OF mset_sym_rotated [of lt xs m]] by (auto simp: sp(1))
    then have lt: "x \<in> set (as @ vs) \<Longrightarrow> y \<in> set (as @ vs) \<Longrightarrow> lt x y \<longleftrightarrow> key x < key y"
      "x \<in> set (us @ bs) \<Longrightarrow> y \<in> set (us @ bs) \<Longrightarrow> lt x y \<longleftrightarrow> key x < key y" for x y
      using "1.prems"(3) by blast+
    note ih = "1.IH" [OF refl 3 refl refl refl refl, folded se(1), folded se(2), unfolded tl]
    have l: "(if 0 < s \<and> s < ?mid then symMerge lt (as @ vs) s else as @ vs) = sort_key key (as @ vs)"
    proof (cases "0 < s \<and> s < ?mid")
      case True
      then have "s < length (as @ vs)" using sp(2) by simp
      then show ?thesis using ih(1) [OF True _ _ lt(1)] True sp(3,5,7) by simp
    next
      case False
      then have "length as = 0 \<or> length vs = 0" using sp(2,3) unfolding length_append by linarith
      then show ?thesis using False sp(5,7) by (auto simp: sort_key_presorted)
    qed
    have r: "(if ?mid < e \<and> e < length xs then symMerge lt (us @ bs) (e - ?mid) else us @ bs) = sort_key key (us @ bs)"
    proof (cases "?mid < e \<and> e < length xs")
      case True
      have "length bs = length xs - e" "e - ?mid < length xs - ?mid" using True by (auto simp: d(4))
      then show ?thesis
        using ih(2) [OF True _ _ lt(2)] True sp(4,6,8) by simp
    next
      case False
      then have "us = [] \<or> bs = []" using sp(4) d(4) by auto
      then show ?thesis using False sp(6,8) by (auto simp: sort_key_presorted)
    qed
    have "symMerge lt xs m = (if 0 < s \<and> s < ?mid then symMerge lt (as @ vs) s else as @ vs)
        @ (if ?mid < e \<and> e < length xs then symMerge lt (us @ bs) (e - ?mid) else us @ bs)"
      using 3 by (subst symMerge.simps) (simp only: Let_def if_False tl se [symmetric])
    then show ?thesis using sp(9) l r by simp
  qed
qed

lemma sink_sorted:
  assumes "\<And>y. y \<in> set ys \<Longrightarrow> lt x y \<longleftrightarrow> key x < (key y :: 'k :: linorder)" and "sorted (map key (rev ys))"
  shows "sorted (map key (rev (sink lt x ys)))"
    and "filter (\<lambda>y. key y = k) (rev (sink lt x ys)) = filter (\<lambda>y. key y = k) (rev ys @ [x])"
proof -
  have set: "set (sink lt x ys) = insert x (set ys)" for ys by (metis mset_sink set_mset_add_mset_insert set_mset_mset)
  show "sorted (map key (rev (sink lt x ys)))"
    using assms by (induction ys) (auto simp: sorted_append set not_less)
  show "filter (\<lambda>y. key y = k) (rev (sink lt x ys)) = filter (\<lambda>y. key y = k) (rev ys @ [x])"
    using assms by (induction ys) (auto simp: sorted_append)
qed

lemma insertionSort_is_sort:
  assumes "\<And>x y. x \<in> set xs \<Longrightarrow> y \<in> set xs \<Longrightarrow> lt x y \<longleftrightarrow> key x < (key y :: 'k :: linorder)"
  shows "insertionSort lt xs = sort_key key xs"
proof -
  have "sorted (map key (rev (foldl (\<lambda>acc x. sink lt x acc) acc ys)))
    \<and> (\<forall>k. filter (\<lambda>y. key y = k) (rev (foldl (\<lambda>acc x. sink lt x acc) acc ys)) = filter (\<lambda>y. key y = k) (rev acc @ ys))"
    if "sorted (map key (rev acc))" and "set acc \<union> set ys \<subseteq> set xs" for acc ys
    using that
  proof (induction ys arbitrary: acc)
    case (Cons y ys)
    have "\<And>z. z \<in> set acc \<Longrightarrow> lt y z \<longleftrightarrow> key y < key z" using assms Cons.prems(2) by auto
    note s = sink_sorted [where lt = lt and key = key and x = y, OF this Cons.prems(1)]
    have "set (sink lt y acc) = insert y (set acc)" by (metis mset_sink set_mset_add_mset_insert set_mset_mset)
    then show ?case using Cons.IH [OF s(1)] s(2) Cons.prems(2) by simp
  qed simp
  from this [of "[]" xs] show ?thesis
    unfolding insertionSort_def
    by (intro sort_key_unique [symmetric]) (auto simp: mset_insertionSort [unfolded insertionSort_def, simplified])
qed

text \<open>Blocks of a given size, each sorted, in a list; a pass makes them twice as long.\<close>

definition blocks_sorted :: "('a \<Rightarrow> 'k :: linorder) \<Rightarrow> nat \<Rightarrow> 'a list \<Rightarrow> bool" where
  "blocks_sorted key k xs \<longleftrightarrow> (\<forall>i. sorted (map key (take k (drop (i * k) xs))))"

lemma blocks_sorted_whole: "sorted (map key xs) \<Longrightarrow> blocks_sorted key k xs"
  by (simp add: blocks_sorted_def sorted_slices)

lemma blocks_sorted_append:
  assumes "length xs = k" and "sorted (map key xs)" and "blocks_sorted key k ys"
  shows "blocks_sorted key k (xs @ ys)"
  unfolding blocks_sorted_def
proof
  fix i
  show "sorted (map key (take k (drop (i * k) (xs @ ys))))"
    using assms by (cases i) (simp_all add: blocks_sorted_def)
qed

lemma blocks_sorted_drop: "blocks_sorted key k xs \<Longrightarrow> blocks_sorted key k (drop (n * k) xs)"
  by (simp add: blocks_sorted_def add_mult_distrib [symmetric])

lemma sort_blocks_sorted:
  assumes "\<And>x y. x \<in> set xs \<Longrightarrow> y \<in> set xs \<Longrightarrow> lt x y \<longleftrightarrow> key x < (key y :: 'k :: linorder)"
  shows "blocks_sorted key k (sort_blocks lt k xs) \<and> (\<forall>c. filter (\<lambda>x. key x = c) (sort_blocks lt k xs) = filter (\<lambda>x. key x = c) xs)"
  using assms
proof (induction lt k xs rule: sort_blocks.induct)
  case (1 lt k xs)
  have lt: "x \<in> set ys \<Longrightarrow> y \<in> set ys \<Longrightarrow> lt x y \<longleftrightarrow> key x < key y" if "set ys \<subseteq> set xs" for ys x y
    using "1.prems" that by blast
  have ins: "insertionSort lt ys = sort_key key ys" if "set ys \<subseteq> set xs" for ys
    by (rule insertionSort_is_sort) (rule lt [OF that])
  show ?case
  proof (cases "k = 0 \<or> length xs < k")
    case True
    then show ?thesis by (simp add: sort_blocks.simps [of lt k xs] ins [OF order_refl] blocks_sorted_whole sort_key_stable)
  next
    case False
    have "filter (\<lambda>x. key x = c) (take k xs) @ filter (\<lambda>x. key x = c) (drop k xs) = filter (\<lambda>x. key x = c) xs" for c
      by (metis append_take_drop_id filter_append)
    then show ?thesis using "1.IH" [OF False lt [OF set_drop_subset]] False
      by (auto simp: sort_blocks.simps [of lt k xs] ins [OF set_take_subset] sort_key_stable intro!: blocks_sorted_append)
  qed
qed

lemma merge_pass_sorted:
  assumes "\<And>x y. x \<in> set xs \<Longrightarrow> y \<in> set xs \<Longrightarrow> lt x y \<longleftrightarrow> key x < (key y :: 'k :: linorder)" and "blocks_sorted key k xs" and "0 < k"
  shows "blocks_sorted key (2 * k) (merge_pass lt k xs)
    \<and> (\<forall>c. filter (\<lambda>x. key x = c) (merge_pass lt k xs) = filter (\<lambda>x. key x = c) xs)"
  using assms
proof (induction lt k xs rule: merge_pass.induct)
  case (1 lt k xs)
  have b: "sorted (map key (take k xs))" "sorted (map key (take k (drop k xs)))"
    using "1.prems"(2) [unfolded blocks_sorted_def, rule_format, of 0] "1.prems"(2) [unfolded blocks_sorted_def, rule_format, of 1] by simp_all
  have lt: "x \<in> set ys \<Longrightarrow> y \<in> set ys \<Longrightarrow> lt x y \<longleftrightarrow> key x < key y" if "set ys \<subseteq> set xs" for ys x y
    using "1.prems"(1) that by blast
  show ?case
  proof (cases "length xs < 2 * k")
    case True
    show ?thesis
    proof (cases "k < length xs")
      case k: True
      have "symMerge lt xs k = sort_key key xs" using b True k "1.prems" by (intro symMerge_is_sort) simp_all
      then show ?thesis using True k "1.prems"(3)
        by (simp add: merge_pass.simps [of lt k xs] blocks_sorted_whole sort_key_stable)
    next
      case False
      then show ?thesis using True b(1) by (simp add: merge_pass.simps [of lt k xs] blocks_sorted_whole)
    qed
  next
    case False
    have "symMerge lt (take (2 * k) xs) k = sort_key key (take (2 * k) xs)"
      using b False "1.prems"(3) lt [OF set_take_subset] by (intro symMerge_is_sort) (simp_all add: drop_take)
    moreover have "blocks_sorted key (2 * k) (merge_pass lt k (drop (2 * k) xs))
      \<and> (\<forall>c. filter (\<lambda>x. key x = c) (merge_pass lt k (drop (2 * k) xs)) = filter (\<lambda>x. key x = c) (drop (2 * k) xs))"
      using "1.IH" [OF _ lt [OF set_drop_subset]] False "1.prems"(3) blocks_sorted_drop [OF "1.prems"(2), of 2] by auto
    moreover have "filter (\<lambda>x. key x = c) (take (2 * k) xs) @ filter (\<lambda>x. key x = c) (drop (2 * k) xs) = filter (\<lambda>x. key x = c) xs" for c
      by (metis append_take_drop_id filter_append)
    ultimately show ?thesis using False "1.prems"(3)
      by (auto simp: merge_pass.simps [of lt k xs] sort_key_stable intro!: blocks_sorted_append)
  qed
qed

lemma merge_passes_sorted:
  assumes "\<And>x y. x \<in> set xs \<Longrightarrow> y \<in> set xs \<Longrightarrow> lt x y \<longleftrightarrow> key x < (key y :: 'k :: linorder)" and "blocks_sorted key k xs" and "0 < k"
  shows "sorted (map key (merge_passes lt k xs)) \<and> (\<forall>c. filter (\<lambda>x. key x = c) (merge_passes lt k xs) = filter (\<lambda>x. key x = c) xs)"
  using assms
proof (induction lt k xs rule: merge_passes.induct)
  case (1 lt k xs)
  show ?case
  proof (cases "k < length xs")
    case True
    have "set (merge_pass lt k xs) = set xs" by (metis mset_merge_pass set_mset_mset)
    then have "\<And>x y. x \<in> set (merge_pass lt k xs) \<Longrightarrow> y \<in> set (merge_pass lt k xs) \<Longrightarrow> lt x y \<longleftrightarrow> key x < key y"
      using "1.prems"(1) by blast
    then show ?thesis using "1.IH" merge_pass_sorted [where lt = lt and key = key, OF "1.prems"] "1.prems"(3) True
      by (auto simp: merge_passes.simps [of lt k xs])
  next
    case False
    then show ?thesis using "1.prems"(2) [unfolded blocks_sorted_def, rule_format, of 0] by (simp add: merge_passes.simps [of lt k xs])
  qed
qed

lemma SortStableFunc_is_sort:
  assumes "\<And>x y. x \<in> set xs \<Longrightarrow> y \<in> set xs \<Longrightarrow> lt x y \<longleftrightarrow> key x < (key y :: 'k :: linorder)"
  shows "SortStableFunc lt xs = sort_key key xs"
proof -
  note sb = sort_blocks_sorted [where lt = lt and key = key and k = 20 and xs = xs, OF assms]
  have "set (sort_blocks lt 20 xs) = set xs" by (metis mset_sort_blocks set_mset_mset)
  then have "\<And>x y. x \<in> set (sort_blocks lt 20 xs) \<Longrightarrow> y \<in> set (sort_blocks lt 20 xs) \<Longrightarrow> lt x y \<longleftrightarrow> key x < key y"
    using assms by blast
  then have "sorted (map key (SortStableFunc lt xs)) \<and> (\<forall>c. filter (\<lambda>x. key x = c) (SortStableFunc lt xs) = filter (\<lambda>x. key x = c) xs)"
    using merge_passes_sorted [of "sort_blocks lt 20 xs" lt key 20] sb by (simp add: SortStableFunc_def)
  then show ?thesis by (intro sort_key_unique [symmetric]) auto
qed

section \<open>Any comparison, on few elements\<close>

text \<open>
  A block is sorted by insertion alone, which never moves an element past one that it is not less
  than. So elements none of which is less than another keep their order, and neighbours in the
  result are in order, whatever else the comparison does.
\<close>

lemma SortStableFunc_small: "length xs \<le> 20 \<Longrightarrow> SortStableFunc lt xs = insertionSort lt xs"
proof -
  assume "length xs \<le> 20"
  moreover have "sort_blocks lt 20 ys = insertionSort lt ys" if "length ys < 20" for ys
    using that by (subst sort_blocks.simps) simp
  moreover have "insertionSort lt [] = []" by (simp add: insertionSort_def)
  ultimately have "sort_blocks lt 20 xs = insertionSort lt xs" by (subst sort_blocks.simps) auto
  moreover have "length (insertionSort lt xs) = length xs" by (metis mset_insertionSort size_mset)
  ultimately show ?thesis using \<open>length xs \<le> 20\<close> by (simp add: SortStableFunc_def merge_passes.simps)
qed

lemma insertionSort_stable:
  assumes "\<And>x y. P x \<Longrightarrow> P y \<Longrightarrow> \<not> lt x y"
  shows "filter P (insertionSort lt xs) = filter P xs"
proof -
  have s: "filter P (rev (sink lt x ys)) = filter P (rev ys @ [x])" for x ys
    using assms by (induction ys) auto
  have "filter P (rev (foldl (\<lambda>acc x. sink lt x acc) acc xs)) = filter P (rev acc @ xs)" for acc
  proof (induction xs arbitrary: acc)
    case (Cons x xs)
    then show ?case using s [of x acc] by simp
  qed simp
  then show ?thesis by (simp add: insertionSort_def)
qed

lemma insertionSort_neighbours:
  assumes "\<And>x y. lt x y \<Longrightarrow> \<not> lt y x"
  shows "successively (\<lambda>x y. \<not> lt y x) (insertionSort lt xs)"
proof -
  have s: "successively (\<lambda>y x. \<not> lt y x) (sink lt x ys)" if "successively (\<lambda>y x. \<not> lt y x) ys" for x ys
    using that
  proof (induction ys)
    case (Cons y ys)
    then show ?case using assms by (cases ys) auto
  qed simp
  have "successively (\<lambda>y x. \<not> lt y x) (foldl (\<lambda>acc x. sink lt x acc) acc xs)" if "successively (\<lambda>y x. \<not> lt y x) acc" for acc
    using that s by (induction xs arbitrary: acc) auto
  then show ?thesis by (simp add: insertionSort_def)
qed

section \<open>What a client relies on\<close>

text \<open>
  The contract of a sort by a comparison: a permutation, and the stable sort by a key wherever the
  comparison agrees with that key on the elements at hand.
\<close>

locale comparison_sort =
  fixes sort_by :: "('a \<Rightarrow> 'a \<Rightarrow> bool) \<Rightarrow> 'a list \<Rightarrow> 'a list"
    and key :: "'a \<Rightarrow> 'k :: linorder"
  assumes sort_by_mset: "mset (sort_by lt xs) = mset xs"
    and sort_by_key: "(\<And>x y. x \<in> set xs \<Longrightarrow> y \<in> set xs \<Longrightarrow> lt x y \<longleftrightarrow> key x < key y) \<Longrightarrow> sort_by lt xs = sort_key key xs"
begin

lemma sort_by_set: "set (sort_by lt xs) = set xs"
  by (metis sort_by_mset set_mset_mset)

lemma sort_by_length: "length (sort_by lt xs) = length xs"
  by (metis sort_by_mset size_mset)

text \<open>A comparison that ties the members of a group sorts by key as long as no two are of one group.\<close>

lemma sort_by_tied:
  assumes "\<And>x y. lt x y \<longleftrightarrow> grp x \<noteq> grp y \<and> key x < key y" and "distinct (map grp xs)"
  shows "sort_by lt xs = sort_key key xs"
proof (rule sort_by_key)
  fix x y assume "x \<in> set xs" "y \<in> set xs"
  then have "x = y \<or> grp x \<noteq> grp y" using assms(2) by (auto simp: distinct_map inj_on_def)
  then show "lt x y \<longleftrightarrow> key x < key y" using assms(1) by auto
qed

end

interpretation go_sort: comparison_sort SortStableFunc key
  by unfold_locales (simp_all add: SortStableFunc_is_sort)

interpretation go_insertion_sort: comparison_sort insertionSort key
  by unfold_locales (simp_all add: insertionSort_is_sort)

end
