(* ===== verification/Txgossip.thy ===== *)
theory Txgossip
  imports GoSort Consensus "HOL-Library.Product_Lexorder" "HOL-Library.Sublist"
begin

text \<open>
  The mempool (\<^verbatim>\<open>src/txgossip\<close>): transactions by priority, the set that is gossiped, and the chain as
  the mempool sees it.

  The pool and the gossip system are other libraries, given as records of functions. What the pool
  returns by sender is a Go map, whose iteration order is arbitrary: it is the list of its entries in
  the order that the loop happens to see.
\<close>

section \<open>Transactions by priority (priority.go)\<close>

record timed_tx = lazy_tx +
  lt_Time :: gotime

definition effectiveGasTip :: "u256 option \<Rightarrow> ('a lazy_tx_scheme) \<Rightarrow> u256" where
  "effectiveGasTip baseFee ltx =
     (case baseFee of
        None \<Rightarrow> lt_GasTipCap ltx
      | Some fee \<Rightarrow>
          if lt_GasFeeCap ltx \<le> fee then 0
          else let diff = lt_GasFeeCap ltx - fee in if diff < lt_GasTipCap ltx then diff else lt_GasTipCap ltx)"

text \<open>\<^verbatim>\<open>Cmp\<close> and \<^verbatim>\<open>Compare\<close> of Go.\<close>

definition go_cmp :: "'a :: linorder \<Rightarrow> 'a \<Rightarrow> int" where
  "go_cmp x y = (if x < y then -1 else if x = y then 0 else 1)"

definition compare_txs :: "u256 option \<Rightarrow> timed_tx \<Rightarrow> timed_tx \<Rightarrow> int" where
  "compare_txs baseFee a b =
     (if lt_Sender a = lt_Sender b then 0
      else let tip = go_cmp (effectiveGasTip baseFee a) (effectiveGasTip baseFee b)
           in if tip \<noteq> 0 then - tip else go_cmp (lt_Time a) (lt_Time b))"

definition collect_pending :: "(address \<times> timed_tx list) list \<Rightarrow> timed_tx list" where
  "collect_pending pending = concat (map (\<lambda>(from, txs). map (\<lambda>tx. tx\<lparr>lt_Sender := from\<rparr>) txs) pending)"

definition TransactionsByPriority :: "u256 option \<Rightarrow> (address \<times> timed_tx list) list \<Rightarrow> timed_tx list" where
  "TransactionsByPriority baseFee pending = SortStableFunc (\<lambda>a b. compare_txs baseFee a b < 0) (collect_pending pending)"

definition ltx_Resolve :: "('a lazy_tx_scheme) \<Rightarrow> transaction option \<times> bool" where
  "ltx_Resolve ltx = (lt_Resolve ltx, lt_Resolve ltx \<noteq> None)"

section \<open>The gossiped set (txgossip.go, pushpull.go)\<close>

record 'p txpool =
  pool_Add :: "transaction list \<Rightarrow> bool \<Rightarrow> bool \<Rightarrow> 'p \<Rightarrow> go_error option list \<times> 'p"
  pool_Has :: "'p \<Rightarrow> hash \<Rightarrow> bool"
  pool_Content :: "'p \<Rightarrow> (address \<times> transaction list) list \<times> (address \<times> transaction list) list"
  pool_Stats :: "'p \<Rightarrow> nat \<times> nat"

definition ErrAlreadyKnown :: go_error where
  "ErrAlreadyKnown = ErrOther ''already known''"

definition GossipID :: "transaction \<Rightarrow> hash" where
  "GossipID tx = tx_Hash tx"

definition addToPool :: "('p, 'a) txpool_scheme \<Rightarrow> bool \<Rightarrow> transaction list \<Rightarrow> 'p \<Rightarrow> go_error option list \<times> 'p" where
  "addToPool P local txs p = pool_Add P txs local False p"

definition txSet_Add :: "('p, 'a) txpool_scheme \<Rightarrow> transaction \<Rightarrow> 'p \<Rightarrow> go_error option \<times> 'p" where
  "txSet_Add P tx p =
     (case addToPool P False [tx] p of
        (errs, p') \<Rightarrow>
          (errors_Join (map (\<lambda>e. case e of None \<Rightarrow> None | Some err \<Rightarrow> if errors_Is err ErrAlreadyKnown then None else Some err) errs), p'))"

definition txSet_Has :: "('p, 'a) txpool_scheme \<Rightarrow> 'p \<Rightarrow> hash \<Rightarrow> bool" where
  "txSet_Has P p h = pool_Has P p h"

text \<open>A callback threads a state and says whether to go on.\<close>

fun iterate_txs :: "(transaction \<Rightarrow> 's \<Rightarrow> bool \<times> 's) \<Rightarrow> transaction list \<Rightarrow> 's \<Rightarrow> bool \<times> 's" where
  "iterate_txs fn [] s = (True, s)"
| "iterate_txs fn (tx # txs) s = (case fn tx s of (goOn, s') \<Rightarrow> if goOn then iterate_txs fn txs s' else (False, s'))"

fun iterate_group :: "(transaction \<Rightarrow> 's \<Rightarrow> bool \<times> 's) \<Rightarrow> (address \<times> transaction list) list \<Rightarrow> 's \<Rightarrow> bool \<times> 's" where
  "iterate_group fn [] s = (True, s)"
| "iterate_group fn ((_, txs) # rest) s =
     (case iterate_txs fn txs s of (goOn, s') \<Rightarrow> if goOn then iterate_group fn rest s' else (False, s'))"

definition txSet_Iterate :: "('p, 'a) txpool_scheme \<Rightarrow> 'p \<Rightarrow> (transaction \<Rightarrow> 's \<Rightarrow> bool \<times> 's) \<Rightarrow> 's \<Rightarrow> 's" where
  "txSet_Iterate P p fn s =
     (case pool_Content P p of
        (pending, queued) \<Rightarrow>
          (case iterate_group fn pending s of
             (goOn, s') \<Rightarrow> if goOn then snd (iterate_group fn queued s') else s'))"

definition txSet_Len :: "('p, 'a) txpool_scheme \<Rightarrow> 'p \<Rightarrow> nat" where
  "txSet_Len P p = (case pool_Stats P p of (pending, queued) \<Rightarrow> pending + queued)"

text \<open>A \<^verbatim>\<open>Set\<close>, with the state \<open>'g\<close> of the gossipers that are registered with it.\<close>

record ('p, 'g) gossip_set =
  gs_pool :: 'p
  pushTo :: "(transaction \<Rightarrow> 'g \<Rightarrow> 'g) list"
  gs_gossip :: 'g

definition NewSet :: "go_error option \<Rightarrow> 'p \<Rightarrow> 'g \<Rightarrow> ('p, 'g) gossip_set res" where
  "NewSet bloomErr pool g =
     (case bloomErr of Some err \<Rightarrow> Inl err | None \<Rightarrow> Inr \<lparr>gs_pool = pool, pushTo = [], gs_gossip = g\<rparr>)"

definition RegisterPushGossiper :: "(transaction \<Rightarrow> 'g \<Rightarrow> 'g) \<Rightarrow> ('p, 'g) gossip_set \<Rightarrow> ('p, 'g) gossip_set" where
  "RegisterPushGossiper add s = s\<lparr>pushTo := pushTo s @ [add]\<rparr>"

definition SendTx :: "('p, 'a) txpool_scheme \<Rightarrow> transaction \<Rightarrow> ('p, 'g) gossip_set \<Rightarrow> go_error option \<times> ('p, 'g) gossip_set" where
  "SendTx P tx s =
     (case addToPool P True [tx] (gs_pool s) of
        (errs, p') \<Rightarrow>
          (case errors_Join errs of
             Some err \<Rightarrow> (Some err, s\<lparr>gs_pool := p'\<rparr>)
           | None \<Rightarrow> (None, s\<lparr>gs_pool := p', gs_gossip := fold (\<lambda>add. add tx) (pushTo s) (gs_gossip s)\<rparr>)))"

section \<open>The chain of the mempool (blockchain.go)\<close>

definition bc_CurrentBlock :: "('kv, 'x, 'z) world_scheme \<Rightarrow> header res" where
  "bc_CurrentBlock w = res_bind (deref (LastExecuted w)) (\<lambda>b. Inr (Header w b))"

definition bc_GetBlock :: "(hash \<Rightarrow> u64 \<Rightarrow> eth_block option) \<Rightarrow> hash \<Rightarrow> u64 \<Rightarrow> eth_block option" where
  "bc_GetBlock blocks h n = (case blocks h n of None \<Rightarrow> None | Some b \<Rightarrow> Some b)"

definition bc_StateAt :: "('db, 't, 'c, 'v) evm_scheme \<Rightarrow> ('kv, 'x, 't, 'c, 'z) exec_world_scheme \<Rightarrow> hash \<Rightarrow> 'db res" where
  "bc_StateAt V w ignored =
     res_bind (deref (LastExecuted w)) (\<lambda>b.
     res_bind (PostExecutionStateRoot w b) (\<lambda>rt. OpenStateDB V rt (cache (ex_tracker w))))"

section \<open>Priority\<close>

text \<open>Higher tips come first, and earlier transactions among equal tips.\<close>

definition priority_key :: "u256 option \<Rightarrow> timed_tx \<Rightarrow> int \<times> gotime" where
  "priority_key baseFee tx = (- uint (effectiveGasTip baseFee tx), lt_Time tx)"

lemma compare_txs_less:
  "compare_txs baseFee a b < 0 \<longleftrightarrow> lt_Sender a \<noteq> lt_Sender b \<and> priority_key baseFee a < priority_key baseFee b"
  by (auto simp: compare_txs_def priority_key_def go_cmp_def less_prod_def Let_def word_less_def word_uint_eq_iff)

lemma set_TransactionsByPriority [simp]: "mset (TransactionsByPriority baseFee pending) = mset (collect_pending pending)"
  unfolding TransactionsByPriority_def by (rule go_sort.sort_by_mset)

text \<open>C33: The transactions by priority are exactly the pending ones, each once, whatever the order in which
  the pool's map is iterated. If every sender has one transaction they are sorted by decreasing
  effective tip and then by time. Up to 20 transactions, those of one sender stay in the order of their
  nonces, in which the pool returns them, and of two neighbours with different senders the later one
  does not have a higher priority.
\<close>

theorem TransactionsByPriority_spec:
  "mset (TransactionsByPriority baseFee pending) = mset (collect_pending pending)
   \<and> (distinct (map lt_Sender (collect_pending pending))
        \<longrightarrow> TransactionsByPriority baseFee pending = sort_key (priority_key baseFee) (collect_pending pending))
   \<and> (length (collect_pending pending) \<le> 20
        \<longrightarrow> filter (\<lambda>tx. lt_Sender tx = from) (TransactionsByPriority baseFee pending)
              = filter (\<lambda>tx. lt_Sender tx = from) (collect_pending pending)
            \<and> successively (\<lambda>a b. lt_Sender a = lt_Sender b \<or> priority_key baseFee a \<le> priority_key baseFee b)
                (TransactionsByPriority baseFee pending))"
proof (intro conjI impI)
  assume d: "distinct (map lt_Sender (collect_pending pending))"
  show "TransactionsByPriority baseFee pending = sort_key (priority_key baseFee) (collect_pending pending)"
    unfolding TransactionsByPriority_def by (rule go_sort.sort_by_tied [OF _ d]) (rule compare_txs_less)
next
  assume n: "length (collect_pending pending) \<le> 20"
  show "filter (\<lambda>tx. lt_Sender tx = from) (TransactionsByPriority baseFee pending)
    = filter (\<lambda>tx. lt_Sender tx = from) (collect_pending pending)"
    unfolding TransactionsByPriority_def SortStableFunc_small [OF n] by (rule insertionSort_stable) (simp add: compare_txs_less)
  have "successively (\<lambda>x y. \<not> compare_txs baseFee y x < 0) (TransactionsByPriority baseFee pending)"
    unfolding TransactionsByPriority_def SortStableFunc_small [OF n]
    by (rule insertionSort_neighbours) (auto simp: compare_txs_less)
  then show "successively (\<lambda>a b. lt_Sender a = lt_Sender b \<or> priority_key baseFee a \<le> priority_key baseFee b)
      (TransactionsByPriority baseFee pending)"
    by (rule successively_mono) (auto simp: compare_txs_less not_less)
qed simp

definition sample_timed :: "nat \<Rightarrow> nat \<Rightarrow> int \<Rightarrow> timed_tx" where
  "sample_timed h tip t = \<lparr>lt_Hash = h, lt_Resolve = None, lt_GasFeeCap = 100, lt_GasTipCap = word_of_nat tip, lt_Gas = 21000,
     lt_Sender = 0, lt_Time = t\<rparr>"

theorem TransactionsByPriority_spec_witness:
  "map lt_Hash (TransactionsByPriority (Some 7) [(1, [sample_timed 1 3 0, sample_timed 2 4 1]), (2, [sample_timed 3 5 0])]) = [3, 1, 2]
   \<and> map lt_Hash (TransactionsByPriority None [(1, [sample_timed 1 3 0]), (2, [sample_timed 2 5 4]), (3, [sample_timed 3 5 2])]) = [3, 2, 1]"
proof -
  let ?p = "[(1, [sample_timed 1 3 0, sample_timed 2 4 1]), (2, [sample_timed 3 5 0])]"
  let ?q = "[(1, [sample_timed 1 3 0]), (2, [sample_timed 2 5 4]), (3, [sample_timed 3 5 2])]"
  have p: "length (collect_pending ?p) \<le> 20" by code_simp
  have q: "distinct (map lt_Sender (collect_pending ?q))" by code_simp
  have "TransactionsByPriority None ?q = sort_key (priority_key None) (collect_pending ?q)"
    using TransactionsByPriority_spec [of None ?q] q by simp
  moreover have "map lt_Hash (sort_key (priority_key None) (collect_pending ?q)) = [3, 2, 1]" by code_simp
  moreover have "map lt_Hash (TransactionsByPriority (Some 7) ?p) = [3, 1, 2]" by code_simp
  moreover have "map lt_Hash (filter (\<lambda>tx. lt_Sender tx = 1) (TransactionsByPriority (Some 7) ?p)) = [1, 2]"
  proof -
    have "filter (\<lambda>tx. lt_Sender tx = 1) (TransactionsByPriority (Some 7) ?p) = filter (\<lambda>tx. lt_Sender tx = 1) (collect_pending ?p)"
      using TransactionsByPriority_spec [of "Some 7" ?p] p by blast
    moreover have "map lt_Hash (filter (\<lambda>tx. lt_Sender tx = 1) (collect_pending ?p)) = [1, 2]" by code_simp
    ultimately show ?thesis by simp
  qed
  ultimately show ?thesis by simp
qed

text \<open>
  Nineteen senders with one transaction each, and a twentieth whose first transaction has a lower
  tip than all of them and whose second has a higher one.
\<close>

definition sample_pending :: "(address \<times> timed_tx list) list" where
  "sample_pending = map (\<lambda>i. (i, [sample_timed i 5 0])) [1..<20] @ [(99, [sample_timed 100 1 0, sample_timed 101 9 0])]"


section \<open>From the mempool into a block\<close>

lemma include_txs_subseq:
  "include_txs E H S ltxs s = Inr (inc, s') \<Longrightarrow> subseq inc (List.map_filter lt_Resolve ltxs)"
proof (induction E H S ltxs s arbitrary: inc s' rule: include_txs.induct)
  case (2 E H S ltx ltxs s)
  show ?case
  proof (cases "lt_Resolve ltx")
    case None
    then show ?thesis using 2 by (auto simp: map_filter_simps split: if_splits)
  next
    case (Some tx)
    obtain r s1 where a: "ApplyTx E H S tx s = (r, s1)" by fastforce
    show ?thesis
    proof (cases r)
      case (Inl err)
      then show ?thesis using 2 Some a by (auto simp: map_filter_simps split: if_splits)
    next
      case (Inr u)
      then show ?thesis using 2 Some a by (auto simp: map_filter_simps res_bind_eq_Inr split: if_splits prod.splits)
    qed
  qed
qed simp

lemma subseq_mset: "subseq xs ys \<Longrightarrow> mset xs \<subseteq># mset ys"
  by (induction rule: list_emb.induct) (auto intro: subset_mset.order_trans)


definition sample_offer :: timed_tx where
  "sample_offer = (sample_timed 1 3 0)\<lparr>lt_Resolve := Some sample_tx\<rparr>"


end
