(* ===== verification/Canoto.thy ===== *)
theory Canoto
  imports Environment
begin

text \<open>
  The codec of execution results, as generated for \<^verbatim>\<open>proxytime.Time\<close>, \<^verbatim>\<open>gastime.config\<close>,
  \<^verbatim>\<open>gastime.Time\<close> and \<^verbatim>\<open>blocks.executionResults\<close> (\<^verbatim>\<open>*.canoto.go\<close> under \<^verbatim>\<open>src/proxytime\<close>, \<^verbatim>\<open>src/gastime\<close> and
  \<^verbatim>\<open>src/blocks\<close>).

  The generated code calls the canoto library for tags, integers and byte strings, which is the record
  \<open>canoto\<close>; the locale \<open>canoto_lib\<close> has what its documentation promises. A loop over the fields of a
  message is the same in every generated file, so it is written once, over the \<^verbatim>\<open>switch\<close> of the message.
  A byte is a number, as in the databases of the environment. \<^verbatim>\<open>CalculateCanotoCache\<close> stores sizes in the
  messages and \<^verbatim>\<open>MarshalCanotoInto\<close> reads them back; as \<^verbatim>\<open>MarshalCanoto\<close> runs the two in this order, a cached
  size is the calculated one.
\<close>

section \<open>The library\<close>

datatype wire_type = Varint | I64 | Len | I32

fun wire_code :: "wire_type \<Rightarrow> nat" where
  "wire_code Varint = 0"
| "wire_code I64 = 1"
| "wire_code Len = 2"
| "wire_code I32 = 5"

text \<open>\<^verbatim>\<open>canoto.Tag\<close> of a field below 16 is one byte.\<close>

definition canoto_tag :: "nat \<Rightarrow> wire_type \<Rightarrow> nat" where
  "canoto_tag field wt = 8 * field + wire_code wt"

record canoto =
  ReadTag :: "encoding \<Rightarrow> (nat \<times> wire_type \<times> encoding) res"
  ReadUint :: "encoding \<Rightarrow> (u64 \<times> encoding) res"
  ReadBool :: "encoding \<Rightarrow> (bool \<times> encoding) res"
  ReadBytes :: "encoding \<Rightarrow> (encoding \<times> encoding) res"
  AppendUint :: "u64 \<Rightarrow> encoding"
  AppendBool :: "bool \<Rightarrow> encoding"
  AppendBytes :: "encoding \<Rightarrow> encoding"
  SizeUint :: "u64 \<Rightarrow> u64"
  SizeBool :: u64
  SizeBytes :: "encoding \<Rightarrow> u64"

locale canoto_lib =
  fixes C :: canoto
  assumes tag_read: "0 < f \<Longrightarrow> f < 16 \<Longrightarrow> ReadTag C (canoto_tag f wt # rest) = Inr (f, wt, rest)"
    and tag_canonical: "ReadTag C bs = Inr (f, wt, rest) \<Longrightarrow> f < 16 \<Longrightarrow> bs = canoto_tag f wt # rest"
    and uint_read: "ReadUint C (AppendUint C n @ rest) = Inr (n, rest)"
    and uint_canonical: "ReadUint C bs = Inr (n, rest) \<Longrightarrow> bs = AppendUint C n @ rest"
    and uint_size: "length (AppendUint C n) = unat (SizeUint C n)"
    and uint_size_bound: "0 < unat (SizeUint C n) \<and> unat (SizeUint C n) \<le> 10"
    and bool_read: "ReadBool C (AppendBool C True @ rest) = Inr (True, rest)"
    and bool_canonical: "ReadBool C bs = Inr (True, rest) \<Longrightarrow> bs = AppendBool C True @ rest"
    and bool_size: "length (AppendBool C True) = unat (SizeBool C)" "SizeBool C = 1"
    and bytes_read: "length b < 2 ^ 32 \<Longrightarrow> ReadBytes C (AppendBytes C b @ rest) = Inr (b, rest)"
    and bytes_canonical: "ReadBytes C bs = Inr (b, rest) \<Longrightarrow> bs = AppendBytes C b @ rest"
    and bytes_append: "AppendBytes C b = AppendUint C (word_of_nat (length b)) @ b"
    and bytes_size: "SizeBytes C b = SizeUint C (word_of_nat (length b)) + word_of_nat (length b)"

section \<open>Messages\<close>

definition ErrInvalidFieldOrder :: go_error where
  "ErrInvalidFieldOrder = ErrOther ''canoto: invalid field order''"

definition ErrUnexpectedWireType :: go_error where
  "ErrUnexpectedWireType = ErrOther ''canoto: unexpected wire type''"

definition ErrZeroValue :: go_error where
  "ErrZeroValue = ErrOther ''canoto: zero value''"

definition ErrUnknownField :: go_error where
  "ErrUnknownField = ErrOther ''canoto: unknown field''"

definition ErrInvalidLength :: go_error where
  "ErrInvalidLength = ErrOther ''canoto: invalid length''"

definition ErrUnexpectedEOF :: go_error where
  "ErrUnexpectedEOF = ErrOther ''unexpected EOF''"

text \<open>
  The loop of \<^verbatim>\<open>UnmarshalCanotoFrom\<close>: \<open>switch\<close> reads one of the fields up to \<open>maxField\<close> into the message.
\<close>

type_synonym 'm field_switch = "nat \<Rightarrow> wire_type \<Rightarrow> encoding \<Rightarrow> 'm \<Rightarrow> ('m \<times> encoding) res"

function canoto_loop :: "canoto \<Rightarrow> 'm field_switch \<Rightarrow> nat \<Rightarrow> nat \<Rightarrow> encoding \<Rightarrow> 'm \<Rightarrow> 'm res" where
  "canoto_loop C switch maxField minField bs m =
     (if bs = [] then Inr m
      else case ReadTag C bs of
        Inl err \<Rightarrow> Inl err
      | Inr (field, wireType, rest) \<Rightarrow>
          if field < minField then Inl ErrInvalidFieldOrder
          else if field = 0 \<or> maxField < field then Inl ErrUnknownField
          else (case switch field wireType rest m of
                  Inl err \<Rightarrow> Inl err
                | Inr (m', rest') \<Rightarrow> canoto_loop C switch maxField (field + 1) rest' m'))"
  by auto
termination by (relation "measure (\<lambda>(C, switch, maxField, minField, bs, m). maxField + 1 - minField)") auto

declare canoto_loop.simps [simp del]

text \<open>A field of one of the kinds that occur, and where its value goes.\<close>

definition uint_field :: "canoto \<Rightarrow> (u64 \<Rightarrow> 'm) \<Rightarrow> wire_type \<Rightarrow> encoding \<Rightarrow> ('m \<times> encoding) res" where
  "uint_field C set_field wt bs =
     (if wt \<noteq> Varint then Inl ErrUnexpectedWireType
      else res_bind (ReadUint C bs) (\<lambda>(n, rest). if n = 0 then Inl ErrZeroValue else Inr (set_field n, rest)))"

definition bool_field :: "canoto \<Rightarrow> (bool \<Rightarrow> 'm) \<Rightarrow> wire_type \<Rightarrow> encoding \<Rightarrow> ('m \<times> encoding) res" where
  "bool_field C set_field wt bs =
     (if wt \<noteq> Varint then Inl ErrUnexpectedWireType
      else res_bind (ReadBool C bs) (\<lambda>(b, rest). if \<not> b then Inl ErrZeroValue else Inr (set_field b, rest)))"

text \<open>A message in a message, as a pointer or as a value, which may not be empty.\<close>

definition message_field :: "canoto \<Rightarrow> bool \<Rightarrow> (encoding \<Rightarrow> 'v res) \<Rightarrow> ('v \<Rightarrow> 'm) \<Rightarrow> wire_type \<Rightarrow> encoding \<Rightarrow> ('m \<times> encoding) res" where
  "message_field C pointer unmarshal set_field wt bs =
     (if wt \<noteq> Len then Inl ErrUnexpectedWireType
      else res_bind (ReadBytes C bs) (\<lambda>(msg, rest).
        if \<not> pointer \<and> msg = [] then Inl ErrZeroValue
        else res_bind (unmarshal msg) (\<lambda>v. Inr (set_field v, rest))))"

definition tagged :: "bool \<Rightarrow> nat \<Rightarrow> wire_type \<Rightarrow> encoding \<Rightarrow> encoding" where
  "tagged present field wt body = (if present then canoto_tag field wt # body else [])"

text \<open>The size of a tag, with the contents that follow it, if the field is there.\<close>

definition tagged_size :: "bool \<Rightarrow> u64 \<Rightarrow> u64" where
  "tagged_size present n = (if present then 1 + n else 0)"

definition sized :: "canoto \<Rightarrow> u64 \<Rightarrow> u64" where
  "sized C n = SizeUint C n + n"

subsection \<open>proxytime.Time (proxytime.canoto.go)\<close>

definition zero_ptime :: ptime where
  "zero_ptime = \<lparr>seconds = 0, fraction = 0, hertz = 0\<rparr>"

definition ptime_switch :: "canoto \<Rightarrow> ptime field_switch" where
  "ptime_switch C field wt bs c =
     (if field = 1 then uint_field C (\<lambda>n. c\<lparr>seconds := n\<rparr>) wt bs
      else if field = 2 then uint_field C (\<lambda>n. c\<lparr>fraction := n\<rparr>) wt bs
      else if field = 3 then uint_field C (\<lambda>n. c\<lparr>hertz := n\<rparr>) wt bs
      else Inl ErrUnknownField)"

definition ptime_UnmarshalCanotoFrom :: "canoto \<Rightarrow> encoding \<Rightarrow> ptime res" where
  "ptime_UnmarshalCanotoFrom C bs = canoto_loop C (ptime_switch C) 3 0 bs zero_ptime"

definition ptime_CalculateCanotoCache :: "canoto \<Rightarrow> ptime \<Rightarrow> u64" where
  "ptime_CalculateCanotoCache C c =
     tagged_size (seconds c \<noteq> 0) (SizeUint C (seconds c)) + tagged_size (fraction c \<noteq> 0) (SizeUint C (fraction c))
     + tagged_size (hertz c \<noteq> 0) (SizeUint C (hertz c))"

definition ptime_MarshalCanotoInto :: "canoto \<Rightarrow> ptime \<Rightarrow> encoding \<Rightarrow> encoding" where
  "ptime_MarshalCanotoInto C c w =
     w @ tagged (seconds c \<noteq> 0) 1 Varint (AppendUint C (seconds c)) @ tagged (fraction c \<noteq> 0) 2 Varint (AppendUint C (fraction c))
     @ tagged (hertz c \<noteq> 0) 3 Varint (AppendUint C (hertz c))"

subsection \<open>gastime.config (config.canoto.go)\<close>

definition zero_config :: config where
  "zero_config = \<lparr>targetToExcessScaling = 0, minPrice = 0, staticPricing = False\<rparr>"

definition config_switch :: "canoto \<Rightarrow> config field_switch" where
  "config_switch C field wt bs c =
     (if field = 1 then uint_field C (\<lambda>n. c\<lparr>targetToExcessScaling := n\<rparr>) wt bs
      else if field = 2 then uint_field C (\<lambda>n. c\<lparr>minPrice := n\<rparr>) wt bs
      else if field = 3 then bool_field C (\<lambda>b. c\<lparr>staticPricing := b\<rparr>) wt bs
      else Inl ErrUnknownField)"

definition config_UnmarshalCanotoFrom :: "canoto \<Rightarrow> encoding \<Rightarrow> config res" where
  "config_UnmarshalCanotoFrom C bs = canoto_loop C (config_switch C) 3 0 bs zero_config"

definition config_CalculateCanotoCache :: "canoto \<Rightarrow> config \<Rightarrow> u64" where
  "config_CalculateCanotoCache C c =
     tagged_size (targetToExcessScaling c \<noteq> 0) (SizeUint C (targetToExcessScaling c))
     + tagged_size (minPrice c \<noteq> 0) (SizeUint C (minPrice c)) + tagged_size (staticPricing c) (SizeBool C)"

definition config_MarshalCanotoInto :: "canoto \<Rightarrow> config \<Rightarrow> encoding \<Rightarrow> encoding" where
  "config_MarshalCanotoInto C c w =
     w @ tagged (targetToExcessScaling c \<noteq> 0) 1 Varint (AppendUint C (targetToExcessScaling c))
     @ tagged (minPrice c \<noteq> 0) 2 Varint (AppendUint C (minPrice c)) @ tagged (staticPricing c) 3 Varint (AppendBool C True)"

subsection \<open>gastime.Time (gastime.canoto.go)\<close>

text \<open>The embedded proxy time is a pointer, which is nil in a decoded message without it.\<close>

record gtime_message =
  gm_Time :: "ptime option"
  gm_target :: gas
  gm_excess :: gas
  gm_config :: config

definition zero_gtime :: gtime_message where
  "zero_gtime = \<lparr>gm_Time = None, gm_target = 0, gm_excess = 0, gm_config = zero_config\<rparr>"

definition gtime_switch :: "canoto \<Rightarrow> gtime_message field_switch" where
  "gtime_switch C field wt bs c =
     (if field = 1 then message_field C True (ptime_UnmarshalCanotoFrom C) (\<lambda>t. c\<lparr>gm_Time := Some t\<rparr>) wt bs
      else if field = 2 then uint_field C (\<lambda>n. c\<lparr>gm_target := n\<rparr>) wt bs
      else if field = 3 then uint_field C (\<lambda>n. c\<lparr>gm_excess := n\<rparr>) wt bs
      else if field = 4 then message_field C False (config_UnmarshalCanotoFrom C) (\<lambda>v. c\<lparr>gm_config := v\<rparr>) wt bs
      else Inl ErrUnknownField)"

definition gtime_UnmarshalCanotoFrom :: "canoto \<Rightarrow> encoding \<Rightarrow> gtime_message res" where
  "gtime_UnmarshalCanotoFrom C bs = canoto_loop C (gtime_switch C) 4 0 bs zero_gtime"

definition gtime_CalculateCanotoCache :: "canoto \<Rightarrow> gtime_message \<Rightarrow> u64" where
  "gtime_CalculateCanotoCache C c =
     (case gm_Time c of None \<Rightarrow> 0 | Some t \<Rightarrow> tagged_size True (sized C (ptime_CalculateCanotoCache C t)))
     + tagged_size (gm_target c \<noteq> 0) (SizeUint C (gm_target c)) + tagged_size (gm_excess c \<noteq> 0) (SizeUint C (gm_excess c))
     + (let fieldSize = config_CalculateCanotoCache C (gm_config c) in tagged_size (fieldSize \<noteq> 0) (sized C fieldSize))"

definition gtime_MarshalCanotoInto :: "canoto \<Rightarrow> gtime_message \<Rightarrow> encoding \<Rightarrow> encoding" where
  "gtime_MarshalCanotoInto C c w =
     (let w = (case gm_Time c of None \<Rightarrow> w
                | Some t \<Rightarrow> ptime_MarshalCanotoInto C t (w @ canoto_tag 1 Len # AppendUint C (ptime_CalculateCanotoCache C t)));
          w = w @ tagged (gm_target c \<noteq> 0) 2 Varint (AppendUint C (gm_target c));
          w = w @ tagged (gm_excess c \<noteq> 0) 3 Varint (AppendUint C (gm_excess c));
          fieldSize = config_CalculateCanotoCache C (gm_config c)
      in if fieldSize \<noteq> 0
         then config_MarshalCanotoInto C (gm_config c) (w @ canoto_tag 4 Len # AppendUint C fieldSize) else w)"

subsection \<open>blocks.executionResults (execution.canoto.go)\<close>

text \<open>A \<^verbatim>\<open>common.Hash\<close> as its 32 bytes, and a \<^verbatim>\<open>uint256.Int\<close> as its four words, least significant first.\<close>

definition hash_bytes :: "hash \<Rightarrow> encoding" where
  "hash_bytes h = map (\<lambda>i. h div 256 ^ (31 - i) mod 256) [0..<32]"

definition bytes_hash :: "encoding \<Rightarrow> hash" where
  "bytes_hash bs = foldl (\<lambda>h b. 256 * h + b) 0 bs"

definition limbs :: "u256 \<Rightarrow> u64 list" where
  "limbs x = map (\<lambda>i. word_of_nat (unat x div 2 ^ (64 * i))) [0..<4]"

definition from_limbs :: "u64 list \<Rightarrow> u256" where
  "from_limbs ls = word_of_nat (foldr (\<lambda>l n. unat l + 2 ^ 64 * n) ls 0)"

record results_message =
  rm_byGas :: gtime_message
  rm_baseFee :: u256
  rm_receiptRoot :: hash
  rm_stateRootPost :: hash

definition zero_results :: results_message where
  "zero_results = \<lparr>rm_byGas = zero_gtime, rm_baseFee = 0, rm_receiptRoot = 0, rm_stateRootPost = 0\<rparr>"

text \<open>The loop over the words of the base fee.\<close>

fun read_uints :: "canoto \<Rightarrow> nat \<Rightarrow> encoding \<Rightarrow> (u64 list \<times> encoding) res" where
  "read_uints C 0 bs = Inr ([], bs)"
| "read_uints C (Suc n) bs =
     res_bind (ReadUint C bs) (\<lambda>(v, rest). res_bind (read_uints C n rest) (\<lambda>(vs, rest'). Inr (v # vs, rest')))"

definition baseFee_field :: "canoto \<Rightarrow> results_message \<Rightarrow> wire_type \<Rightarrow> encoding \<Rightarrow> (results_message \<times> encoding) res" where
  "baseFee_field C c wt bs =
     (if wt \<noteq> Len then Inl ErrUnexpectedWireType
      else res_bind (ReadBytes C bs) (\<lambda>(msg, rest).
        res_bind (read_uints C 4 msg) (\<lambda>(ls, msgRest).
        if msgRest \<noteq> [] then Inl ErrInvalidLength
        else if from_limbs ls = 0 then Inl ErrZeroValue
        else Inr (c\<lparr>rm_baseFee := from_limbs ls\<rparr>, rest))))"

definition hash_field :: "canoto \<Rightarrow> (hash \<Rightarrow> 'm) \<Rightarrow> wire_type \<Rightarrow> encoding \<Rightarrow> ('m \<times> encoding) res" where
  "hash_field C set_field wt bs =
     (if wt \<noteq> Len then Inl ErrUnexpectedWireType
      else res_bind (ReadUint C bs) (\<lambda>(n, rest).
        if n \<noteq> 32 then Inl ErrInvalidLength
        else if 32 > length rest then Inl ErrUnexpectedEOF
        else if bytes_hash (take 32 rest) = 0 then Inl ErrZeroValue
        else Inr (set_field (bytes_hash (take 32 rest)), drop 32 rest)))"

definition results_switch :: "canoto \<Rightarrow> results_message field_switch" where
  "results_switch C field wt bs c =
     (if field = 1 then message_field C False (gtime_UnmarshalCanotoFrom C) (\<lambda>g. c\<lparr>rm_byGas := g\<rparr>) wt bs
      else if field = 2 then baseFee_field C c wt bs
      else if field = 3 then hash_field C (\<lambda>h. c\<lparr>rm_receiptRoot := h\<rparr>) wt bs
      else if field = 4 then hash_field C (\<lambda>h. c\<lparr>rm_stateRootPost := h\<rparr>) wt bs
      else Inl ErrUnknownField)"

definition results_UnmarshalCanotoFrom :: "canoto \<Rightarrow> encoding \<Rightarrow> results_message res" where
  "results_UnmarshalCanotoFrom C bs = canoto_loop C (results_switch C) 4 0 bs zero_results"

definition baseFee_size :: "canoto \<Rightarrow> u256 \<Rightarrow> u64" where
  "baseFee_size C x = sum_list (map (SizeUint C) (limbs x))"

definition results_CalculateCanotoCache :: "canoto \<Rightarrow> results_message \<Rightarrow> u64" where
  "results_CalculateCanotoCache C c =
     (let fieldSize = gtime_CalculateCanotoCache C (rm_byGas c) in tagged_size (fieldSize \<noteq> 0) (sized C fieldSize))
     + tagged_size (rm_baseFee c \<noteq> 0) (sized C (baseFee_size C (rm_baseFee c)))
     + tagged_size (rm_receiptRoot c \<noteq> 0) (SizeBytes C (hash_bytes (rm_receiptRoot c)))
     + tagged_size (rm_stateRootPost c \<noteq> 0) (SizeBytes C (hash_bytes (rm_stateRootPost c)))"

definition results_MarshalCanotoInto :: "canoto \<Rightarrow> results_message \<Rightarrow> encoding \<Rightarrow> encoding" where
  "results_MarshalCanotoInto C c w =
     (let fieldSize = gtime_CalculateCanotoCache C (rm_byGas c);
          w = (if fieldSize \<noteq> 0
               then gtime_MarshalCanotoInto C (rm_byGas c) (w @ canoto_tag 1 Len # AppendUint C fieldSize) else w);
          w = w @ tagged (rm_baseFee c \<noteq> 0) 2 Len
                (AppendUint C (baseFee_size C (rm_baseFee c)) @ concat (map (AppendUint C) (limbs (rm_baseFee c))));
          w = w @ tagged (rm_receiptRoot c \<noteq> 0) 3 Len (AppendBytes C (hash_bytes (rm_receiptRoot c)))
      in w @ tagged (rm_stateRootPost c \<noteq> 0) 4 Len (AppendBytes C (hash_bytes (rm_stateRootPost c))))"

section \<open>Digits\<close>

lemma digits_Suc:
  "map (\<lambda>i. h div 256 ^ (n - i) mod 256) [0..<Suc n]
    = map (\<lambda>i. (h div 256) div 256 ^ (n - 1 - i) mod 256) [0..<n] @ [h mod (256 :: nat)]"
proof -
  have "h div 256 ^ (n - i) = (h div 256) div 256 ^ (n - 1 - i)" if "i < n" for i
  proof -
    have "n - i = Suc (n - 1 - i)" using that by simp
    then show ?thesis by (simp add: div_mult2_eq)
  qed
  then show ?thesis by simp
qed

lemma digits_value: "foldl (\<lambda>h b. 256 * h + b) 0 (map (\<lambda>i. h div 256 ^ (n - 1 - i) mod 256) [0..<n]) = h mod (256 :: nat) ^ n"
proof (induction n arbitrary: h)
  case (Suc n)
  have "foldl (\<lambda>h b. 256 * h + b) 0 (map (\<lambda>i. h div 256 ^ (n - i) mod 256) [0..<Suc n])
    = 256 * ((h div 256) mod 256 ^ n) + h mod 256"
    unfolding digits_Suc foldl_append Suc.IH by simp
  then show ?case by (simp add: mod_mult2_eq)
qed simp

lemma value_digits:
  "list_all (\<lambda>b. b < (256 :: nat)) bs \<Longrightarrow>
    map (\<lambda>i. foldl (\<lambda>h b. 256 * h + b) 0 bs div 256 ^ (length bs - 1 - i) mod 256) [0..<length bs] = bs"
proof (induction bs rule: rev_induct)
  case (snoc b bs)
  have b: "b < 256" "list_all (\<lambda>b. b < 256) bs" using snoc.prems by auto
  then show ?case
    using snoc.IH digits_Suc [of "256 * foldl (\<lambda>h b. 256 * h + b) 0 bs + b" "length bs"] by simp
qed simp

lemma length_hash_bytes [simp]: "length (hash_bytes h) = 32"
  by (simp add: hash_bytes_def)

lemma bytes_hash_bytes: "h < 2 ^ 256 \<Longrightarrow> bytes_hash (hash_bytes h) = h"
  using digits_value [of h 32] by (simp add: bytes_hash_def hash_bytes_def)

lemma hash_bytes_hash: "length bs = 32 \<Longrightarrow> list_all (\<lambda>b. b < 256) bs \<Longrightarrow> hash_bytes (bytes_hash bs) = bs"
  using value_digits [of bs] by (simp add: bytes_hash_def hash_bytes_def)

lemma length_limbs [simp]: "length (limbs x) = 4"
  by (simp add: limbs_def)

lemma upt_four: "[0..<4] = [0, 1, 2, 3]"
  by (simp add: upt_rec)

lemma base_digit: "x div B ^ i mod B + B * (x div B ^ (i + 1)) = x div (B :: nat) ^ i"
proof -
  have "x div B ^ (i + 1) = (x div B ^ i) div B" by (simp add: div_mult2_eq mult.commute [of B])
  then show ?thesis by simp
qed

lemma from_limbs_limbs: "from_limbs (limbs x) = x"
proof -
  define B where "B = (2 ^ 64 :: nat)"
  let ?x = "unat x"
  have b: "?x < B ^ 4" using unsigned_less [of x, where 'a = nat] by (simp add: B_def)
  have u: "unat (word_of_nat n :: u64) = n mod B" for n by (simp add: unat_of_nat B_def)
  have d: "?x div 2 ^ (64 * i) = ?x div B ^ i" for i unfolding B_def by (simp only: power_mult)
  have "B ^ 4 = B * B ^ 3" using power_Suc [of B 3] by simp
  then have "?x div B ^ 3 < B" using b by (intro less_mult_imp_div_less) simp
  then have top: "?x div B ^ 3 mod B = ?x div B ^ 3" by simp
  have "foldr (\<lambda>l n. unat l + B * n) (limbs x) 0
    = ?x div B ^ 0 mod B + B * (?x div B ^ 1 mod B + B * (?x div B ^ 2 mod B + B * (?x div B ^ 3 mod B)))"
    unfolding limbs_def upt_four d by (simp add: u)
  also have "\<dots> = ?x"
    unfolding top using base_digit [of ?x B 2] base_digit [of ?x B 1] base_digit [of ?x B 0] by (simp add: numeral_3_eq_3 numeral_2_eq_2)
  finally show ?thesis by (simp add: from_limbs_def B_def word_of_nat_unat)
qed

lemma limbs_from_limbs:
  assumes "length ls = 4"
  shows "limbs (from_limbs ls) = ls"
proof -
  obtain a b c d where ls: "ls = [a, b, c, d]" using assms by (auto simp: length_Suc_conv numeral_eq_Suc)
  define B where "B = (2 ^ 64 :: nat)"
  have l: "unat (w :: u64) < B" for w using unsigned_less [of w, where 'a = nat] by (simp add: B_def)
  define n where "n = unat a + B * (unat b + B * (unat c + B * unat d))"
  have n0: "n mod B = unat a" "n div B = unat b + B * (unat c + B * unat d)" using l [of a] by (simp_all add: n_def)
  have n1: "n div B mod B = unat b" "n div B div B = unat c + B * unat d" using l [of b] by (simp_all add: n0(2))
  have n2: "n div B div B mod B = unat c" "n div B div B div B = unat d" using l [of c] by (simp_all add: n1(2))
  have "n < B * (B * (B * B))"
  proof -
    have "n div B div B div B < B" using l [of d] by (simp add: n2(2))
    then have "n div B div B < B * B" by (simp add: div_less_iff_less_mult B_def)
    then have "n div B < B * B * B" by (simp add: div_less_iff_less_mult B_def)
    then show ?thesis by (simp add: div_less_iff_less_mult B_def)
  qed
  then have "n < 2 ^ 256" by (simp add: B_def)
  moreover have "from_limbs ls = word_of_nat n"
    unfolding from_limbs_def ls n_def B_def foldr.simps comp_def id_def mult_0_right add_0_right ..
  ultimately have f: "unat (from_limbs ls) = n" by (simp add: unat_of_nat)
  have p: "n div 2 ^ (64 * 0) = n" "n div 2 ^ (64 * 1) = n div B" "n div 2 ^ (64 * 2) = n div B div B"
    "n div 2 ^ (64 * 3) = n div B div B div B" by (simp_all add: B_def div_mult2_eq [symmetric])
  have w: "(word_of_nat k :: u64) = v \<longleftrightarrow> k mod B = unat v" for k v
    by (simp add: word_unat_eq_iff unat_of_nat B_def)
  show ?thesis unfolding limbs_def upt_four f list.map p using n0(1) n1(1) n2 l [of d] by (simp add: ls w)
qed

section \<open>Reading back what was written\<close>

lemma MarshalCanotoInto_append:
  "ptime_MarshalCanotoInto C t w = w @ ptime_MarshalCanotoInto C t []"
  "config_MarshalCanotoInto C c w = w @ config_MarshalCanotoInto C c []"
  by (simp_all add: ptime_MarshalCanotoInto_def config_MarshalCanotoInto_def)

lemma tagged_size_bounds: "unat n < 2 ^ 63 \<Longrightarrow> unat (tagged_size present n) = (if present then 1 + unat n else 0)"
  by (simp add: tagged_size_def unat_add_u64)

lemma unat_sum_le:
  fixes a b :: u64
  assumes "unat a \<le> m" and "unat b \<le> n" and "m + n < 2 ^ 64"
  shows "unat (a + b) = unat a + unat b" and "unat (a + b) \<le> m + n"
  using assms by (simp_all add: unat_add_u64)

context canoto_lib
begin

lemma uint_size_le: "unat (SizeUint C n) \<le> 10" "0 < unat (SizeUint C n)"
  using uint_size_bound [of n] by auto

lemma loop_nil [simp]: "canoto_loop C switch maxField k [] m = Inr m"
  by (simp add: canoto_loop.simps)

text \<open>One field, present or left out, in front of the later ones.\<close>

lemma loop_field:
  assumes "\<And>j. j \<le> f + 1 \<Longrightarrow> canoto_loop C switch maxField j rest x' = R"
    and "0 < f" "f \<le> maxField" "maxField < 16" "k \<le> f"
    and "present \<Longrightarrow> switch f wt (body @ rest) x = Inr (x', rest)" and "\<not> present \<Longrightarrow> x' = x"
  shows "canoto_loop C switch maxField k (tagged present f wt body @ rest) x = R"
proof (cases present)
  case True
  have "ReadTag C (canoto_tag f wt # body @ rest) = Inr (f, wt, body @ rest)" using assms(2-4) by (intro tag_read) simp_all
  then show ?thesis using True assms(1) [of "f + 1"] assms(2-6)
    by (simp add: tagged_def canoto_loop.simps [of C switch maxField k])
next
  case False
  then show ?thesis using assms(1) [of k] assms(5,7) by (simp add: tagged_def)
qed

lemma uint_field_read: "n \<noteq> 0 \<Longrightarrow> uint_field C g Varint (AppendUint C n @ rest) = Inr (g n, rest)"
  by (simp add: uint_field_def uint_read)

lemma bool_field_read: "bool_field C g Varint (AppendBool C True @ rest) = Inr (g True, rest)"
  by (simp add: bool_field_def bool_read)

lemma message_field_read:
  assumes "length b < 2 ^ 32" and "unmarshal b = Inr v" and "pointer \<or> b \<noteq> []"
  shows "message_field C pointer unmarshal g Len (AppendBytes C b @ rest) = Inr (g v, rest)"
  using assms by (auto simp: message_field_def bytes_read)

lemmas field_reads = uint_field_read uint_field_read [where rest = "[]", simplified]
  bool_field_read bool_field_read [where rest = "[]", simplified]

lemma ptime_size:
  "length (ptime_MarshalCanotoInto C t []) = unat (ptime_CalculateCanotoCache C t)"
  "unat (ptime_CalculateCanotoCache C t) \<le> 33"
proof -
  let ?a = "tagged_size (seconds t \<noteq> 0) (SizeUint C (seconds t))" and ?b = "tagged_size (fraction t \<noteq> 0) (SizeUint C (fraction t))"
    and ?c = "tagged_size (hertz t \<noteq> 0) (SizeUint C (hertz t))"
  have s: "unat (tagged_size p (SizeUint C n)) = (if p then 1 + unat (SizeUint C n) else 0)" for p n
    using uint_size_le [of n] by (intro tagged_size_bounds) simp
  have b: "unat (tagged_size p (SizeUint C n)) \<le> 11" for p n using uint_size_le [of n] by (simp add: s)
  have ab: "unat (?a + ?b) = unat ?a + unat ?b" "unat (?a + ?b) \<le> 22" using unat_sum_le [OF b b] by simp_all
  have "unat (?a + ?b + ?c) = unat ?a + unat ?b + unat ?c" "unat (?a + ?b + ?c) \<le> 33"
    using unat_sum_le [OF ab(2) b] ab(1) by simp_all
  then show "length (ptime_MarshalCanotoInto C t []) = unat (ptime_CalculateCanotoCache C t)"
    "unat (ptime_CalculateCanotoCache C t) \<le> 33"
    by (simp_all add: ptime_CalculateCanotoCache_def ptime_MarshalCanotoInto_def tagged_def s uint_size)
qed

lemma ptime_roundtrip: "ptime_UnmarshalCanotoFrom C (ptime_MarshalCanotoInto C t []) = Inr t"
proof -
  let ?f = "tagged (fraction t \<noteq> 0) 2 Varint (AppendUint C (fraction t))" and ?h = "tagged (hertz t \<noteq> 0) 3 Varint (AppendUint C (hertz t))"
  let ?t1 = "zero_ptime\<lparr>seconds := seconds t\<rparr>" and ?t2 = "zero_ptime\<lparr>seconds := seconds t, fraction := fraction t\<rparr>"
  have 3: "canoto_loop C (ptime_switch C) 3 k (?h @ []) ?t2 = Inr t" if "k \<le> 3" for k
    by (rule loop_field [where x' = t]) (use that in \<open>auto simp: ptime_switch_def field_reads zero_ptime_def\<close>)
  have 2: "canoto_loop C (ptime_switch C) 3 k (?f @ ?h @ []) ?t1 = Inr t" if "k \<le> 2" for k
    by (rule loop_field [where x' = ?t2]) (use that 3 in \<open>auto simp: ptime_switch_def field_reads zero_ptime_def\<close>)
  have "canoto_loop C (ptime_switch C) 3 0 (tagged (seconds t \<noteq> 0) 1 Varint (AppendUint C (seconds t)) @ ?f @ ?h @ []) zero_ptime = Inr t"
    by (rule loop_field [where x' = ?t1]) (use 2 in \<open>auto simp: ptime_switch_def field_reads zero_ptime_def\<close>)
  then show ?thesis by (simp add: ptime_UnmarshalCanotoFrom_def ptime_MarshalCanotoInto_def)
qed

lemma config_size:
  "length (config_MarshalCanotoInto C c []) = unat (config_CalculateCanotoCache C c)"
  "unat (config_CalculateCanotoCache C c) \<le> 24"
proof -
  let ?a = "tagged_size (targetToExcessScaling c \<noteq> 0) (SizeUint C (targetToExcessScaling c))"
    and ?b = "tagged_size (minPrice c \<noteq> 0) (SizeUint C (minPrice c))" and ?c = "tagged_size (staticPricing c) (SizeBool C)"
  have s: "unat (tagged_size p (SizeUint C n)) = (if p then 1 + unat (SizeUint C n) else 0)" for p n
    using uint_size_le [of n] by (intro tagged_size_bounds) simp
  have b: "unat (tagged_size p (SizeUint C n)) \<le> 11" for p n using uint_size_le [of n] by (simp add: s)
  have c: "unat ?c = (if staticPricing c then 2 else 0)" "unat ?c \<le> 2" by (simp_all add: tagged_size_def bool_size(2))
  have one: "unat (tagged_size True 1) = 2" "unat (tagged_size False 1) = 0" by (simp_all add: tagged_size_def)
  have ab: "unat (?a + ?b) = unat ?a + unat ?b" "unat (?a + ?b) \<le> 22" using unat_sum_le [OF b b] by simp_all
  have "unat (?a + ?b + ?c) = unat ?a + unat ?b + unat ?c" "unat (?a + ?b + ?c) \<le> 24"
    using unat_sum_le [OF ab(2) c(2)] ab(1) by simp_all
  then show "length (config_MarshalCanotoInto C c []) = unat (config_CalculateCanotoCache C c)"
    "unat (config_CalculateCanotoCache C c) \<le> 24"
    by (simp_all add: config_CalculateCanotoCache_def config_MarshalCanotoInto_def tagged_def s c(1) one uint_size bool_size)
qed

lemma config_roundtrip: "config_UnmarshalCanotoFrom C (config_MarshalCanotoInto C c []) = Inr c"
proof -
  let ?m = "tagged (minPrice c \<noteq> 0) 2 Varint (AppendUint C (minPrice c))" and ?s = "tagged (staticPricing c) 3 Varint (AppendBool C True)"
  let ?c1 = "zero_config\<lparr>targetToExcessScaling := targetToExcessScaling c\<rparr>"
    and ?c2 = "zero_config\<lparr>targetToExcessScaling := targetToExcessScaling c, minPrice := minPrice c\<rparr>"
  have 3: "canoto_loop C (config_switch C) 3 k (?s @ []) ?c2 = Inr c" if "k \<le> 3" for k
    by (rule loop_field [where x' = c]) (use that in \<open>auto simp: config_switch_def field_reads zero_config_def\<close>)
  have 2: "canoto_loop C (config_switch C) 3 k (?m @ ?s @ []) ?c1 = Inr c" if "k \<le> 2" for k
    by (rule loop_field [where x' = ?c2]) (use that 3 in \<open>auto simp: config_switch_def field_reads zero_config_def\<close>)
  have "canoto_loop C (config_switch C) 3 0
      (tagged (targetToExcessScaling c \<noteq> 0) 1 Varint (AppendUint C (targetToExcessScaling c)) @ ?m @ ?s @ []) zero_config = Inr c"
    by (rule loop_field [where x' = ?c1]) (use 2 in \<open>auto simp: config_switch_def field_reads zero_config_def\<close>)
  then show ?thesis by (simp add: config_UnmarshalCanotoFrom_def config_MarshalCanotoInto_def)
qed

lemma config_zero: "config_MarshalCanotoInto C c [] = [] \<longleftrightarrow> c = zero_config"
  by (auto simp: config_MarshalCanotoInto_def tagged_def zero_config_def)

text \<open>A message in a message, with the size in front, is a byte string.\<close>

lemma sized_message:
  assumes "length b = unat n"
  shows "AppendUint C n @ b = AppendBytes C b"
  using assms by (simp add: bytes_append word_of_nat_unat)

lemma gtime_fields:
  "gtime_MarshalCanotoInto C g w = w
     @ tagged (gm_Time g \<noteq> None) 1 Len (AppendBytes C (ptime_MarshalCanotoInto C (the (gm_Time g)) []))
     @ tagged (gm_target g \<noteq> 0) 2 Varint (AppendUint C (gm_target g)) @ tagged (gm_excess g \<noteq> 0) 3 Varint (AppendUint C (gm_excess g))
     @ tagged (gm_config g \<noteq> zero_config) 4 Len (AppendBytes C (config_MarshalCanotoInto C (gm_config g) []))"
proof -
  have z: "config_CalculateCanotoCache C c = 0 \<longleftrightarrow> c = zero_config" for c
    using config_size(1) [of c] config_zero [of c] by (metis length_0_conv unat_eq_zero)
  show ?thesis
    by (simp add: gtime_MarshalCanotoInto_def Let_def tagged_def z MarshalCanotoInto_append [of C _ "_ @ _"] MarshalCanotoInto_append [of C _ "_ # _"]
        sized_message [OF ptime_size(1), symmetric] sized_message [OF config_size(1), symmetric] split: option.splits)
qed

lemma sized_bounds:
  assumes "unat n \<le> m" and "m < 2 ^ 32"
  shows "unat (tagged_size present (sized C n)) \<le> m + 11"
    and "unat (tagged_size present (sized C n)) = (if present then 1 + (unat (SizeUint C n) + unat n) else 0)"
proof -
  have "unat (sized C n) = unat (SizeUint C n) + unat n" "unat (sized C n) \<le> m + 10"
    unfolding sized_def using unat_sum_le [OF uint_size_le(1) [of n] assms(1)] assms(2) by simp_all
  moreover from this have "unat (tagged_size present (sized C n)) = (if present then 1 + unat (sized C n) else 0)"
    using assms(2) by (intro tagged_size_bounds) simp
  ultimately show "unat (tagged_size present (sized C n)) \<le> m + 11"
    "unat (tagged_size present (sized C n)) = (if present then 1 + (unat (SizeUint C n) + unat n) else 0)" by simp_all
qed

lemma uint_tagged_bounds:
  "unat (tagged_size p (SizeUint C n)) = (if p then 1 + unat (SizeUint C n) else 0)" "unat (tagged_size p (SizeUint C n)) \<le> 11"
proof -
  show *: "unat (tagged_size p (SizeUint C n)) = (if p then 1 + unat (SizeUint C n) else 0)"
    using uint_size_le [of n] by (intro tagged_size_bounds) simp
  show "unat (tagged_size p (SizeUint C n)) \<le> 11" using uint_size_le [of n] by (simp add: *)
qed

lemma length_AppendBytes:
  assumes "length b = unat n" shows "length (AppendBytes C b) = unat (SizeUint C n) + unat n"
  using assms sized_message [OF assms] by (metis length_append uint_size)

lemma gtime_size:
  "length (gtime_MarshalCanotoInto C g []) = unat (gtime_CalculateCanotoCache C g)"
  "unat (gtime_CalculateCanotoCache C g) \<le> 101"
proof -
  let ?t = "case gm_Time g of None \<Rightarrow> 0 | Some t \<Rightarrow> tagged_size True (sized C (ptime_CalculateCanotoCache C t))"
    and ?a = "tagged_size (gm_target g \<noteq> 0) (SizeUint C (gm_target g))" and ?e = "tagged_size (gm_excess g \<noteq> 0) (SizeUint C (gm_excess g))"
    and ?n = "config_CalculateCanotoCache C (gm_config g)"
  let ?c = "tagged_size (?n \<noteq> 0) (sized C ?n)"
  have t: "unat ?t \<le> 44" using sized_bounds(1) [OF ptime_size(2)] by (auto split: option.splits)
  have n: "?n \<noteq> 0 \<longleftrightarrow> gm_config g \<noteq> zero_config"
    using config_size(1) [of "gm_config g"] config_zero [of "gm_config g"] by (metis length_0_conv unat_eq_zero)
  have c: "unat ?c \<le> 35" using sized_bounds(1) [OF config_size(2)] by simp
  have 1: "unat (?t + ?a) = unat ?t + unat ?a" "unat (?t + ?a) \<le> 55"
    using unat_sum_le [OF t uint_tagged_bounds(2) [of "gm_target g \<noteq> 0" "gm_target g"]] by simp_all
  have 2: "unat (?t + ?a + ?e) = unat (?t + ?a) + unat ?e" "unat (?t + ?a + ?e) \<le> 66"
    using unat_sum_le [OF 1(2) uint_tagged_bounds(2) [of "gm_excess g \<noteq> 0" "gm_excess g"]] by simp_all
  have 3: "unat (?t + ?a + ?e + ?c) = unat (?t + ?a + ?e) + unat ?c" "unat (?t + ?a + ?e + ?c) \<le> 101"
    using unat_sum_le [OF 2(2) c] by simp_all
  have d: "gtime_CalculateCanotoCache C g = ?t + ?a + ?e + ?c" by (simp add: gtime_CalculateCanotoCache_def Let_def)
  show "unat (gtime_CalculateCanotoCache C g) \<le> 101" unfolding d by (rule 3(2))
  have lt: "length (tagged (gm_Time g \<noteq> None) 1 Len (AppendBytes C (ptime_MarshalCanotoInto C (the (gm_Time g)) []))) = unat ?t"
    using sized_bounds(2) [OF ptime_size(2)] by (auto simp: tagged_def length_AppendBytes [OF ptime_size(1)] split: option.splits)
  have lc: "length (tagged (gm_config g \<noteq> zero_config) 4 Len (AppendBytes C (config_MarshalCanotoInto C (gm_config g) []))) = unat ?c"
    using sized_bounds(2) [OF config_size(2)] by (auto simp: tagged_def length_AppendBytes [OF config_size(1)] n)
  show "length (gtime_MarshalCanotoInto C g []) = unat (gtime_CalculateCanotoCache C g)"
    unfolding d 3(1) 2(1) 1(1) gtime_fields length_append lt lc
    by (simp add: tagged_def uint_tagged_bounds(1) uint_size)
qed

lemma ptime_field_read:
  "message_field C True (ptime_UnmarshalCanotoFrom C) f Len (AppendBytes C (ptime_MarshalCanotoInto C t []) @ rest) = Inr (f t, rest)"
proof -
  have "length (ptime_MarshalCanotoInto C t []) < 2 ^ 32" using ptime_size [of t] by simp
  then show ?thesis by (intro message_field_read [where v = t]) (simp_all add: ptime_roundtrip)
qed

lemma config_field_read:
  assumes "c \<noteq> zero_config"
  shows "message_field C False (config_UnmarshalCanotoFrom C) f Len (AppendBytes C (config_MarshalCanotoInto C c []) @ rest) = Inr (f c, rest)"
proof -
  have "length (config_MarshalCanotoInto C c []) < 2 ^ 32" using config_size [of c] by simp
  then show ?thesis using assms by (intro message_field_read [where v = c]) (simp_all add: config_roundtrip config_zero)
qed

lemma gtime_roundtrip: "gtime_UnmarshalCanotoFrom C (gtime_MarshalCanotoInto C g []) = Inr g"
proof -
  let ?a = "tagged (gm_target g \<noteq> 0) 2 Varint (AppendUint C (gm_target g))" and ?e = "tagged (gm_excess g \<noteq> 0) 3 Varint (AppendUint C (gm_excess g))"
    and ?c = "tagged (gm_config g \<noteq> zero_config) 4 Len (AppendBytes C (config_MarshalCanotoInto C (gm_config g) []))"
  let ?g1 = "zero_gtime\<lparr>gm_Time := gm_Time g\<rparr>" and ?g2 = "zero_gtime\<lparr>gm_Time := gm_Time g, gm_target := gm_target g\<rparr>"
    and ?g3 = "zero_gtime\<lparr>gm_Time := gm_Time g, gm_target := gm_target g, gm_excess := gm_excess g\<rparr>"
  have 4: "canoto_loop C (gtime_switch C) 4 k (?c @ []) ?g3 = Inr g" if "k \<le> 4" for k
    by (rule loop_field [where x' = g])
      (use that in \<open>auto simp: gtime_switch_def zero_gtime_def config_field_read config_field_read [where rest = "[]", simplified]\<close>)
  have 3: "canoto_loop C (gtime_switch C) 4 k (?e @ ?c @ []) ?g2 = Inr g" if "k \<le> 3" for k
    by (rule loop_field [where x' = ?g3]) (use that 4 in \<open>auto simp: gtime_switch_def field_reads zero_gtime_def\<close>)
  have 2: "canoto_loop C (gtime_switch C) 4 k (?a @ ?e @ ?c @ []) ?g1 = Inr g" if "k \<le> 2" for k
    by (rule loop_field [where x' = ?g2]) (use that 3 in \<open>auto simp: gtime_switch_def field_reads zero_gtime_def\<close>)
  have "canoto_loop C (gtime_switch C) 4 0
      (tagged (gm_Time g \<noteq> None) 1 Len (AppendBytes C (ptime_MarshalCanotoInto C (the (gm_Time g)) [])) @ ?a @ ?e @ ?c @ []) zero_gtime = Inr g"
    by (rule loop_field [where x' = ?g1]) (use 2 in \<open>auto simp: gtime_switch_def ptime_field_read zero_gtime_def\<close>)
  then show ?thesis by (simp add: gtime_UnmarshalCanotoFrom_def gtime_fields)
qed

text \<open>Execution results.\<close>

lemma read_uints_append: "read_uints C (length ls) (concat (map (AppendUint C) ls) @ rest) = Inr (ls, rest)"
  by (induction ls) (simp_all add: uint_read)

lemma sum_uint_sizes:
  assumes "length ls \<le> 100"
  shows "unat (sum_list (map (SizeUint C) ls)) = length (concat (map (AppendUint C) ls))
    \<and> unat (sum_list (map (SizeUint C) ls)) \<le> 10 * length ls"
  using assms
proof (induction ls)
  case (Cons l ls)
  then have "unat (sum_list (map (SizeUint C) ls)) \<le> 10 * length ls" by simp
  from unat_sum_le [OF uint_size_le(1) [of l] this] show ?case using Cons by (simp add: uint_size)
qed simp

lemma baseFee_size:
  "length (concat (map (AppendUint C) (limbs x))) = unat (baseFee_size C x)" "unat (baseFee_size C x) \<le> 40"
  using sum_uint_sizes [of "limbs x"] by (simp_all add: baseFee_size_def)

lemma gtime_zero: "gtime_MarshalCanotoInto C g [] = [] \<longleftrightarrow> g = zero_gtime"
  by (auto simp: gtime_fields tagged_def zero_gtime_def)

lemma gtime_size_zero: "gtime_CalculateCanotoCache C g = 0 \<longleftrightarrow> g = zero_gtime"
  using gtime_size(1) [of g] gtime_zero [of g] by (metis length_0_conv unat_eq_zero)

lemma gtime_append: "gtime_MarshalCanotoInto C g (w @ v) = w @ v @ gtime_MarshalCanotoInto C g []"
  unfolding gtime_fields [of g "w @ v"] gtime_fields [of g "[]"] by simp

lemma results_fields:
  "results_MarshalCanotoInto C r w = w
     @ tagged (rm_byGas r \<noteq> zero_gtime) 1 Len (AppendBytes C (gtime_MarshalCanotoInto C (rm_byGas r) []))
     @ tagged (rm_baseFee r \<noteq> 0) 2 Len (AppendBytes C (concat (map (AppendUint C) (limbs (rm_baseFee r)))))
     @ tagged (rm_receiptRoot r \<noteq> 0) 3 Len (AppendBytes C (hash_bytes (rm_receiptRoot r)))
     @ tagged (rm_stateRootPost r \<noteq> 0) 4 Len (AppendBytes C (hash_bytes (rm_stateRootPost r)))"
  by (simp add: results_MarshalCanotoInto_def Let_def gtime_size_zero tagged_def gtime_append
      sized_message [OF gtime_size(1), symmetric] sized_message [OF baseFee_size(1), symmetric])

lemma hash_field_read:
  assumes "h \<noteq> 0" and "h < 2 ^ 256"
  shows "hash_field C f Len (AppendBytes C (hash_bytes h) @ rest) = Inr (f h, rest)"
  using assms bytes_hash_bytes [OF assms(2)] by (simp add: hash_field_def bytes_append uint_read)

lemma baseFee_field_read:
  assumes "x \<noteq> 0"
  shows "baseFee_field C r Len (AppendBytes C (concat (map (AppendUint C) (limbs x))) @ rest) = Inr (r\<lparr>rm_baseFee := x\<rparr>, rest)"
proof -
  have "length (concat (map (AppendUint C) (limbs x))) < 2 ^ 32" using baseFee_size [of x] by simp
  then show ?thesis using assms read_uints_append [of "limbs x" "[]"]
    by (simp add: baseFee_field_def bytes_read from_limbs_limbs del: length_concat)
qed

lemma gtime_field_read:
  assumes "g \<noteq> zero_gtime"
  shows "message_field C False (gtime_UnmarshalCanotoFrom C) f Len (AppendBytes C (gtime_MarshalCanotoInto C g []) @ rest) = Inr (f g, rest)"
proof -
  have "length (gtime_MarshalCanotoInto C g []) < 2 ^ 32" using gtime_size [of g] by simp
  then show ?thesis using assms by (intro message_field_read [where v = g]) (simp_all add: gtime_roundtrip gtime_zero)
qed

lemma results_roundtrip:
  assumes "rm_receiptRoot r < 2 ^ 256" and "rm_stateRootPost r < 2 ^ 256"
  shows "results_UnmarshalCanotoFrom C (results_MarshalCanotoInto C r []) = Inr r"
proof -
  let ?b = "tagged (rm_baseFee r \<noteq> 0) 2 Len (AppendBytes C (concat (map (AppendUint C) (limbs (rm_baseFee r)))))"
    and ?p = "tagged (rm_receiptRoot r \<noteq> 0) 3 Len (AppendBytes C (hash_bytes (rm_receiptRoot r)))"
    and ?s = "tagged (rm_stateRootPost r \<noteq> 0) 4 Len (AppendBytes C (hash_bytes (rm_stateRootPost r)))"
  let ?r1 = "zero_results\<lparr>rm_byGas := rm_byGas r\<rparr>" and ?r2 = "zero_results\<lparr>rm_byGas := rm_byGas r, rm_baseFee := rm_baseFee r\<rparr>"
    and ?r3 = "zero_results\<lparr>rm_byGas := rm_byGas r, rm_baseFee := rm_baseFee r, rm_receiptRoot := rm_receiptRoot r\<rparr>"
  have 4: "canoto_loop C (results_switch C) 4 k (?s @ []) ?r3 = Inr r" if "k \<le> 4" for k
    by (rule loop_field [where x' = r])
      (use that assms in \<open>auto simp: results_switch_def zero_results_def hash_field_read hash_field_read [where rest = "[]", simplified]\<close>)
  have 3: "canoto_loop C (results_switch C) 4 k (?p @ ?s @ []) ?r2 = Inr r" if "k \<le> 3" for k
    by (rule loop_field [where x' = ?r3]) (use that 4 assms in \<open>auto simp: results_switch_def hash_field_read zero_results_def\<close>)
  have 2: "canoto_loop C (results_switch C) 4 k (?b @ ?p @ ?s @ []) ?r1 = Inr r" if "k \<le> 2" for k
    by (rule loop_field [where x' = ?r2]) (use that 3 in \<open>auto simp: results_switch_def baseFee_field_read zero_results_def\<close>)
  have "canoto_loop C (results_switch C) 4 0
      (tagged (rm_byGas r \<noteq> zero_gtime) 1 Len (AppendBytes C (gtime_MarshalCanotoInto C (rm_byGas r) [])) @ ?b @ ?p @ ?s @ []) zero_results = Inr r"
    by (rule loop_field [where x' = ?r1]) (use 2 in \<open>auto simp: results_switch_def gtime_field_read zero_results_def\<close>)
  then show ?thesis by (simp add: results_UnmarshalCanotoFrom_def results_fields)
qed

lemma hash_size: "SizeBytes C (hash_bytes h) = sized C 32"
  by (simp add: bytes_size sized_def)

lemma results_size: "length (results_MarshalCanotoInto C r []) = unat (results_CalculateCanotoCache C r)"
proof -
  let ?n = "gtime_CalculateCanotoCache C (rm_byGas r)" and ?m = "baseFee_size C (rm_baseFee r)"
  let ?g = "tagged_size (?n \<noteq> 0) (sized C ?n)" and ?b = "tagged_size (rm_baseFee r \<noteq> 0) (sized C ?m)"
    and ?p = "tagged_size (rm_receiptRoot r \<noteq> 0) (sized C 32)" and ?s = "tagged_size (rm_stateRootPost r \<noteq> 0) (sized C 32)"
  have h: "unat (32 :: u64) \<le> 32" by simp
  note g = sized_bounds [OF gtime_size(2) [of "rm_byGas r"], simplified] and b = sized_bounds [OF baseFee_size(2) [of "rm_baseFee r"], simplified]
    and hs = sized_bounds [OF h, simplified]
  have 1: "unat (?g + ?b) = unat ?g + unat ?b" "unat (?g + ?b) \<le> 163" using unat_sum_le [OF g(1) b(1)] by simp_all
  have 2: "unat (?g + ?b + ?p) = unat (?g + ?b) + unat ?p" "unat (?g + ?b + ?p) \<le> 206" using unat_sum_le [OF 1(2) hs(1)] by simp_all
  have 3: "unat (?g + ?b + ?p + ?s) = unat (?g + ?b + ?p) + unat ?s" using unat_sum_le [OF 2(2) hs(1)] by simp
  have d: "results_CalculateCanotoCache C r = ?g + ?b + ?p + ?s" by (simp add: results_CalculateCanotoCache_def Let_def hash_size)
  have lh: "length (AppendBytes C (hash_bytes x)) = unat (SizeUint C 32) + 32" for x using length_AppendBytes [of "hash_bytes x" 32] by simp
  show ?thesis unfolding d 3 2(1) 1(1) results_fields length_append
    by (simp add: tagged_def g(2) b(2) hs(2) lh length_AppendBytes [OF gtime_size(1)] length_AppendBytes [OF baseFee_size(1)] gtime_size_zero del: length_concat)
qed

end

subsection \<open>Canonical encodings\<close>

abbreviation is_bytes :: "encoding \<Rightarrow> bool" where
  "is_bytes bs \<equiv> list_all (\<lambda>b. b < 256) bs"

text \<open>The field of each message that has a given number.\<close>

definition ptime_enc :: "canoto \<Rightarrow> nat \<Rightarrow> ptime \<Rightarrow> encoding" where
  "ptime_enc C f t = (if f = 1 then tagged (seconds t \<noteq> 0) 1 Varint (AppendUint C (seconds t))
     else if f = 2 then tagged (fraction t \<noteq> 0) 2 Varint (AppendUint C (fraction t))
     else if f = 3 then tagged (hertz t \<noteq> 0) 3 Varint (AppendUint C (hertz t)) else [])"

definition config_enc :: "canoto \<Rightarrow> nat \<Rightarrow> config \<Rightarrow> encoding" where
  "config_enc C f c = (if f = 1 then tagged (targetToExcessScaling c \<noteq> 0) 1 Varint (AppendUint C (targetToExcessScaling c))
     else if f = 2 then tagged (minPrice c \<noteq> 0) 2 Varint (AppendUint C (minPrice c))
     else if f = 3 then tagged (staticPricing c) 3 Varint (AppendBool C True) else [])"

definition gtime_enc :: "canoto \<Rightarrow> nat \<Rightarrow> gtime_message \<Rightarrow> encoding" where
  "gtime_enc C f g =
    (if f = 1 then tagged (gm_Time g \<noteq> None) 1 Len (AppendBytes C (ptime_MarshalCanotoInto C (the (gm_Time g)) []))
     else if f = 2 then tagged (gm_target g \<noteq> 0) 2 Varint (AppendUint C (gm_target g))
     else if f = 3 then tagged (gm_excess g \<noteq> 0) 3 Varint (AppendUint C (gm_excess g))
     else if f = 4 then tagged (gm_config g \<noteq> zero_config) 4 Len (AppendBytes C (config_MarshalCanotoInto C (gm_config g) [])) else [])"

definition results_enc :: "canoto \<Rightarrow> nat \<Rightarrow> results_message \<Rightarrow> encoding" where
  "results_enc C f r =
    (if f = 1 then tagged (rm_byGas r \<noteq> zero_gtime) 1 Len (AppendBytes C (gtime_MarshalCanotoInto C (rm_byGas r) []))
     else if f = 2 then tagged (rm_baseFee r \<noteq> 0) 2 Len (AppendBytes C (concat (map (AppendUint C) (limbs (rm_baseFee r)))))
     else if f = 3 then tagged (rm_receiptRoot r \<noteq> 0) 3 Len (AppendBytes C (hash_bytes (rm_receiptRoot r)))
     else if f = 4 then tagged (rm_stateRootPost r \<noteq> 0) 4 Len (AppendBytes C (hash_bytes (rm_stateRootPost r))) else [])"

context canoto_lib
begin

text \<open>
  If every field the \<^verbatim>\<open>switch\<close> accepts is in the bytes as \<open>enc\<close> writes it, then the loop accepts only the
  concatenation of the fields.
\<close>

lemma loop_canonical:
  assumes switch: "\<And>f wt bs m m' rest. switch f wt bs m = Inr (m', rest) \<Longrightarrow> is_bytes bs \<Longrightarrow> 0 < f \<Longrightarrow> f \<le> maxField \<Longrightarrow>
      canoto_tag f wt # bs = enc f m' @ rest \<and> (\<forall>g. g \<noteq> f \<longrightarrow> enc g m' = enc g m)" and "maxField < 16"
  shows "canoto_loop C switch maxField k bs m = Inr y \<Longrightarrow> is_bytes bs \<Longrightarrow> \<forall>f\<ge>k. enc f m = [] \<Longrightarrow>
    bs = concat (map (\<lambda>f. enc f y) [k..<Suc maxField]) \<and> (\<forall>f<k. enc f y = enc f m)"
proof (induction "maxField + 1 - k" arbitrary: k bs m rule: less_induct)
  case less
  note run = less.prems(1) [unfolded canoto_loop.simps [of C switch maxField k]]
  show ?case
  proof (cases "bs = []")
    case False
    then obtain f wt bs' m' rest where tag: "ReadTag C bs = Inr (f, wt, bs')" and f: "k \<le> f" "0 < f" "f \<le> maxField"
      and sw: "switch f wt bs' m = Inr (m', rest)" and tl: "canoto_loop C switch maxField (f + 1) rest m' = Inr y"
      using run by (auto split: sum.splits if_splits prod.splits)
    have bs: "bs = canoto_tag f wt # bs'" using tag_canonical [OF tag] f assms(2) by simp
    then have e: "bs = enc f m' @ rest" "\<And>g. g \<noteq> f \<Longrightarrow> enc g m' = enc g m" using switch [OF sw] less.prems(2) f by auto
    have "rest = concat (map (\<lambda>f. enc f y) [f + 1..<Suc maxField]) \<and> (\<forall>g<f + 1. enc g y = enc g m')"
      using f e less.prems(2,3) by (intro less.hyps [OF _ tl]) auto
    then have r: "rest = concat (map (\<lambda>f. enc f y) [f + 1..<Suc maxField])" and y: "\<And>g. g < f + 1 \<Longrightarrow> enc g y = enc g m'" by auto
    have "[k..<Suc maxField] = [k..<f] @ f # [f + 1..<Suc maxField]"
      using f upt_add_eq_append [of k f "Suc maxField - f"] upt_conv_Cons [of f "Suc maxField"] by simp
    moreover have "concat (map (\<lambda>f. enc f y) [k..<f]) = []" using y e(2) less.prems(3) by auto
    ultimately show ?thesis using e r y f by simp
  qed (use run less.prems(3) in auto)
qed

lemma uint_field_canonical:
  assumes "uint_field C g wt bs = Inr (m', rest)"
  obtains n where "wt = Varint" "n \<noteq> 0" "bs = AppendUint C n @ rest" "m' = g n"
  using assms uint_canonical [of bs] by (auto simp: uint_field_def res_bind_eq_Inr split: if_splits prod.splits)

lemma bool_field_canonical:
  assumes "bool_field C g wt bs = Inr (m', rest)"
  shows "wt = Varint" "bs = AppendBool C True @ rest" "m' = g True"
  using assms bool_canonical [of bs] by (auto simp: bool_field_def res_bind_eq_Inr split: if_splits prod.splits)

lemma message_field_canonical:
  assumes "message_field C pointer unmarshal g wt bs = Inr (m', rest)" and "is_bytes bs"
  obtains b v where "wt = Len" "bs = AppendBytes C b @ rest" "is_bytes b" "pointer \<or> b \<noteq> []" "unmarshal b = Inr v" "m' = g v"
proof -
  from assms(1) obtain b v where *: "wt = Len" "ReadBytes C bs = Inr (b, rest)" "pointer \<or> b \<noteq> []" "unmarshal b = Inr v" "m' = g v"
    by (auto simp: message_field_def res_bind_eq_Inr split: if_splits prod.splits)
  have bs: "bs = AppendBytes C b @ rest" by (rule bytes_canonical [OF *(2)])
  with assms(2) have "is_bytes b" by (simp add: bytes_append)
  with * bs show thesis by (intro that) auto
qed

text \<open>The same, as the premise of \<open>loop_canonical\<close>.\<close>

lemma uint_switch:
  assumes "uint_field C s wt bs = Inr (m', rest)"
    and "\<And>n. n \<noteq> 0 \<Longrightarrow> enc f (s n) = canoto_tag f Varint # AppendUint C n" and "\<And>n g. g \<noteq> f \<Longrightarrow> enc g (s n) = enc g m"
  shows "canoto_tag f wt # bs = enc f m' @ rest \<and> (\<forall>g. g \<noteq> f \<longrightarrow> enc g m' = enc g m)"
  using assms(1) by (rule uint_field_canonical) (simp add: assms(2,3))

lemma bool_switch:
  assumes "bool_field C s wt bs = Inr (m', rest)"
    and "enc f (s True) = canoto_tag f Varint # AppendBool C True" and "\<And>g. g \<noteq> f \<Longrightarrow> enc g (s True) = enc g m"
  shows "canoto_tag f wt # bs = enc f m' @ rest \<and> (\<forall>g. g \<noteq> f \<longrightarrow> enc g m' = enc g m)"
  using bool_field_canonical [OF assms(1)] by (simp add: assms(2,3))

lemma message_switch:
  assumes "message_field C pointer unmarshal s wt bs = Inr (m', rest)" and "is_bytes bs"
    and "\<And>b v. unmarshal b = Inr v \<Longrightarrow> is_bytes b \<Longrightarrow> marshal v = b"
    and "\<And>v. pointer \<or> marshal v \<noteq> [] \<Longrightarrow> enc f (s v) = canoto_tag f Len # AppendBytes C (marshal v)"
    and "\<And>v g. g \<noteq> f \<Longrightarrow> enc g (s v) = enc g m"
  shows "canoto_tag f wt # bs = enc f m' @ rest \<and> (\<forall>g. g \<noteq> f \<longrightarrow> enc g m' = enc g m)"
proof -
  obtain b v where *: "wt = Len" "bs = AppendBytes C b @ rest" "is_bytes b" "pointer \<or> b \<noteq> []" "unmarshal b = Inr v" "m' = s v"
    using message_field_canonical [OF assms(1,2)] by metis
  have "marshal v = b" using assms(3) * by simp
  then show ?thesis using * assms(4) [of v] assms(5) by simp
qed

lemma upt_five: "[0..<Suc 4] = [0, 1, 2, 3, 4]"
  by (simp add: upt_rec)

lemma ptime_canonical:
  assumes "ptime_UnmarshalCanotoFrom C bs = Inr t" and "is_bytes bs"
  shows "ptime_MarshalCanotoInto C t [] = bs"
proof -
  have sw: "canoto_tag f wt # bs = ptime_enc C f m' @ rest \<and> (\<forall>g. g \<noteq> f \<longrightarrow> ptime_enc C g m' = ptime_enc C g m)"
    if "ptime_switch C f wt bs m = Inr (m', rest)" for f wt bs m m' rest
  proof -
    from that consider "f = 1" "uint_field C (\<lambda>n. m\<lparr>seconds := n\<rparr>) wt bs = Inr (m', rest)"
      | "f = 2" "uint_field C (\<lambda>n. m\<lparr>fraction := n\<rparr>) wt bs = Inr (m', rest)"
      | "f = 3" "uint_field C (\<lambda>n. m\<lparr>hertz := n\<rparr>) wt bs = Inr (m', rest)"
      by (auto simp: ptime_switch_def split: if_splits)
    then show ?thesis
    proof cases
      case 1
      show ?thesis unfolding 1(1) by (rule uint_switch [where enc = "ptime_enc C", OF 1(2)]) (auto simp: ptime_enc_def tagged_def)
    next
      case 2
      show ?thesis unfolding 2(1) by (rule uint_switch [where enc = "ptime_enc C", OF 2(2)]) (auto simp: ptime_enc_def tagged_def)
    next
      case 3
      show ?thesis unfolding 3(1) by (rule uint_switch [where enc = "ptime_enc C", OF 3(2)]) (auto simp: ptime_enc_def tagged_def)
    qed
  qed
  have "bs = concat (map (\<lambda>f. ptime_enc C f t) [0..<Suc 3])"
    using loop_canonical [where enc = "ptime_enc C", OF sw _ assms(1) [unfolded ptime_UnmarshalCanotoFrom_def] assms(2)]
    by (simp add: ptime_enc_def tagged_def zero_ptime_def)
  then show ?thesis by (simp add: ptime_MarshalCanotoInto_def ptime_enc_def upt_four)
qed

lemma config_canonical:
  assumes "config_UnmarshalCanotoFrom C bs = Inr c" and "is_bytes bs"
  shows "config_MarshalCanotoInto C c [] = bs"
proof -
  have sw: "canoto_tag f wt # bs = config_enc C f m' @ rest \<and> (\<forall>g. g \<noteq> f \<longrightarrow> config_enc C g m' = config_enc C g m)"
    if "config_switch C f wt bs m = Inr (m', rest)" for f wt bs m m' rest
  proof -
    from that consider "f = 1" "uint_field C (\<lambda>n. m\<lparr>targetToExcessScaling := n\<rparr>) wt bs = Inr (m', rest)"
      | "f = 2" "uint_field C (\<lambda>n. m\<lparr>minPrice := n\<rparr>) wt bs = Inr (m', rest)"
      | "f = 3" "bool_field C (\<lambda>b. m\<lparr>staticPricing := b\<rparr>) wt bs = Inr (m', rest)"
      by (auto simp: config_switch_def split: if_splits)
    then show ?thesis
    proof cases
      case 1
      show ?thesis unfolding 1(1) by (rule uint_switch [where enc = "config_enc C", OF 1(2)]) (auto simp: config_enc_def tagged_def)
    next
      case 2
      show ?thesis unfolding 2(1) by (rule uint_switch [where enc = "config_enc C", OF 2(2)]) (auto simp: config_enc_def tagged_def)
    next
      case 3
      show ?thesis unfolding 3(1) by (rule bool_switch [where enc = "config_enc C", OF 3(2)]) (auto simp: config_enc_def tagged_def)
    qed
  qed
  have "bs = concat (map (\<lambda>f. config_enc C f c) [0..<Suc 3])"
    using loop_canonical [where enc = "config_enc C", OF sw _ assms(1) [unfolded config_UnmarshalCanotoFrom_def] assms(2)]
    by (simp add: config_enc_def tagged_def zero_config_def)
  then show ?thesis by (simp add: config_MarshalCanotoInto_def config_enc_def upt_four)
qed

lemma gtime_canonical:
  assumes "gtime_UnmarshalCanotoFrom C bs = Inr g" and "is_bytes bs"
  shows "gtime_MarshalCanotoInto C g [] = bs"
proof -
  have sw: "canoto_tag f wt # bs = gtime_enc C f m' @ rest \<and> (\<forall>g. g \<noteq> f \<longrightarrow> gtime_enc C g m' = gtime_enc C g m)"
    if "gtime_switch C f wt bs m = Inr (m', rest)" and b: "is_bytes bs" for f wt bs m m' rest
  proof -
    from that(1) consider "f = 1" "message_field C True (ptime_UnmarshalCanotoFrom C) (\<lambda>t. m\<lparr>gm_Time := Some t\<rparr>) wt bs = Inr (m', rest)"
      | "f = 2" "uint_field C (\<lambda>n. m\<lparr>gm_target := n\<rparr>) wt bs = Inr (m', rest)"
      | "f = 3" "uint_field C (\<lambda>n. m\<lparr>gm_excess := n\<rparr>) wt bs = Inr (m', rest)"
      | "f = 4" "message_field C False (config_UnmarshalCanotoFrom C) (\<lambda>v. m\<lparr>gm_config := v\<rparr>) wt bs = Inr (m', rest)"
      by (auto simp: gtime_switch_def split: if_splits)
    then show ?thesis
    proof cases
      case 1
      show ?thesis unfolding 1(1)
        by (rule message_switch [where enc = "gtime_enc C" and marshal = "\<lambda>t. ptime_MarshalCanotoInto C t []", OF 1(2) b ptime_canonical])
          (auto simp: gtime_enc_def tagged_def)
    next
      case 2
      show ?thesis unfolding 2(1) by (rule uint_switch [where enc = "gtime_enc C", OF 2(2)]) (auto simp: gtime_enc_def tagged_def)
    next
      case 3
      show ?thesis unfolding 3(1) by (rule uint_switch [where enc = "gtime_enc C", OF 3(2)]) (auto simp: gtime_enc_def tagged_def)
    next
      case 4
      show ?thesis unfolding 4(1)
        by (rule message_switch [where enc = "gtime_enc C" and marshal = "\<lambda>c. config_MarshalCanotoInto C c []", OF 4(2) b config_canonical])
          (auto simp: gtime_enc_def tagged_def config_zero)
    qed
  qed
  have "bs = concat (map (\<lambda>f. gtime_enc C f g) [0..<Suc 4])"
    using loop_canonical [where enc = "gtime_enc C", OF sw _ assms(1) [unfolded gtime_UnmarshalCanotoFrom_def] assms(2)]
    by (simp add: gtime_enc_def tagged_def zero_gtime_def)
  then show ?thesis unfolding gtime_fields upt_five by (simp add: gtime_enc_def)
qed

lemma read_uints_canonical:
  "read_uints C n bs = Inr (ls, rest) \<Longrightarrow> length ls = n \<and> bs = concat (map (AppendUint C) ls) @ rest"
  by (induction n arbitrary: bs ls) (auto simp: res_bind_eq_Inr dest!: uint_canonical)

lemma baseFee_switch:
  assumes "baseFee_field C m wt bs = Inr (m', rest)"
  shows "canoto_tag 2 wt # bs = results_enc C 2 m' @ rest \<and> (\<forall>g. g \<noteq> 2 \<longrightarrow> results_enc C g m' = results_enc C g m)"
proof -
  obtain b ls where *: "wt = Len" "ReadBytes C bs = Inr (b, rest)" "read_uints C 4 b = Inr (ls, [])" "from_limbs ls \<noteq> 0"
    "m' = m\<lparr>rm_baseFee := from_limbs ls\<rparr>"
    using assms by (auto simp: baseFee_field_def res_bind_eq_Inr split: if_splits prod.splits)
  have "bs = AppendBytes C b @ rest" by (rule bytes_canonical [OF *(2)])
  then show ?thesis using * read_uints_canonical [OF *(3)] by (auto simp: results_enc_def tagged_def limbs_from_limbs)
qed

lemma hash_switch:
  assumes "hash_field C s wt bs = Inr (m', rest)" and "is_bytes bs"
    and "\<And>h. h \<noteq> 0 \<Longrightarrow> enc f (s h) = canoto_tag f Len # AppendBytes C (hash_bytes h)" and "\<And>h g. g \<noteq> f \<Longrightarrow> enc g (s h) = enc g m"
  shows "canoto_tag f wt # bs = enc f m' @ rest \<and> (\<forall>g. g \<noteq> f \<longrightarrow> enc g m' = enc g m)"
proof -
  obtain r where *: "wt = Len" "ReadUint C bs = Inr (32, r)" "32 \<le> length r" "bytes_hash (take 32 r) \<noteq> 0"
    "m' = s (bytes_hash (take 32 r))" "rest = drop 32 r"
    using assms(1) by (auto simp: hash_field_def res_bind_eq_Inr not_less split: if_splits prod.splits)
  have bs: "bs = AppendUint C 32 @ r" by (rule uint_canonical [OF *(2)])
  then have "is_bytes (take 32 r)" using assms(2) by (auto simp: list_all_iff dest: in_set_takeD)
  then have "hash_bytes (bytes_hash (take 32 r)) = take 32 r" using *(3) by (intro hash_bytes_hash) simp_all
  then have "bs = AppendBytes C (hash_bytes (bytes_hash (take 32 r))) @ rest" using * bs by (simp add: bytes_append min_def)
  then show ?thesis using * assms(3,4) by simp
qed

lemma results_canonical:
  assumes "results_UnmarshalCanotoFrom C bs = Inr r" and "is_bytes bs"
  shows "results_MarshalCanotoInto C r [] = bs"
proof -
  have sw: "canoto_tag f wt # bs = results_enc C f m' @ rest \<and> (\<forall>g. g \<noteq> f \<longrightarrow> results_enc C g m' = results_enc C g m)"
    if "results_switch C f wt bs m = Inr (m', rest)" and b: "is_bytes bs" for f wt bs m m' rest
  proof -
    from that(1) consider "f = 1" "message_field C False (gtime_UnmarshalCanotoFrom C) (\<lambda>g. m\<lparr>rm_byGas := g\<rparr>) wt bs = Inr (m', rest)"
      | "f = 2" "baseFee_field C m wt bs = Inr (m', rest)"
      | "f = 3" "hash_field C (\<lambda>h. m\<lparr>rm_receiptRoot := h\<rparr>) wt bs = Inr (m', rest)"
      | "f = 4" "hash_field C (\<lambda>h. m\<lparr>rm_stateRootPost := h\<rparr>) wt bs = Inr (m', rest)"
      by (auto simp: results_switch_def split: if_splits)
    then show ?thesis
    proof cases
      case 1
      show ?thesis unfolding 1(1)
        by (rule message_switch [where enc = "results_enc C" and marshal = "\<lambda>g. gtime_MarshalCanotoInto C g []", OF 1(2) b gtime_canonical])
          (auto simp: results_enc_def tagged_def gtime_zero)
    next
      case 2
      show ?thesis unfolding 2(1) by (rule baseFee_switch [OF 2(2)])
    next
      case 3
      show ?thesis unfolding 3(1) by (rule hash_switch [where enc = "results_enc C", OF 3(2) b]) (auto simp: results_enc_def tagged_def)
    next
      case 4
      show ?thesis unfolding 4(1) by (rule hash_switch [where enc = "results_enc C", OF 4(2) b]) (auto simp: results_enc_def tagged_def)
    qed
  qed
  have "bs = concat (map (\<lambda>f. results_enc C f r) [0..<Suc 4])"
    using loop_canonical [where enc = "results_enc C", OF sw _ assms(1) [unfolded results_UnmarshalCanotoFrom_def] assms(2)]
    by (simp add: results_enc_def tagged_def zero_results_def)
  then show ?thesis unfolding results_fields upt_five by (simp add: results_enc_def)
qed

end

section \<open>The wire format\<close>

text \<open>
  The laws hold of the format the library documents: integers in base 128, least significant digit first, with a
  bit on every digit but the last and no zero digit at the end.
\<close>

fun leb :: "nat \<Rightarrow> encoding" where
  "leb n = (if n < 128 then [n] else (128 + n mod 128) # leb (n div 128))"

declare leb.simps [simp del]

fun read_leb :: "encoding \<Rightarrow> (nat \<times> encoding) res" where
  "read_leb [] = Inl ErrUnexpectedEOF"
| "read_leb (b # bs) =
     (if b < 128 then Inr (b, bs)
      else if 256 \<le> b then Inl (ErrOther ''not a byte'')
      else case read_leb bs of
        Inl err \<Rightarrow> Inl err
      | Inr (n, rest) \<Rightarrow> if n = 0 then Inl (ErrOther ''canoto: padded zeroes'') else Inr (b - 128 + 128 * n, rest))"

lemma read_leb_append: "read_leb (leb n @ rest) = Inr (n, rest)"
proof (induction n rule: leb.induct)
  case (1 n)
  show ?case
  proof (cases "n < 128")
    case False
    then have "n div 128 \<noteq> 0" and "n mod 128 + 128 * (n div 128) = n" by simp_all
    then show ?thesis using 1 [OF False] False by (simp add: leb.simps [of n])
  qed (simp add: leb.simps)
qed

lemma read_leb_canonical: "read_leb bs = Inr (n, rest) \<Longrightarrow> bs = leb n @ rest"
proof (induction bs arbitrary: n rule: read_leb.induct)
  case (2 b bs)
  show ?case
  proof (cases "b < 128")
    case True
    then show ?thesis using 2 by (simp add: leb.simps)
  next
    case False
    then obtain m where m: "read_leb bs = Inr (m, rest)" "b < 256" "m \<noteq> 0" "n = b - 128 + 128 * m"
      using 2(2) by (auto split: if_splits sum.splits)
    have "bs = leb m @ rest" using 2(1) [OF False _ m(1)] m(2) by simp
    moreover have "leb n = b # leb m"
    proof -
      obtain d where d: "b = 128 + d" using False by (metis le_Suc_ex not_less)
      then have "n = d + 128 * m" using m(4) by simp
      then have "\<not> n < 128" "n mod 128 = d" "n div 128 = m" using m(2,3) d by simp_all
      then show ?thesis unfolding leb.simps [of n] d by simp
    qed
    ultimately show ?thesis by simp
  qed
qed simp

lemma length_leb: "n < 128 ^ Suc k \<Longrightarrow> 0 < length (leb n) \<and> length (leb n) \<le> Suc k"
proof (induction k arbitrary: n)
  case (Suc k)
  have "n div 128 < 128 ^ Suc k" using Suc.prems by (simp add: less_mult_imp_div_less)
  then show ?case using Suc.IH [of "n div 128"] by (auto simp: leb.simps [of n])
qed (simp add: leb.simps)

definition leb_ReadUint :: "encoding \<Rightarrow> (u64 \<times> encoding) res" where
  "leb_ReadUint bs = res_bind (read_leb bs) (\<lambda>(n, rest). if 2 ^ 64 \<le> n then Inl ErrOverflow else Inr (word_of_nat n, rest))"

definition leb_ReadTag :: "encoding \<Rightarrow> (nat \<times> wire_type \<times> encoding) res" where
  "leb_ReadTag bs = res_bind (read_leb bs) (\<lambda>(n, rest).
     if n mod 8 = 0 then Inr (n div 8, Varint, rest) else if n mod 8 = 1 then Inr (n div 8, I64, rest)
     else if n mod 8 = 2 then Inr (n div 8, Len, rest) else if n mod 8 = 5 then Inr (n div 8, I32, rest)
     else Inl (ErrOther ''canoto: invalid wire type''))"

definition leb_AppendUint :: "u64 \<Rightarrow> encoding" where
  "leb_AppendUint n = leb (unat n)"

definition leb128 :: canoto where
  "leb128 = \<lparr>ReadTag = leb_ReadTag, ReadUint = leb_ReadUint,
     ReadBool = (\<lambda>bs. case bs of [] \<Rightarrow> Inl ErrUnexpectedEOF
       | b # rest \<Rightarrow> if b = 0 then Inr (False, rest) else if b = 1 then Inr (True, rest) else Inl (ErrOther ''canoto: invalid bool'')),
     ReadBytes = (\<lambda>bs. res_bind (leb_ReadUint bs) (\<lambda>(n, rest).
       if length rest < unat n then Inl ErrUnexpectedEOF else Inr (take (unat n) rest, drop (unat n) rest))),
     AppendUint = leb_AppendUint, AppendBool = (\<lambda>b. [if b then 1 else 0]),
     AppendBytes = (\<lambda>b. leb_AppendUint (word_of_nat (length b)) @ b),
     SizeUint = (\<lambda>n. word_of_nat (length (leb_AppendUint n))), SizeBool = 1,
     SizeBytes = (\<lambda>b. word_of_nat (length (leb_AppendUint (word_of_nat (length b)))) + word_of_nat (length b))\<rparr>"

lemma leb_uint_read: "leb_ReadUint (leb_AppendUint n @ rest) = Inr (n, rest)"
proof -
  have "unat n < 2 ^ 64" using unsigned_less [of n, where 'a = nat] by simp
  then show ?thesis by (simp add: leb_ReadUint_def leb_AppendUint_def read_leb_append word_of_nat_unat)
qed

lemma leb_uint_canonical: "leb_ReadUint bs = Inr (n, rest) \<Longrightarrow> bs = leb_AppendUint n @ rest"
  by (auto simp: leb_ReadUint_def leb_AppendUint_def res_bind_eq_Inr unat_of_nat split: if_splits dest!: read_leb_canonical)

lemma leb_uint_size: "0 < length (leb_AppendUint n) \<and> length (leb_AppendUint n) \<le> 10"
proof -
  have "unat n < 128 ^ Suc 9" using unsigned_less [of n, where 'a = nat] by simp
  from length_leb [OF this] show ?thesis by (simp add: leb_AppendUint_def)
qed

lemma unat_leb_size: "unat (word_of_nat (length (leb_AppendUint n)) :: u64) = length (leb_AppendUint n)"
  using leb_uint_size [of n] by (simp add: unat_of_nat)

lemma leb_tag:
  "0 < f \<Longrightarrow> f < 16 \<Longrightarrow> leb_ReadTag (canoto_tag f wt # rest) = Inr (f, wt, rest)"
  "leb_ReadTag bs = Inr (f, wt, rest) \<Longrightarrow> f < 16 \<Longrightarrow> bs = canoto_tag f wt # rest"
proof -
  assume f: "0 < f" "f < 16"
  have c: "wire_code wt < 8" by (cases wt) simp_all
  have "(8 * f + wire_code wt) mod 8 = wire_code wt" "(8 * f + wire_code wt) div 8 = f" "8 * f + wire_code wt < 128"
    using f c by simp_all
  then show "leb_ReadTag (canoto_tag f wt # rest) = Inr (f, wt, rest)" by (cases wt) (simp_all add: leb_ReadTag_def canoto_tag_def)
next
  assume r: "leb_ReadTag bs = Inr (f, wt, rest)" and f: "f < 16"
  then obtain n where n: "read_leb bs = Inr (n, rest)" "n div 8 = f" "n mod 8 = wire_code wt"
    unfolding leb_ReadTag_def res_bind_eq_Inr by (clarsimp split: if_splits)
  have tag: "n = canoto_tag f wt" using mult_div_mod_eq [of 8 n] by (simp add: n(2,3) canoto_tag_def)
  moreover have "n < 128" using f n(2) by (simp add: div_less_iff_less_mult)
  ultimately show "bs = canoto_tag f wt # rest" using read_leb_canonical [OF n(1)] by (simp add: leb.simps)
qed

interpretation leb128: canoto_lib leb128
proof
  show "ReadTag leb128 (canoto_tag f wt # rest) = Inr (f, wt, rest)" if "0 < f" "f < 16" for f wt rest
    using leb_tag(1) that by (simp add: leb128_def)
  show "bs = canoto_tag f wt # rest" if "ReadTag leb128 bs = Inr (f, wt, rest)" "f < 16" for bs f wt rest
    using leb_tag(2) that by (simp add: leb128_def)
  show "bs = AppendUint leb128 n @ rest" if "ReadUint leb128 bs = Inr (n, rest)" for bs n rest
    using leb_uint_canonical that by (simp add: leb128_def)
  show "bs = AppendBool leb128 True @ rest" if "ReadBool leb128 bs = Inr (True, rest)" for bs rest
    using that by (auto simp: leb128_def split: list.splits if_splits)
  show "ReadBytes leb128 (AppendBytes leb128 b @ rest) = Inr (b, rest)" if "length b < 2 ^ 32" for b rest
    using that by (simp add: leb128_def leb_uint_read unat_of_nat)
  show "bs = AppendBytes leb128 b @ rest" if "ReadBytes leb128 bs = Inr (b, rest)" for bs b rest
    using that by (auto simp: leb128_def res_bind_eq_Inr min_def word_of_nat_unat split: if_splits dest!: leb_uint_canonical)
qed (use leb_uint_size in \<open>auto simp: leb128_def leb_uint_read unat_leb_size\<close>)

section \<open>The codec of execution results\<close>

text \<open>
  The messages of the results that a block keeps. The ephemeral fields have no place in a message, and the gas
  time of a block always has a proxy time: using a decoded message without one would dereference nil.
\<close>

definition gtime_to_message :: "gtime \<Rightarrow> gtime_message" where
  "gtime_to_message g = \<lparr>gm_Time = Some (gt_time g), gm_target = target g, gm_excess = excess g, gm_config = gt_config g\<rparr>"

definition to_message :: "execution_results \<Rightarrow> results_message" where
  "to_message e = \<lparr>rm_byGas = gtime_to_message (byGas e), rm_baseFee = er_baseFee e, rm_receiptRoot = receiptRoot e,
     rm_stateRootPost = stateRootPost e\<rparr>"

definition from_message :: "results_message \<Rightarrow> execution_results res" where
  "from_message r =
     (case gm_Time (rm_byGas r) of
        None \<Rightarrow> Inl (Panic ''nil pointer dereference'')
      | Some t \<Rightarrow> Inr \<lparr>byGas = \<lparr>gt_time = t, target = gm_target (rm_byGas r), excess = gm_excess (rm_byGas r),
            gt_config = gm_config (rm_byGas r)\<rparr>,
          er_baseFee = rm_baseFee r, receiptRoot = rm_receiptRoot r, stateRootPost = rm_stateRootPost r,
          byWall = zero_time, er_receipts = []\<rparr>)"

definition results_MarshalCanoto :: "canoto \<Rightarrow> results_message \<Rightarrow> encoding" where
  "results_MarshalCanoto C c = results_MarshalCanotoInto C c []"

definition results_UnmarshalCanoto :: "canoto \<Rightarrow> encoding \<Rightarrow> results_message res" where
  "results_UnmarshalCanoto C bs = results_UnmarshalCanotoFrom C bs"

text \<open>An environment with the generated codec.\<close>

definition with_canoto :: "canoto \<Rightarrow> ('kv, 'x, 'e) env_scheme \<Rightarrow> ('kv, 'x, 'e) env_scheme" where
  "with_canoto C E = E\<lparr>MarshalCanoto := (\<lambda>e. results_MarshalCanoto C (to_message e)),
     UnmarshalCanoto := (\<lambda>bs. res_bind (results_UnmarshalCanoto C bs) from_message)\<rparr>"

lemma from_to_message: "from_message (to_message e) = Inr (without_ephemeral e)"
  by (simp add: from_message_def to_message_def gtime_to_message_def without_ephemeral_def)

text \<open>C17: The generated codec of execution results is lossless: decoding what \<open>MarshalCanoto\<close> wrote for results with
  32-byte hashes gives the results back, the encoding has exactly the size that \<open>CalculateCanotoCache\<close> calculated
  for the buffer (no 64-bit sum of sizes wraps), and an environment with this codec satisfies the law that
  restoring blocks after a restart relies on.\<close>

theorem results_codec_roundtrip:
  assumes "canoto_lib C" and "rm_receiptRoot r < 2 ^ 256" and "rm_stateRootPost r < 2 ^ 256"
  shows "results_UnmarshalCanoto C (results_MarshalCanoto C r) = Inr r
    \<and> length (results_MarshalCanoto C r) = unat (results_CalculateCanotoCache C r)
    \<and> canoto_laws (with_canoto C E)"
proof -
  note rt = canoto_lib.results_roundtrip [OF assms(1)]
  have "canoto_laws (with_canoto C E)"
    by (auto simp: canoto_laws_def with_canoto_def results_MarshalCanoto_def results_UnmarshalCanoto_def rt to_message_def
        from_to_message [unfolded to_message_def])
  then show ?thesis
    using rt [OF assms(2,3)] canoto_lib.results_size [OF assms(1)] by (simp add: results_MarshalCanoto_def results_UnmarshalCanoto_def)
qed

text \<open>C18: The codec is canonical: a string of bytes that \<open>UnmarshalCanoto\<close> accepts as execution results is the one
  encoding of the decoded results, so that no two byte strings decode to equal results. Fields out of order, repeated
  or unknown, of the wrong wire type, with an explicit zero value, of the wrong length or with bytes left over are all
  rejected, at every level of nesting. The size that parsing caches, the length of its input, is therefore the one
  that \<open>CalculateCanotoCache\<close> would calculate.\<close>

theorem results_codec_canonical:
  assumes "canoto_lib C" and "is_bytes bs" and "results_UnmarshalCanoto C bs = Inr r"
  shows "results_MarshalCanoto C r = bs \<and> results_CalculateCanotoCache C r = word_of_nat (length bs)"
proof -
  have "results_MarshalCanotoInto C r [] = bs"
    using canoto_lib.results_canonical [OF assms(1) _ assms(2)] assms(3) by (simp add: results_UnmarshalCanoto_def)
  then show ?thesis
    using canoto_lib.results_size [OF assms(1), of r] by (auto simp: results_MarshalCanoto_def word_of_nat_unat)
qed

definition sample_results :: results_message where
  "sample_results = \<lparr>rm_byGas = \<lparr>gm_Time = Some \<lparr>seconds = 300, fraction = 0, hertz = 7\<rparr>, gm_target = 1, gm_excess = 0,
       gm_config = \<lparr>targetToExcessScaling = 87, minPrice = 1, staticPricing = True\<rparr>\<rparr>,
     rm_baseFee = 0, rm_receiptRoot = 0, rm_stateRootPost = 5\<rparr>"

definition sample_encoding :: encoding where
  "sample_encoding = [10, 17, 10, 5, 8, 172, 2, 24, 7, 16, 1, 34, 6, 8, 87, 16, 1, 24, 1] @ [34, 32]
     @ [0, 0, 0, 0, 0, 0, 0, 0, 0, 0, 0, 0, 0, 0, 0, 0, 0, 0, 0, 0, 0, 0, 0, 0, 0, 0, 0, 0, 0, 0, 0, 5]"

lemma sample_results_encoding: "results_MarshalCanoto leb128 sample_results = sample_encoding"
proof -
  have "hash_bytes 5 = [0, 0, 0, 0, 0, 0, 0, 0, 0, 0, 0, 0, 0, 0, 0, 0, 0, 0, 0, 0, 0, 0, 0, 0, 0, 0, 0, 0, 0, 0, 0, 5]"
    by (simp add: hash_bytes_def upt_rec)
  then show ?thesis
    by (simp add: results_MarshalCanoto_def results_MarshalCanotoInto_def sample_results_def sample_encoding_def
        gtime_CalculateCanotoCache_def config_CalculateCanotoCache_def ptime_CalculateCanotoCache_def tagged_def tagged_size_def sized_def
        gtime_MarshalCanotoInto_def ptime_MarshalCanotoInto_def config_MarshalCanotoInto_def leb128_def leb_AppendUint_def leb.simps
        Let_def canoto_tag_def)
qed

lemma sample_results_hashes: "rm_receiptRoot sample_results < 2 ^ 256" "rm_stateRootPost sample_results < 2 ^ 256"
  by (simp_all add: sample_results_def)

theorem results_codec_roundtrip_witness:
  "results_UnmarshalCanoto leb128 sample_encoding = Inr sample_results \<and> unat (results_CalculateCanotoCache leb128 sample_results) = 53
    \<and> canoto_laws (with_canoto leb128 sample_env)"
  using results_codec_roundtrip [OF leb128.canoto_lib_axioms sample_results_hashes, of sample_env]
  unfolding sample_results_encoding by (simp add: sample_encoding_def)

theorem results_codec_canonical_witness:
  "is_bytes sample_encoding \<and> results_UnmarshalCanoto leb128 sample_encoding = Inr sample_results
    \<and> results_MarshalCanoto leb128 sample_results = sample_encoding \<and> results_CalculateCanotoCache leb128 sample_results = 53"
proof -
  have "is_bytes sample_encoding" by (simp add: sample_encoding_def)
  moreover have "results_UnmarshalCanoto leb128 sample_encoding = Inr sample_results"
    using leb128.results_roundtrip [OF sample_results_hashes] sample_results_encoding
    by (simp add: results_UnmarshalCanoto_def results_MarshalCanoto_def)
  ultimately show ?thesis using results_codec_canonical [OF leb128.canoto_lib_axioms, of sample_encoding sample_results]
    by (simp add: sample_encoding_def)
qed

end
