(* ===== verification/Float64.thy ===== *)
theory Float64
  imports Prelude "HOL-Library.Log_Nat"
begin

text \<open>
  The part of Go's \<^verbatim>\<open>float64\<close> arithmetic that the fee history uses: conversion from \<^verbatim>\<open>uint64\<close>,
  multiplication, division and truncation, on non-negative numbers.

  A \<^verbatim>\<open>float64\<close> is the rational it stands for, and every operation rounds its exact result to the
  nearest number with a significand of 53 bits, ties to even. The smallest and largest exponents
  are left out: a result below the normal range truncates to zero here as it does in Go, and the
  operands come from 64-bit integers and percentages, so that none is above it.
\<close>

section \<open>Rounding\<close>

definition round_even :: "rat \<Rightarrow> int" where
  "round_even x =
     (let f = \<lfloor>x\<rfloor>; d = x - of_int f
      in if d < 1 / 2 then f else if d > 1 / 2 then f + 1 else if even f then f else f + 1)"

definition log2_floor :: "rat \<Rightarrow> int" where
  "log2_floor x =
     (let (a, b) = quotient_of x; k = bitlen a - bitlen b
      in if 2 powi k \<le> x then k else k - 1)"

definition f64 :: "rat \<Rightarrow> rat" where
  "f64 x = (if x \<le> 0 then 0
     else let u = 2 powi (log2_floor x - 52) in of_int (round_even (x / u)) * u)"

definition f64_of_uint64 :: "u64 \<Rightarrow> rat" where
  "f64_of_uint64 n = f64 (of_nat (unat n))"

definition f64_mul :: "rat \<Rightarrow> rat \<Rightarrow> rat" where
  "f64_mul x y = f64 (x * y)"

text \<open>Division by zero is not a number or infinite; both are \<open>None\<close>.\<close>

definition f64_div :: "rat \<Rightarrow> rat \<Rightarrow> rat option" where
  "f64_div x y = (if y = 0 then None else Some (f64 (x / y)))"

definition uint64_of_f64 :: "rat \<Rightarrow> u64" where
  "uint64_of_f64 x = word_of_int \<lfloor>x\<rfloor>"

section \<open>Rounding is monotone\<close>

lemma round_even_bounds: "\<lfloor>x\<rfloor> \<le> round_even x" "round_even x \<le> \<lfloor>x\<rfloor> + 1"
  by (simp_all add: round_even_def Let_def)

lemma round_even_mono:
  assumes "x \<le> y"
  shows "round_even x \<le> round_even y"
proof (cases "\<lfloor>x\<rfloor> = \<lfloor>y\<rfloor>")
  case True
  then show ?thesis using assms by (auto simp: round_even_def Let_def)
next
  case False
  then have "\<lfloor>x\<rfloor> + 1 \<le> \<lfloor>y\<rfloor>" using floor_mono [OF assms] by linarith
  then show ?thesis using round_even_bounds [of x] round_even_bounds [of y] by linarith
qed

lemma round_even_less: "x < of_int n \<Longrightarrow> round_even x \<le> n"
  using round_even_bounds(2) [of x] floor_less_iff [of x n] by linarith

lemma round_even_ge: "of_int n \<le> x \<Longrightarrow> n \<le> round_even x"
  using round_even_bounds(1) [of x] le_floor_iff [of n x] by linarith

lemma bitlen_powi:
  assumes "0 < (a :: int)"
  shows "2 powi (bitlen a - 1) \<le> (of_int a :: rat)" and "(of_int a :: rat) < 2 powi bitlen a"
proof -
  have b: "2 ^ nat (bitlen a - 1) \<le> a" "a < 2 ^ nat (bitlen a)" using bitlen_bounds [OF assms] by auto
  have "bitlen a \<noteq> 0"
  proof
    assume "bitlen a = 0"
    then show False using b(2) assms by simp
  qed
  then have "0 < bitlen a" using bitlen_nonneg [of a] by linarith
  then have e: "2 powi (bitlen a - 1) = (of_int (2 ^ nat (bitlen a - 1)) :: rat)" "2 powi bitlen a = (of_int (2 ^ nat (bitlen a)) :: rat)"
    by (simp_all add: power_int_def)
  show "2 powi (bitlen a - 1) \<le> (of_int a :: rat)" unfolding e(1) of_int_le_iff by (rule b(1))
  show "(of_int a :: rat) < 2 powi bitlen a" unfolding e(2) of_int_less_iff by (rule b(2))
qed

lemma log2_floor_bounds:
  assumes "0 < x"
  shows "2 powi log2_floor x \<le> x" and "x < 2 powi (log2_floor x + 1)"
proof -
  obtain a b where q: "quotient_of x = (a, b)" by fastforce
  have x: "x = of_int a / of_int b" "0 < b" using quotient_of_div [OF q] quotient_of_denom_pos [OF q] by auto
  then have a: "0 < a" using assms by (simp add: zero_less_divide_iff)
  define k where "k = bitlen a - bitlen b"
  have "k - 1 = (bitlen a - 1) - bitlen b" by (simp add: k_def)
  then have "2 powi (k - 1) = 2 powi (bitlen a - 1) / (2 powi bitlen b :: rat)"
    by (simp only: power_int_diff [OF disjI1 [OF zero_neq_numeral [symmetric]]])
  also have "\<dots> \<le> of_int a / of_int b"
    using bitlen_powi [OF a] bitlen_powi [OF x(2)] x(2) a by (intro frac_le) auto
  finally have lo: "2 powi (k - 1) \<le> x" by (simp add: x(1))
  have "of_int a / of_int b < 2 powi bitlen a / (2 powi (bitlen b - 1) :: rat)"
    using bitlen_powi [OF a] bitlen_powi [OF x(2)] a by (intro frac_less) auto
  also have "\<dots> = 2 powi (k + 1)" by (simp add: k_def power_int_diff power_int_add)
  finally have hi: "x < 2 powi (k + 1)" by (simp add: x(1))
  show "2 powi log2_floor x \<le> x" "x < 2 powi (log2_floor x + 1)"
    using lo hi by (auto simp: log2_floor_def q Let_def k_def [symmetric])
qed

lemma log2_floor_mono:
  assumes "0 < x" and "x \<le> y"
  shows "log2_floor x \<le> log2_floor y"
proof (rule ccontr)
  assume "\<not> log2_floor x \<le> log2_floor y"
  then have "(2 :: rat) powi (log2_floor y + 1) \<le> 2 powi log2_floor x" by (intro power_int_increasing) auto
  then show False using log2_floor_bounds [of x] log2_floor_bounds [of y] assms by linarith
qed

lemma f64_bounds:
  assumes "0 < x"
  shows "2 powi log2_floor x \<le> f64 x" and "f64 x \<le> 2 powi (log2_floor x + 1)"
proof -
  let ?e = "log2_floor x" and ?u = "2 powi (log2_floor x - 52) :: rat"
  have u: "0 < ?u" "?u * 2 ^ 52 = 2 powi ?e" "?u * 2 ^ 53 = 2 powi (?e + 1)"
  proof -
    show "0 < ?u" by simp
    have add: "(2 :: rat) powi (i + j) = 2 powi i * 2 powi j" for i j by (simp add: power_int_add)
    have "?u * 2 ^ 52 = 2 powi (?e - 52 + 52)" "?u * 2 ^ 53 = 2 powi (?e - 52 + 53)"
      unfolding add by (simp_all add: power_int_numeral)
    then show "?u * 2 ^ 52 = 2 powi ?e" "?u * 2 ^ 53 = 2 powi (?e + 1)" by (simp_all add: add.commute)
  qed
  note lb = log2_floor_bounds [OF assms]
  have "of_int (2 ^ 52) \<le> x / ?u" using lb(1) u by (simp add: pos_le_divide_eq mult.commute)
  then have "(of_int (2 ^ 52) :: rat) \<le> of_int (round_even (x / ?u))" by (simp only: of_int_le_iff round_even_ge)
  then show "2 powi ?e \<le> f64 x"
    using assms u mult_right_mono [of "2 ^ 52" "of_int (round_even (x / ?u))" ?u] by (simp add: f64_def Let_def mult.commute)
  have "x / ?u < of_int (2 ^ 53)" using lb(2) u by (simp add: pos_divide_less_eq mult.commute)
  then have "of_int (round_even (x / ?u)) \<le> (of_int (2 ^ 53) :: rat)" by (simp only: of_int_le_iff round_even_less)
  then show "f64 x \<le> 2 powi (?e + 1)"
    using assms u mult_right_mono [of "of_int (round_even (x / ?u))" "2 ^ 53" ?u] by (simp add: f64_def Let_def mult.commute)
qed

lemma f64_nonneg: "0 \<le> f64 x"
proof (cases "0 < x")
  case True
  have "(0 :: rat) < 2 powi log2_floor x" by simp
  then show ?thesis using f64_bounds(1) [OF True] by linarith
qed (simp add: f64_def)

lemma f64_mono:
  assumes "x \<le> y"
  shows "f64 x \<le> f64 y"
proof (cases "0 < x")
  case False
  then show ?thesis using f64_nonneg by (simp add: f64_def)
next
  case True
  then have y: "0 < y" using assms by simp
  show ?thesis
  proof (cases "log2_floor x = log2_floor y")
    case True
    let ?u = "2 powi (log2_floor x - 52) :: rat"
    have "round_even (x / ?u) \<le> round_even (y / ?u)" using assms by (intro round_even_mono divide_right_mono) simp_all
    then have "of_int (round_even (x / ?u)) * ?u \<le> of_int (round_even (y / ?u)) * ?u" by (intro mult_right_mono) simp_all
    then show ?thesis using \<open>0 < x\<close> y True by (simp add: f64_def Let_def)
  next
    case False
    then have "log2_floor x + 1 \<le> log2_floor y" using log2_floor_mono [OF \<open>0 < x\<close> assms] by simp
    then have "(2 :: rat) powi (log2_floor x + 1) \<le> 2 powi log2_floor y" by (intro power_int_increasing) auto
    then show ?thesis using f64_bounds(2) [OF \<open>0 < x\<close>] f64_bounds(1) [OF y] by linarith
  qed
qed

end
