(* ===== verification/Gasprice.thy ===== *)
theory Gasprice
  imports Float64 Access
begin

text \<open>
  Gas-price suggestions and fee history (\<^verbatim>\<open>src/gasprice/estimator.go\<close>, \<^verbatim>\<open>src/gasprice/block_cache.go\<close>).

  The chain that the estimator asks is a record of functions, as is the LRU cache, which is a
  library's: it may forget an entry at any time but never returns a value that was not the last one
  put. \<open>slices.SortFunc\<close> by tip is \<open>sort_key\<close>; nothing below depends on how it orders equal tips.
  The locking of \<^verbatim>\<open>SuggestGasTipCap\<close> makes its second half atomic, so that it is split where it
  acquires the write lock.
\<close>

section \<open>The block cache (block_cache.go)\<close>

record gp_tx =
  gp_gas :: u64
  gp_tip :: int

record gp_block =
  gp_timestamp :: u64
  gp_gasUsed :: u64
  gp_gasLimit :: u64
  gp_baseFee :: int
  gp_txs :: "gp_tx list"

text \<open>What the estimator calls: \<^verbatim>\<open>types.Transaction.EffectiveGasTipValue\<close>, the chain and the cache.\<close>

record 'c gp_backend =
  gp_EffectiveGasTipValue :: "transaction \<Rightarrow> int \<Rightarrow> int"
  ResolveBlockNumber :: "rpc_number \<Rightarrow> u64 res"
  BlockByNumber :: "u64 \<Rightarrow> eth_block option res"
  LastAcceptedNumber :: u64
  LastAcceptedBaseFee :: "int option"
  cache_Get :: "'c \<Rightarrow> u64 \<Rightarrow> gp_block option"
  cache_Put :: "u64 \<Rightarrow> gp_block \<Rightarrow> 'c \<Rightarrow> 'c"

definition newTx :: "('c, 'b) gp_backend_scheme \<Rightarrow> transaction \<Rightarrow> int \<Rightarrow> gp_tx" where
  "newTx B tx baseFee = \<lparr>gp_gas = tx_Gas tx, gp_tip = gp_EffectiveGasTipValue B tx baseFee\<rparr>"

definition newBlock :: "('c, 'b) gp_backend_scheme \<Rightarrow> eth_block \<Rightarrow> gp_block" where
  "newBlock B blk =
     (let hdr = eb_header blk; fee = (case BaseFee hdr of None \<Rightarrow> 0 | Some f \<Rightarrow> f)
      in \<lparr>gp_timestamp = hdr_Time hdr, gp_gasUsed = GasUsed hdr, gp_gasLimit = GasLimit hdr, gp_baseFee = fee,
          gp_txs = sort_key gp_tip (map (\<lambda>tx. newTx B tx fee) (eb_txs blk))\<rparr>)"

definition tip_threshold :: "gp_block \<Rightarrow> rat \<Rightarrow> u64" where
  "tip_threshold b p =
     uint64_of_f64 (case f64_div (f64_mul (f64_of_uint64 (gp_gasUsed b)) p) 100 of None \<Rightarrow> 0 | Some x \<Rightarrow> x)"

text \<open>The inner loop: from a transaction and the gas of those up to it, to the first that reaches the threshold.\<close>

function tip_loop :: "gp_tx list \<Rightarrow> u64 \<Rightarrow> nat \<Rightarrow> u64 \<Rightarrow> nat \<times> u64" where
  "tip_loop txs threshold txIndex sumGas =
     (if sumGas < threshold \<and> txIndex < length txs - 1
      then tip_loop txs threshold (txIndex + 1) (sumGas + gp_gas (txs ! (txIndex + 1)))
      else (txIndex, sumGas))"
  by auto
termination by (relation "measure (\<lambda>(txs, _, i, _). length txs - i)") auto

declare tip_loop.simps [simp del]

fun tip_outer :: "gp_block \<Rightarrow> rat list \<Rightarrow> nat \<Rightarrow> u64 \<Rightarrow> int list" where
  "tip_outer b [] txIndex sumGas = []"
| "tip_outer b (p # ps) txIndex sumGas =
     (case tip_loop (gp_txs b) (tip_threshold b p) txIndex sumGas of
        (i, s) \<Rightarrow> gp_tip (gp_txs b ! i) # tip_outer b ps i s)"

definition tipPercentiles :: "gp_block \<Rightarrow> rat list \<Rightarrow> int list" where
  "tipPercentiles b percentiles =
     (if gp_txs b = [] then map (\<lambda>_. 0) percentiles
      else tip_outer b percentiles 0 (gp_gas (gp_txs b ! 0)))"

definition cacheBlock :: "('c, 'b) gp_backend_scheme \<Rightarrow> eth_block \<Rightarrow> 'c \<Rightarrow> gp_block \<times> 'c" where
  "cacheBlock B blk c = (newBlock B blk, cache_Put B (word_of_int (Number (eb_header blk))) (newBlock B blk) c)"

definition getBlock :: "('c, 'b) gp_backend_scheme \<Rightarrow> u64 \<Rightarrow> 'c \<Rightarrow> gp_block option \<times> 'c" where
  "getBlock B n c =
     (case cache_Get B c n of
        Some blk \<Rightarrow> (Some blk, c)
      | None \<Rightarrow>
          (case BlockByNumber B n of
             Inl _ \<Rightarrow> (None, c)
           | Inr None \<Rightarrow> (None, c)
           | Inr (Some blk) \<Rightarrow> (case cacheBlock B blk c of (b, c') \<Rightarrow> (Some b, c'))))"

section \<open>The estimator (estimator.go)\<close>

record gp_config =
  gp_Now :: "gotime option"
  MinSuggestedTip :: "int option"
  SuggestedTipPercentile :: u64
  MaxSuggestedTip :: "int option"
  SuggestedTipMaxBlocks :: u64
  SuggestedTipMaxDuration :: duration
  HistoryMaxBlocksFromHead :: u64
  HistoryMaxBlocks :: u64

definition DefaultConfig :: "gotime \<Rightarrow> gp_config" where
  "DefaultConfig now =
     \<lparr>gp_Now = Some now, MinSuggestedTip = Some 1, SuggestedTipPercentile = 40, MaxSuggestedTip = Some 150,
      SuggestedTipMaxBlocks = 20, SuggestedTipMaxDuration = 60 * time_Second,
      HistoryMaxBlocksFromHead = 25000, HistoryMaxBlocks = 2048\<rparr>"

definition gp_validate :: "gp_config \<Rightarrow> go_error option" where
  "gp_validate c =
     (case (gp_Now c, MinSuggestedTip c, MaxSuggestedTip c) of
        (None, _, _) \<Rightarrow> Some (ErrOther ''config Now must be non-nil'')
      | (Some _, None, _) \<Rightarrow> Some (ErrOther ''config MinSuggestedTip must be non-nil'')
      | (Some _, Some _, None) \<Rightarrow> Some (ErrOther ''config MaxSuggestedTip must be non-nil'')
      | (Some _, Some lo, Some hi) \<Rightarrow>
          if SuggestedTipPercentile c = 0 \<or> SuggestedTipPercentile c > 100
          then Some (ErrOther ''config SuggestedTipPercentile must be in (0, 100]'')
          else if lo > hi then Some (ErrOther ''config MinSuggestedTip must be <= MaxSuggestedTip'')
          else None)"

record 'c estimator =
  last_number :: u64
  last_price :: int
  blockCache :: 'c

definition cache_size :: "gp_config \<Rightarrow> u64" where
  "cache_size c = max (SuggestedTipMaxBlocks c) (HistoryMaxBlocksFromHead c + HistoryMaxBlocks c) + 5"

text \<open>\<open>newCache\<close> makes an empty cache of the given size.\<close>

definition NewEstimator :: "(u64 \<Rightarrow> 'c) \<Rightarrow> gp_config \<Rightarrow> 'c estimator res" where
  "NewEstimator newCache c =
     (case gp_validate c of
        Some err \<Rightarrow> Inl err
      | None \<Rightarrow> Inr \<lparr>last_number = 0, last_price = the (MinSuggestedTip c), blockCache = newCache (cache_size c)\<rparr>)"

lemma unat_pred_less:
  fixes m n :: u64
  assumes "m < n"
  shows "unat (n - 1) < unat n"
proof -
  have "n \<noteq> 0" using assms by auto
  then have "unat (n - 1) = unat n - 1" "0 < unat n" by (simp_all add: unat_minus_one unat_gt_0)
  then show ?thesis by simp
qed

text \<open>The loop over the recent blocks, from the newest down.\<close>

function collect_tips :: "('c, 'b) gp_backend_scheme \<Rightarrow> u64 \<Rightarrow> u64 \<Rightarrow> u64 \<Rightarrow> gp_tx list \<Rightarrow> 'c \<Rightarrow> gp_tx list \<times> 'c" where
  "collect_tips B tooOld recentUnix n tips c =
     (if n > tooOld
      then (case getBlock B n c of
              (None, c') \<Rightarrow> (tips, c')
            | (Some b, c') \<Rightarrow>
                if gp_timestamp b < recentUnix then (tips, c')
                else collect_tips B tooOld recentUnix (n - 1) (tips @ gp_txs b) c')
      else (tips, c))"
  by auto
termination
  by (relation "measure (\<lambda>(_, _, _, n, _, _). unat n)") (auto intro: unat_pred_less)

declare collect_tips.simps [simp del]

definition suggested_price :: "gp_config \<Rightarrow> int \<Rightarrow> gp_tx list \<Rightarrow> int" where
  "suggested_price c lastPrice tips =
     (let n = length tips
      in if n > 0
         then min (max (gp_tip (sort_key gp_tip tips ! ((n - 1) * unat (SuggestedTipPercentile c) div 100)))
                (the (MinSuggestedTip c))) (the (MaxSuggestedTip c))
         else lastPrice)"

text \<open>The part of \<^verbatim>\<open>SuggestGasTipCap\<close> under the write lock, with the number read before.\<close>

definition SuggestGasTipCap_locked :: "('c, 'b) gp_backend_scheme \<Rightarrow> gp_config \<Rightarrow> u64 \<Rightarrow> 'c estimator \<Rightarrow> int \<times> 'c estimator" where
  "SuggestGasTipCap_locked B c lastAcceptedNumber e =
     (if lastAcceptedNumber \<le> last_number e then (last_price e, e)
      else
        let tooOld = BoundedSubtract lastAcceptedNumber (SuggestedTipMaxBlocks c) 0;
            recentUnix = word_of_int (Time_Unix (the (gp_Now c) - SuggestedTipMaxDuration c));
            (tips, ch) = collect_tips B tooOld recentUnix lastAcceptedNumber [] (blockCache e);
            price = suggested_price c (last_price e) tips
        in (price, e\<lparr>last_number := lastAcceptedNumber, last_price := price, blockCache := ch\<rparr>))"

definition SuggestGasTipCap :: "('c, 'b) gp_backend_scheme \<Rightarrow> gp_config \<Rightarrow> 'c estimator \<Rightarrow> int \<times> 'c estimator" where
  "SuggestGasTipCap B c e =
     (if LastAcceptedNumber B \<le> last_number e then (last_price e, e)
      else SuggestGasTipCap_locked B c (LastAcceptedNumber B) e)"

section \<open>Fee history (estimator.go)\<close>

definition maxPercentiles :: nat where
  "maxPercentiles = 100"

definition ErrBadPercentile :: go_error where
  "ErrBadPercentile = ErrOther ''percentile out of range or misordered''"

fun percentiles_from :: "rat option \<Rightarrow> rat list \<Rightarrow> bool" where
  "percentiles_from prev [] \<longleftrightarrow> True"
| "percentiles_from prev (p # ps) \<longleftrightarrow>
     \<not> (p < 0 \<or> p > 100) \<and> (case prev of None \<Rightarrow> True | Some q \<Rightarrow> \<not> p \<le> q) \<and> percentiles_from (Some p) ps"

definition validatePercentiles :: "rat list \<Rightarrow> go_error option" where
  "validatePercentiles percentiles =
     (if length percentiles > maxPercentiles then Some (Wrap [ErrBadPercentile])
      else if percentiles_from None percentiles then None
      else Some (Wrap [ErrBadPercentile]))"

definition ErrHistoryDepthExhausted :: go_error where
  "ErrHistoryDepthExhausted = ErrOther ''requested block is too far behind accepted head''"

definition ErrMissingBlock :: go_error where
  "ErrMissingBlock = ErrOther ''missing block''"

record fee_history =
  lowestHeight :: u64
  rewards :: "int list list"
  baseFees :: "int option list"
  portionFull :: "rat option list"

text \<open>The loop over the blocks; \<open>cancelled n\<close> says whether the context is done before block \<open>n\<close>.\<close>

fun fee_loop :: "('c, 'b) gp_backend_scheme \<Rightarrow> (u64 \<Rightarrow> bool) \<Rightarrow> rat list \<Rightarrow> u64 list \<Rightarrow> 'c
    \<Rightarrow> (int list list \<times> int option list \<times> rat option list) res \<times> 'c" where
  "fee_loop B cancelled ps [] c = (Inr ([], [], []), c)"
| "fee_loop B cancelled ps (n # ns) c =
     (if cancelled n then (Inl ErrContextDone, c)
      else case getBlock B n c of
        (None, c') \<Rightarrow> (Inl (Wrap [ErrMissingBlock]), c')
      | (Some b, c') \<Rightarrow>
          (case fee_loop B cancelled ps ns c' of
             (Inl e, c'') \<Rightarrow> (Inl e, c'')
           | (Inr (rw, bf, gr), c'') \<Rightarrow>
               (Inr (if ps = [] then [] else tipPercentiles b ps # rw, Some (gp_baseFee b) # bf,
                     f64_div (f64_of_uint64 (gp_gasUsed b)) (f64_of_uint64 (gp_gasLimit b)) # gr), c'')))"

text \<open>The base fee after the last block: the bound of the last accepted block, or the next block's.\<close>

definition next_base_fee :: "('c, 'b) gp_backend_scheme \<Rightarrow> u64 \<Rightarrow> 'c \<Rightarrow> int option res \<times> 'c" where
  "next_base_fee B lastN c =
     (if lastN = LastAcceptedNumber B then (Inr (LastAcceptedBaseFee B), c)
      else case getBlock B (lastN + 1) c of
        (Some b, c') \<Rightarrow> (Inr (Some (gp_baseFee b)), c')
      | (None, c') \<Rightarrow> (Inl (Wrap [ErrMissingBlock]), c'))"

text \<open>The base fee that \<^verbatim>\<open>FeeHistory\<close> takes from the last accepted block.\<close>

definition accepted_base_fee :: "price_fun \<Rightarrow> ('kv, 'x, 'z) world_scheme \<Rightarrow> ptr \<Rightarrow> int option" where
  "accepted_base_fee calc w b =
     (case WorstCaseBounds w b of
        None \<Rightarrow> BaseFee (Header w b)
      | Some bnds \<Rightarrow> Some (uint (gastime_BaseFee calc (LatestEndTime bnds))))"

definition history_range :: "u64 \<Rightarrow> u64 \<Rightarrow> u64 list" where
  "history_range first lastN = map word_of_nat [unat first ..< unat lastN + 1]"

definition FeeHistory :: "('c, 'b) gp_backend_scheme \<Rightarrow> gp_config \<Rightarrow> (u64 \<Rightarrow> bool) \<Rightarrow> u64 \<Rightarrow> rpc_number \<Rightarrow> rat list
    \<Rightarrow> 'c estimator \<Rightarrow> fee_history res \<times> 'c estimator" where
  "FeeHistory B c cancelled blocks lastBlock percentiles e =
     (case validatePercentiles percentiles of
        Some err \<Rightarrow> (Inl err, e)
      | None \<Rightarrow>
     (case ResolveBlockNumber B lastBlock of
        Inl err \<Rightarrow> (Inl err, e)
      | Inr lastN \<Rightarrow>
          if lastN < BoundedSubtract (LastAcceptedNumber B) (HistoryMaxBlocksFromHead c) 0
          then (Inl (Wrap [ErrHistoryDepthExhausted]), e)
          else
            let blocks = min (min blocks (HistoryMaxBlocks c)) (lastN + 1)
            in if blocks = 0
               then (Inr \<lparr>lowestHeight = 0, rewards = [], baseFees = [], portionFull = []\<rparr>, e)
               else
                 let first = lastN + 1 - blocks
                 in (case fee_loop B cancelled percentiles (history_range first lastN) (blockCache e) of
                       (Inl err, ch) \<Rightarrow> (Inl err, e\<lparr>blockCache := ch\<rparr>)
                     | (Inr (rw, bf, gr), ch) \<Rightarrow>
                         (case next_base_fee B lastN ch of
                            (Inl err, ch) \<Rightarrow> (Inl err, e\<lparr>blockCache := ch\<rparr>)
                          | (Inr f, ch) \<Rightarrow>
                              (Inr \<lparr>lowestHeight = first, rewards = rw, baseFees = bf @ [f], portionFull = gr\<rparr>,
                               e\<lparr>blockCache := ch\<rparr>)))))"

section \<open>Tip percentiles\<close>

text \<open>
  What a percentile means: the lowest tip such that the transactions that tip at most that much
  have the threshold's share of the gas, or the highest tip when all together have less.
\<close>

definition gas_at_most :: "gp_tx list \<Rightarrow> int \<Rightarrow> nat" where
  "gas_at_most txs t = sum_list (map (\<lambda>x. unat (gp_gas x)) (filter (\<lambda>x. gp_tip x \<le> t) txs))"

definition weighted_tip :: "gp_tx list \<Rightarrow> nat \<Rightarrow> int" where
  "weighted_tip txs threshold =
     (let good = filter (\<lambda>t. threshold \<le> gas_at_most txs t) (map gp_tip txs)
      in if good = [] then Max (set (map gp_tip txs)) else Min (set good))"

definition gas_upto :: "gp_tx list \<Rightarrow> nat \<Rightarrow> nat" where
  "gas_upto txs i = sum_list (map (\<lambda>x. unat (gp_gas x)) (take (Suc i) txs))"

lemma gas_upto_Suc: "Suc i < length txs \<Longrightarrow> gas_upto txs (Suc i) = gas_upto txs i + unat (gp_gas (txs ! Suc i))"
  by (simp add: gas_upto_def take_Suc_conv_app_nth [of "Suc i"])

lemma sum_list_take_mono:
  fixes f :: "'a \<Rightarrow> nat"
  assumes "i \<le> j"
  shows "sum_list (map f (take i xs)) \<le> sum_list (map f (take j xs))"
proof -
  have "take j xs = take i xs @ drop i (take j xs)" using assms by (metis append_take_drop_id min.absorb1 take_take)
  then have "sum_list (map f (take j xs)) = sum_list (map f (take i xs)) + sum_list (map f (drop i (take j xs)))"
    by (metis map_append sum_list_append)
  then show ?thesis by simp
qed

lemma gas_upto_total: "gas_upto txs i \<le> sum_list (map (\<lambda>x. unat (gp_gas x)) txs)"
  using sum_list_take_mono [of "Suc i" "max (Suc i) (length txs)" "\<lambda>x. unat (gp_gas x)" txs] by (simp add: gas_upto_def)

lemma tip_loop_spec:
  assumes "sum_list (map (\<lambda>x. unat (gp_gas x)) txs) < 2 ^ 64" and "i < length txs" and "unat s = gas_upto txs i"
    and "tip_loop txs thr i s = (j, s')"
  shows "i \<le> j \<and> j < length txs \<and> unat s' = gas_upto txs j \<and> (j = length txs - 1 \<or> unat thr \<le> gas_upto txs j)
    \<and> (\<forall>k. i \<le> k \<and> k < j \<longrightarrow> gas_upto txs k < unat thr)"
  using assms(2-)
proof (induction "length txs - i" arbitrary: i s rule: less_induct)
  case less
  show ?case
  proof (cases "s < thr \<and> i < length txs - 1")
    case True
    then have i: "Suc i < length txs" by linarith
    then have g: "gas_upto txs (i + 1) = unat s + unat (gp_gas (txs ! (i + 1)))"
      using less.prems(2) gas_upto_Suc [of i txs] by simp
    have "unat (s + gp_gas (txs ! (i + 1))) = gas_upto txs (i + 1)"
      using assms(1) gas_upto_total [of txs "i + 1"] g by (subst unat_add_lem [THEN iffD1]) simp_all
    moreover have "tip_loop txs thr (i + 1) (s + gp_gas (txs ! (i + 1))) = (j, s')"
      using less.prems(3) True by (simp add: tip_loop.simps [of txs thr i s])
    ultimately have ih: "i + 1 \<le> j \<and> j < length txs \<and> unat s' = gas_upto txs j
      \<and> (j = length txs - 1 \<or> unat thr \<le> gas_upto txs j) \<and> (\<forall>k. i + 1 \<le> k \<and> k < j \<longrightarrow> gas_upto txs k < unat thr)"
      using less.hyps [of "i + 1"] i by simp
    moreover have "gas_upto txs i < unat thr" using True less.prems(2) by (simp add: word_less_nat_alt)
    ultimately show ?thesis by (metis Suc_eq_plus1 Suc_leD Suc_leI le_neq_implies_less)
  next
    case False
    then have "j = i" "s' = s" using less.prems(3) by (auto simp: tip_loop.simps [of txs thr i s])
    then show ?thesis using False less.prems by (auto simp: word_less_nat_alt)
  qed
qed

lemma filter_sorted_takeWhile:
  "sorted (map f xs) \<Longrightarrow> filter (\<lambda>x. f x \<le> (t :: int)) xs = takeWhile (\<lambda>x. f x \<le> t) xs"
proof (induction xs)
  case (Cons x xs)
  show ?case
  proof (cases "f x \<le> t")
    case False
    then have "\<forall>y\<in>set xs. \<not> f y \<le> t" using Cons.prems by auto
    then show ?thesis using False by simp
  qed (use Cons in simp)
qed simp

lemma weighted_tip_at:
  assumes "sorted (map gp_tip txs)" and "j < length txs"
    and "j = length txs - 1 \<or> thr \<le> gas_upto txs j" and "\<And>k. k < j \<Longrightarrow> gas_upto txs k < thr"
  shows "weighted_tip txs thr = gp_tip (txs ! j)"
proof -
  let ?g = "\<lambda>x. unat (gp_gas x)"
  have pre: "gas_at_most txs t = sum_list (map ?g (take (length (takeWhile (\<lambda>x. gp_tip x \<le> t) txs)) txs))" for t
    unfolding gas_at_most_def filter_sorted_takeWhile [OF assms(1)]
    by (metis append_eq_conv_conj takeWhile_dropWhile_id)
  have low: "\<not> thr \<le> gas_at_most txs t" if t: "t \<in> set (map gp_tip txs)" "t < gp_tip (txs ! j)" for t
  proof -
    let ?n = "length (takeWhile (\<lambda>x. gp_tip x \<le> t) txs)"
    have "?n \<le> j"
    proof (rule ccontr)
      assume "\<not> ?n \<le> j"
      then have "gp_tip (takeWhile (\<lambda>x. gp_tip x \<le> t) txs ! j) \<le> t" by (metis nth_mem not_le set_takeWhileD)
      then show False using t(2) \<open>\<not> ?n \<le> j\<close> by (simp add: takeWhile_nth)
    qed
    moreover have "0 < ?n"
    proof -
      obtain x where x: "x \<in> set txs" "gp_tip x = t" using t(1) by auto
      then have "gp_tip (hd txs) \<le> t" using assms(1) by (cases txs) auto
      then show ?thesis using x(1) by (cases txs) auto
    qed
    ultimately obtain k where k: "?n = Suc k" "k < j" by (metis Suc_pred' Suc_le_eq)
    then show ?thesis using assms(4) [of k] pre [of t] by (simp add: gas_upto_def)
  qed
  have mem: "gp_tip (txs ! j) \<in> set (map gp_tip txs)" using assms(2) by simp
  show ?thesis
  proof (cases "thr \<le> gas_upto txs j")
    case True
    have "Suc j \<le> length (takeWhile (\<lambda>x. gp_tip x \<le> gp_tip (txs ! j)) txs)"
    proof (rule ccontr)
      let ?n = "length (takeWhile (\<lambda>x. gp_tip x \<le> gp_tip (txs ! j)) txs)"
      assume "\<not> Suc j \<le> ?n"
      then have "?n < length txs" "?n \<le> j" using assms(2) by linarith+
      then have "\<not> gp_tip (txs ! ?n) \<le> gp_tip (txs ! j)" using nth_length_takeWhile by blast
      moreover have "gp_tip (txs ! ?n) \<le> gp_tip (txs ! j)"
        using sorted_nth_mono [OF assms(1), of ?n j] \<open>?n \<le> j\<close> assms(2) \<open>?n < length txs\<close> by simp
      ultimately show False by blast
    qed
    then have "gas_upto txs j \<le> gas_at_most txs (gp_tip (txs ! j))"
      unfolding pre gas_upto_def by (rule sum_list_take_mono)
    then have good: "gp_tip (txs ! j) \<in> set (filter (\<lambda>t. thr \<le> gas_at_most txs t) (map gp_tip txs))"
      using mem True by auto
    have "Min (set (filter (\<lambda>t. thr \<le> gas_at_most txs t) (map gp_tip txs))) = gp_tip (txs ! j)"
      by (rule Min_eqI) (use good low in \<open>auto simp: not_less [symmetric]\<close>)
    moreover have "filter (\<lambda>t. thr \<le> gas_at_most txs t) (map gp_tip txs) \<noteq> []"
      using good by (metis empty_iff list.set(1))
    ultimately show ?thesis by (simp add: weighted_tip_def Let_def)
  next
    case False
    then have j: "j = length txs - 1" using assms(3) by blast
    have "gas_at_most txs t < thr" for t
    proof -
      have "gas_at_most txs t \<le> sum_list (map ?g (take (length txs) txs))"
        unfolding pre by (intro sum_list_take_mono) (simp add: length_takeWhile_le)
      also have "\<dots> = gas_upto txs j" using assms(2) j by (simp add: gas_upto_def)
      finally show ?thesis using False by simp
    qed
    then have "filter (\<lambda>t. thr \<le> gas_at_most txs t) (map gp_tip txs) = []" by (simp add: not_le)
    moreover have "Max (set (map gp_tip txs)) = gp_tip (txs ! j)"
    proof (rule Max_eqI)
      show "t \<le> gp_tip (txs ! j)" if t: "t \<in> set (map gp_tip txs)" for t
      proof -
        obtain k where "k < length txs" "t = map gp_tip txs ! k" using t unfolding in_set_conv_nth by auto
        then show ?thesis using sorted_nth_mono [OF assms(1), of k j] j assms(2) by simp
      qed
    qed (use mem in simp_all)
    ultimately show ?thesis by (simp only: weighted_tip_def Let_def simp_thms if_True)
  qed
qed


text \<open>The threshold does not overflow, and grows with the percentile.\<close>

lemma f64_le_double: "0 \<le> x \<Longrightarrow> f64 x \<le> 2 * x"
proof (cases "0 < x")
  case True
  have "(2 :: rat) powi (log2_floor x + 1) = 2 * 2 powi log2_floor x" by (simp add: power_int_add)
  then show ?thesis using f64_bounds(2) [OF True] log2_floor_bounds(1) [OF True] by linarith
qed (simp add: f64_def)

definition exact_threshold :: "gp_block \<Rightarrow> rat \<Rightarrow> rat" where
  "exact_threshold b p = f64 (f64 (f64 (of_nat (unat (gp_gasUsed b))) * p) / 100)"

lemma exact_threshold_mono: "p \<le> q \<Longrightarrow> exact_threshold b p \<le> exact_threshold b q"
  unfolding exact_threshold_def by (intro f64_mono divide_right_mono mult_left_mono f64_nonneg) simp_all

lemma exact_threshold_bound:
  assumes "unat (gp_gasUsed b) < 2 ^ 60" and "0 \<le> p" and "p \<le> 100"
  shows "exact_threshold b p < 2 ^ 64"
proof -
  let ?g = "of_nat (unat (gp_gasUsed b)) :: rat"
  have "?g < of_nat (2 ^ 60)" using assms(1) by (simp only: of_nat_less_iff)
  then have g: "f64 ?g < 2 * 2 ^ 60" using f64_le_double [of ?g] by simp
  have "f64 ?g * p \<le> f64 ?g * 100" using assms(3) f64_nonneg by (intro mult_left_mono)
  then have "f64 (f64 ?g * p) \<le> 2 * (f64 ?g * 100)"
    using f64_le_double [of "f64 ?g * p"] assms(2) f64_nonneg [of ?g] by fastforce
  then have "exact_threshold b p \<le> 2 * (2 * (f64 ?g * 100) / 100)"
    unfolding exact_threshold_def using f64_le_double [of "f64 (f64 ?g * p) / 100"] f64_nonneg [of "f64 ?g * p"] by linarith
  then show ?thesis using g by simp
qed

lemma tip_threshold_exact:
  assumes "unat (gp_gasUsed b) < 2 ^ 60" and "0 \<le> p" and "p \<le> 100"
  shows "unat (tip_threshold b p) = nat \<lfloor>exact_threshold b p\<rfloor>"
proof -
  let ?t = "exact_threshold b p"
  have "0 \<le> \<lfloor>?t\<rfloor>" unfolding exact_threshold_def by (simp add: f64_nonneg)
  moreover have "\<lfloor>?t\<rfloor> < 2 ^ 64" using exact_threshold_bound [OF assms] by (simp add: floor_less_iff)
  moreover have "tip_threshold b p = word_of_int \<lfloor>?t\<rfloor>"
    by (simp add: tip_threshold_def uint64_of_f64_def f64_div_def f64_mul_def f64_of_uint64_def exact_threshold_def)
  ultimately show ?thesis by (simp add: unat_word_of_int_u64)
qed

lemma tip_threshold_mono:
  assumes "unat (gp_gasUsed b) < 2 ^ 60" and "0 \<le> p" and "p \<le> q" and "q \<le> 100"
  shows "unat (tip_threshold b p) \<le> unat (tip_threshold b q)"
proof -
  have "0 \<le> q" "p \<le> 100" using assms by auto
  then show ?thesis
    using tip_threshold_exact [OF assms(1)] assms exact_threshold_mono [OF assms(3), of b] by (simp add: floor_mono nat_mono)
qed

lemma tip_outer_spec:
  assumes "sorted (map gp_tip (gp_txs b))" and "sum_list (map (\<lambda>x. unat (gp_gas x)) (gp_txs b)) < 2 ^ 64"
    and "unat (gp_gasUsed b) < 2 ^ 60"
    and "percentiles_from prev ps" and "i < length (gp_txs b)" and "unat s = gas_upto (gp_txs b) i"
    and "\<And>q k. prev = Some q \<Longrightarrow> k < i \<Longrightarrow> 0 \<le> q \<and> gas_upto (gp_txs b) k < unat (tip_threshold b q)"
    and "prev = None \<Longrightarrow> i = 0"
  shows "tip_outer b ps i s = map (\<lambda>p. weighted_tip (gp_txs b) (unat (tip_threshold b p))) ps"
  using assms(4-)
proof (induction ps arbitrary: prev i s)
  case (Cons p ps)
  have p: "0 \<le> p" "p \<le> 100" "percentiles_from (Some p) ps" using Cons.prems(1) by auto
  obtain j s' where l: "tip_loop (gp_txs b) (tip_threshold b p) i s = (j, s')" by fastforce
  note j = tip_loop_spec [OF assms(2) Cons.prems(2,3) l]
  have below: "gas_upto (gp_txs b) k < unat (tip_threshold b p)" if k: "k < j" for k
  proof (cases "i \<le> k")
    case False
    then obtain q where q: "prev = Some q" using Cons.prems(5) by (cases prev) auto
    then have "unat (tip_threshold b q) \<le> unat (tip_threshold b p)"
      using Cons.prems(1,4) False p by (intro tip_threshold_mono [OF assms(3)]) auto
    then show ?thesis using Cons.prems(4) [OF q, of k] False by simp
  qed (use j k in blast)
  have "weighted_tip (gp_txs b) (unat (tip_threshold b p)) = gp_tip (gp_txs b ! j)"
    using j below by (intro weighted_tip_at [OF assms(1)]) auto
  moreover have "tip_outer b ps j s' = map (\<lambda>p. weighted_tip (gp_txs b) (unat (tip_threshold b p))) ps"
    using j below p by (intro Cons.IH [of "Some p"]) auto
  ultimately show ?case using l by simp
qed simp

text \<open>C32: What \<^verbatim>\<open>tipPercentiles\<close> computes for a block is, for each requested percentile, the lowest tip
  such that the transactions tipping at most that much hold the percentile's share of the block's
  gas (the highest tip if even all of them do not), and zero for a block without transactions. The
  single pass over transactions and percentiles is equivalent to answering each percentile alone,
  which rests on the percentiles ascending and on the rounding of floats being monotone.
\<close>

theorem tipPercentiles_spec:
  assumes "b = newBlock B blk" and "validatePercentiles ps = None"
    and "sum_list (map (\<lambda>tx. unat (tx_Gas tx)) (eb_txs blk)) < 2 ^ 64" and "unat (GasUsed (eb_header blk)) < 2 ^ 60"
  shows "tipPercentiles b ps
    = map (\<lambda>p. if eb_txs blk = [] then 0 else weighted_tip (gp_txs b) (unat (tip_threshold b p))) ps"
proof -
  let ?fee = "case BaseFee (eb_header blk) of None \<Rightarrow> 0 | Some f \<Rightarrow> f"
  have b: "gp_txs b = sort_key gp_tip (map (\<lambda>tx. newTx B tx ?fee) (eb_txs blk))" "gp_gasUsed b = GasUsed (eb_header blk)"
    by (simp_all add: assms(1) newBlock_def Let_def)
  have "mset (map (\<lambda>x. unat (gp_gas x)) (gp_txs b)) = mset (map (\<lambda>tx. unat (tx_Gas tx)) (eb_txs blk))"
    by (simp add: b(1) newTx_def image_mset.compositionality comp_def)
  then have "sum_list (map (\<lambda>x. unat (gp_gas x)) (gp_txs b)) < 2 ^ 64"
    using assms(3) by (metis sum_mset_sum_list)
  moreover have "sorted (map gp_tip (gp_txs b))" by (simp add: b(1))
  moreover have "percentiles_from None ps" using assms(2) by (simp add: validatePercentiles_def split: if_splits)
  ultimately have "tip_outer b ps 0 (gp_gas (gp_txs b ! 0)) = map (\<lambda>p. weighted_tip (gp_txs b) (unat (tip_threshold b p))) ps"
    if "gp_txs b \<noteq> []"
    using that assms(4) b(2) by (intro tip_outer_spec [where prev = None]) (auto simp: gas_upto_def take_Suc hd_conv_nth)
  moreover have "gp_txs b = [] \<longleftrightarrow> eb_txs blk = []" by (metis b(1) length_0_conv length_map length_sort)
  ultimately show ?thesis by (simp add: tipPercentiles_def)
qed

text \<open>A block of three transactions, and a backend of such blocks with an unbounded cache.\<close>

definition gp_sample_tx :: "u64 \<Rightarrow> int \<Rightarrow> transaction" where
  "gp_sample_tx gas tip = \<lparr>tx_Hash = 1, tx_Nonce = 0, tx_Gas = gas, tx_GasFeeCap = 100, tx_GasTipCap = tip, tx_Value = 0,
     tx_To = None, tx_extra = 0\<rparr>"

definition gp_sample_block :: "u64 \<Rightarrow> eth_block" where
  "gp_sample_block n = \<lparr>eb_header = sample_header\<lparr>Number := uint n, GasUsed := 100, GasLimit := 200, BaseFee := Some 7\<rparr>,
     eb_txs = [gp_sample_tx 60 5, gp_sample_tx 30 3, gp_sample_tx 10 9]\<rparr>"

definition gp_sample_backend :: "(u64 \<Rightarrow> gp_block option) gp_backend" where
  "gp_sample_backend =
     \<lparr>gp_EffectiveGasTipValue = (\<lambda>tx fee. min (tx_GasTipCap tx) (tx_GasFeeCap tx - fee)),
      ResolveBlockNumber = (\<lambda>_. Inr 2), BlockByNumber = (\<lambda>n. if n \<le> 2 then Inr (Some (gp_sample_block n)) else Inr None),
      LastAcceptedNumber = 2, LastAcceptedBaseFee = Some 8, cache_Get = (\<lambda>c. c), cache_Put = (\<lambda>n b c. c(n \<mapsto> b))\<rparr>"

theorem tipPercentiles_spec_witness:
  "tipPercentiles (newBlock gp_sample_backend (gp_sample_block 1)) [20, 50, 100] = [3, 5, 9]
   \<and> weighted_tip (gp_txs (newBlock gp_sample_backend (gp_sample_block 1))) 50 = 5"
proof -
  have s: "sum_list (map (\<lambda>tx. unat (tx_Gas tx)) (eb_txs (gp_sample_block 1))) < 2 ^ 64"
    by (simp add: gp_sample_block_def gp_sample_tx_def)
  have g: "unat (GasUsed (eb_header (gp_sample_block 1))) < 2 ^ 60" by (simp add: gp_sample_block_def)
  have v: "validatePercentiles [20, 50, 100] = None" by code_simp
  have t: "tipPercentiles (newBlock gp_sample_backend (gp_sample_block 1)) [20, 50, 100]
    = map (\<lambda>p. if eb_txs (gp_sample_block 1) = [] then 0
        else weighted_tip (gp_txs (newBlock gp_sample_backend (gp_sample_block 1)))
          (unat (tip_threshold (newBlock gp_sample_backend (gp_sample_block 1)) p))) [20, 50, 100]"
    by (rule tipPercentiles_spec [OF refl v s g])
  have w: "map (\<lambda>p. if eb_txs (gp_sample_block 1) = [] then 0
        else weighted_tip (gp_txs (newBlock gp_sample_backend (gp_sample_block 1)))
          (unat (tip_threshold (newBlock gp_sample_backend (gp_sample_block 1)) p))) [20, 50, 100] = [3, 5, 9]" by code_simp
  have "weighted_tip (gp_txs (newBlock gp_sample_backend (gp_sample_block 1))) 50 = 5" by code_simp
  then show ?thesis using t w by simp
qed

section \<open>The estimator follows the chain\<close>

text \<open>The LRU cache may forget, but what it returns is what was put there last.\<close>

definition lru_laws :: "('c, 'b) gp_backend_scheme \<Rightarrow> bool" where
  "lru_laws B \<longleftrightarrow>
     (\<forall>c n b m v. cache_Get B (cache_Put B n b c) m = Some v \<longrightarrow> (if m = n then v = b else cache_Get B c m = Some v))"

text \<open>
  The chain that grows while the estimator runs: a view of it has the blocks accepted so far, and
  a block has the number that it is found at.
\<close>

definition chain_numbered :: "(u64 \<Rightarrow> eth_block option) \<Rightarrow> bool" where
  "chain_numbered chain \<longleftrightarrow> (\<forall>n blk. chain n = Some blk \<longrightarrow> word_of_int (Number (eb_header blk)) = n)"

definition chain_view :: "(u64 \<Rightarrow> eth_block option) \<Rightarrow> (u64 \<Rightarrow> eth_block option res) \<Rightarrow> bool" where
  "chain_view chain f \<longleftrightarrow> (\<forall>n blk. f n = Inr (Some blk) \<longrightarrow> chain n = Some blk)"

definition cache_coherent :: "('c, 'b) gp_backend_scheme \<Rightarrow> (u64 \<Rightarrow> eth_block option) \<Rightarrow> 'c \<Rightarrow> bool" where
  "cache_coherent B chain c \<longleftrightarrow> (\<forall>n b. cache_Get B c n = Some b \<longrightarrow> (\<exists>blk. chain n = Some blk \<and> b = newBlock B blk))"

abbreviation at_head :: "('c, 'b) gp_backend_scheme \<Rightarrow> (u64 \<Rightarrow> eth_block option res) \<Rightarrow> u64 \<Rightarrow> ('c, 'b) gp_backend_scheme" where
  "at_head B f n \<equiv> B\<lparr>BlockByNumber := f, LastAcceptedNumber := n\<rparr>"

lemma newBlock_at_head [simp]: "newBlock (at_head B f n) = newBlock B"
  by (rule ext) (simp add: newBlock_def newTx_def)

lemma cacheBlock_coherent:
  assumes "lru_laws B" and "chain_numbered chain" and "cache_coherent B chain c" and "chain n = Some blk"
  shows "cache_coherent B chain (snd (cacheBlock B blk c))"
  using assms unfolding cache_coherent_def cacheBlock_def lru_laws_def chain_numbered_def snd_conv by metis

lemma getBlock_coherent:
  assumes "lru_laws B" and "chain_numbered chain" and "chain_view chain f" and "cache_coherent B chain c"
  shows "cache_coherent B chain (snd (getBlock (at_head B f h) n c))"
    and "fst (getBlock (at_head B f h) n c) = Some b \<Longrightarrow> \<exists>blk. chain n = Some blk \<and> b = newBlock B blk"
    and "f n = Inr (Some blk) \<Longrightarrow> fst (getBlock (at_head B f h) n c) = Some (newBlock B blk)"
proof -
  have v: "f n = Inr (Some blk) \<Longrightarrow> chain n = Some blk" for n blk using assms(3) by (simp add: chain_view_def)
  have "cacheBlock (at_head B f h) = cacheBlock B" by (intro ext) (simp add: cacheBlock_def)
  note defs = getBlock_def this
  show "cache_coherent B chain (snd (getBlock (at_head B f h) n c))"
    using cacheBlock_coherent [OF assms(1,2,4)] assms(4) v
    by (auto simp: defs split: option.splits sum.splits prod.splits) (metis snd_conv)
  show "fst (getBlock (at_head B f h) n c) = Some b \<Longrightarrow> \<exists>blk. chain n = Some blk \<and> b = newBlock B blk"
    using assms(4) v by (auto simp: defs cacheBlock_def cache_coherent_def split: option.splits sum.splits)
  show "f n = Inr (Some blk) \<Longrightarrow> fst (getBlock (at_head B f h) n c) = Some (newBlock B blk)"
    using assms(4) v by (auto simp: defs cacheBlock_def cache_coherent_def split: option.splits) (metis option.inject)
qed

text \<open>The tips that a suggestion is about: those of the recent blocks, newest first.\<close>

definition recent_blocks :: "('c, 'b) gp_backend_scheme \<Rightarrow> (u64 \<Rightarrow> eth_block option) \<Rightarrow> u64 \<Rightarrow> u64 \<Rightarrow> gp_block list" where
  "recent_blocks B chain tooOld n =
     map (\<lambda>k. newBlock B (the (chain (word_of_nat k)))) (rev [unat tooOld + 1 ..< unat n + 1])"

definition recent_tips :: "('c, 'b) gp_backend_scheme \<Rightarrow> (u64 \<Rightarrow> eth_block option) \<Rightarrow> u64 \<Rightarrow> u64 \<Rightarrow> u64 \<Rightarrow> gp_tx list" where
  "recent_tips B chain tooOld recentUnix n =
     concat (map gp_txs (takeWhile (\<lambda>b. recentUnix \<le> gp_timestamp b) (recent_blocks B chain tooOld n)))"

lemma recent_tips_step:
  assumes "tooOld < n" and "chain n = Some blk"
  shows "recent_tips B chain tooOld r n
    = (if r \<le> gp_timestamp (newBlock B blk) then gp_txs (newBlock B blk) @ recent_tips B chain tooOld r (n - 1) else [])"
proof -
  have n: "unat n = Suc (unat (n - 1))" using assms(1) unat_pred_less [OF assms(1)] by (metis Suc_pred' gr_zeroI not_less_zero unat_minus_one unat_0)
  have "unat tooOld + 1 \<le> unat n" using assms(1) by (simp add: word_less_nat_alt)
  then have r: "rev [unat tooOld + 1 ..< unat n + 1] = unat n # rev [unat tooOld + 1 ..< unat (n - 1) + 1]"
    using n by simp
  have "recent_blocks B chain tooOld n = newBlock B blk # recent_blocks B chain tooOld (n - 1)"
    unfolding recent_blocks_def r using assms(2) by (simp add: word_of_nat_unat)
  then show ?thesis by (simp add: recent_tips_def)
qed

lemma collect_tips_spec:
  assumes "lru_laws B" and "chain_numbered chain" and "chain_view chain f" and "cache_coherent B chain c"
    and "\<And>k. k \<le> n \<Longrightarrow> \<exists>blk. f k = Inr (Some blk)"
  shows "\<exists>c'. collect_tips (at_head B f h) tooOld r n tips c = (tips @ recent_tips B chain tooOld r n, c')
    \<and> cache_coherent B chain c'"
  using assms(4,5)
proof (induction "unat n" arbitrary: n tips c rule: less_induct)
  case less
  note unfold = collect_tips.simps [of "at_head B f h" tooOld r n tips c]
  show ?case
  proof (cases "tooOld < n")
    case False
    then show ?thesis using less.prems(1) by (simp add: unfold recent_tips_def recent_blocks_def word_less_nat_alt)
  next
    case True
    obtain blk where blk: "f n = Inr (Some blk)" using less.prems(2) [of n] by auto
    obtain c1 where g: "getBlock (at_head B f h) n c = (Some (newBlock B blk), c1)"
      using getBlock_coherent(3) [where h = h, OF assms(1-3) less.prems(1) blk] by (metis prod.collapse)
    have c1: "cache_coherent B chain c1"
      using getBlock_coherent(1) [where h = h and n = n, OF assms(1-3) less.prems(1)] g by simp
    have ch: "chain n = Some blk" using assms(3) blk by (simp add: chain_view_def)
    have "n - 1 \<le> n" using unat_pred_less [OF True] by (simp add: word_le_nat_alt)
    then have "\<And>k. k \<le> n - 1 \<Longrightarrow> \<exists>blk. f k = Inr (Some blk)" using less.prems(2) order_trans by blast
    from less.hyps [OF unat_pred_less [OF True] c1 this] obtain c' where
      "collect_tips (at_head B f h) tooOld r (n - 1) (tips @ gp_txs (newBlock B blk)) c1
        = ((tips @ gp_txs (newBlock B blk)) @ recent_tips B chain tooOld r (n - 1), c')" "cache_coherent B chain c'" by blast
    then show ?thesis using True g c1 by (auto simp: unfold recent_tips_step [where chain = chain, OF True ch] not_le)
  qed
qed

text \<open>Without what the view must have, the cache stays coherent all the same.\<close>

lemma collect_tips_coherent:
  assumes "lru_laws B" and "chain_numbered chain" and "chain_view chain f" and "cache_coherent B chain c"
  shows "cache_coherent B chain (snd (collect_tips (at_head B f h) tooOld r n tips c))"
  using assms(4)
proof (induction "unat n" arbitrary: n tips c rule: less_induct)
  case less
  have g: "cache_coherent B chain (snd (getBlock (at_head B f h) n c))"
    by (rule getBlock_coherent(1) [OF assms(1-3) less.prems])
  show ?case
    using less.prems g less.hyps [OF unat_pred_less]
    by (subst collect_tips.simps) (auto split: option.splits prod.splits)
qed

text \<open>
  The estimator at work: new blocks are cached as they are accepted, the fee history reads blocks
  through the cache, and tips are suggested, at any time and on any view of the chain.
\<close>

inductive est_step :: "('c, 'b) gp_backend_scheme \<Rightarrow> gp_config \<Rightarrow> (u64 \<Rightarrow> eth_block option) \<Rightarrow> 'c estimator \<Rightarrow> 'c estimator \<Rightarrow> bool"
  for B c chain where
  est_accepted: "chain n = Some blk \<Longrightarrow> est_step B c chain e (e\<lparr>blockCache := snd (cacheBlock B blk (blockCache e))\<rparr>)"
| est_lookup: "chain_view chain f
    \<Longrightarrow> est_step B c chain e (e\<lparr>blockCache := snd (getBlock (at_head B f h) n (blockCache e))\<rparr>)"
| est_suggest: "chain_view chain f
    \<Longrightarrow> est_step B c chain e (snd (SuggestGasTipCap_locked (at_head B f h) (c\<lparr>gp_Now := Some now\<rparr>) n e))"

definition est_inv :: "('c, 'b) gp_backend_scheme \<Rightarrow> gp_config \<Rightarrow> (u64 \<Rightarrow> eth_block option) \<Rightarrow> 'c estimator \<Rightarrow> bool" where
  "est_inv B c chain e \<longleftrightarrow>
     the (MinSuggestedTip c) \<le> last_price e \<and> last_price e \<le> the (MaxSuggestedTip c) \<and> cache_coherent B chain (blockCache e)"

lemma suggested_price_bounds:
  assumes "the (MinSuggestedTip c) \<le> the (MaxSuggestedTip c)"
    and "the (MinSuggestedTip c) \<le> p" and "p \<le> the (MaxSuggestedTip c)"
  shows "the (MinSuggestedTip c) \<le> suggested_price c p tips" and "suggested_price c p tips \<le> the (MaxSuggestedTip c)"
  using assms by (auto simp: suggested_price_def Let_def)

lemma est_step_inv:
  assumes "est_step B c chain e e'" and "lru_laws B" and "chain_numbered chain"
    and "the (MinSuggestedTip c) \<le> the (MaxSuggestedTip c)" and "est_inv B c chain e"
  shows "est_inv B c chain e' \<and> last_number e \<le> last_number e'"
  using assms(1)
proof cases
  case (est_accepted n blk)
  then show ?thesis using cacheBlock_coherent [OF assms(2,3)] assms(5) by (simp add: est_inv_def)
next
  case (est_lookup f h n)
  then show ?thesis using getBlock_coherent(1) [OF assms(2,3)] assms(5) by (simp add: est_inv_def)
next
  case (est_suggest f h now n)
  then show ?thesis
    using collect_tips_coherent [OF assms(2,3)] suggested_price_bounds [of "c\<lparr>gp_Now := Some now\<rparr>"] assms(4,5)
    by (auto simp: est_inv_def SuggestGasTipCap_locked_def Let_def case_prod_beta)
qed

lemma est_steps_inv:
  assumes "(est_step B c chain)\<^sup>*\<^sup>* e e'" and "lru_laws B" and "chain_numbered chain"
    and "the (MinSuggestedTip c) \<le> the (MaxSuggestedTip c)" and "est_inv B c chain e"
  shows "est_inv B c chain e' \<and> last_number e \<le> last_number e'"
  using assms(1)
proof (induction rule: rtranclp_induct)
  case (step y z)
  then show ?case using est_step_inv [OF step.hyps(2) assms(2-4)] by (meson order_trans)
qed (use assms(5) in simp)

lemma NewEstimator_inv:
  assumes "NewEstimator newCache c = Inr e" and "\<And>size n. cache_Get B (newCache size) n = None"
  shows "est_inv B c chain e" and "the (MinSuggestedTip c) \<le> the (MaxSuggestedTip c)" and "last_number e = 0"
  using assms
  by (auto simp: NewEstimator_def gp_validate_def est_inv_def cache_coherent_def split: option.splits if_splits)

text \<open>C30: However an estimator was used since it was made (blocks cached as they are accepted, blocks looked
  up for fee histories, tips suggested, each at any time and with the chain at any height), the tip it
  suggests lies within the configured bounds. If no block was accepted since the last suggestion it
  is that one; otherwise it is computed from the tips of exactly the blocks of the chain that are
  within the configured number of blocks and duration, whatever the cache happened to hold or had
  evicted.
\<close>

theorem SuggestGasTipCap_spec:
  assumes "lru_laws B" and "\<And>size n. cache_Get B (newCache size) n = None" and "chain_numbered chain"
    and "NewEstimator newCache c = Inr e0" and "(est_step B c chain)\<^sup>*\<^sup>* e0 e"
    and "chain_view chain f" and "\<And>k. k \<le> h \<Longrightarrow> \<exists>blk. f k = Inr (Some blk)"
    and "SuggestGasTipCap (at_head B f h) (c\<lparr>gp_Now := Some now\<rparr>) e = (price, e')"
  shows "the (MinSuggestedTip c) \<le> price \<and> price \<le> the (MaxSuggestedTip c)
    \<and> last_price e' = price \<and> last_number e' = max (last_number e) h
    \<and> price = (if h \<le> last_number e then last_price e
        else suggested_price c (last_price e)
          (recent_tips B chain (BoundedSubtract h (SuggestedTipMaxBlocks c) 0)
            (word_of_int (Time_Unix (now - SuggestedTipMaxDuration c))) h))"
proof -
  note new = NewEstimator_inv(1) [where chain = chain, OF assms(4,2)] NewEstimator_inv(2) [OF assms(4,2)]
  have inv: "est_inv B c chain e" using est_steps_inv [OF assms(5,1,3) new(2,1)] by blast
  show ?thesis
  proof (cases "h \<le> last_number e")
    case True
    then show ?thesis using assms(8) inv by (auto simp: SuggestGasTipCap_def est_inv_def max_def)
  next
    case False
    have "cache_coherent B chain (blockCache e)" using inv by (simp add: est_inv_def)
    from collect_tips_spec [where h = h and tips = "[]", OF assms(1,3,6) this assms(7)]
    obtain c' where "collect_tips (at_head B f h) (BoundedSubtract h (SuggestedTipMaxBlocks c) 0)
        (word_of_int (Time_Unix (now - SuggestedTipMaxDuration c))) h [] (blockCache e)
      = (recent_tips B chain (BoundedSubtract h (SuggestedTipMaxBlocks c) 0)
          (word_of_int (Time_Unix (now - SuggestedTipMaxDuration c))) h, c')" by fastforce
    moreover have "suggested_price (c\<lparr>gp_Now := Some now\<rparr>) = suggested_price c"
      by (intro ext) (simp add: suggested_price_def)
    ultimately show ?thesis
      using assms(8) False inv suggested_price_bounds [OF new(2), of "last_price e"]
      by (auto simp: SuggestGasTipCap_def SuggestGasTipCap_locked_def Let_def est_inv_def max_def)
  qed
qed

definition gp_sample_chain :: "u64 \<Rightarrow> eth_block option" where
  "gp_sample_chain n = (if n \<le> 2 then Some (gp_sample_block n) else None)"

definition gp_sample_start :: "(u64 \<Rightarrow> gp_block option) estimator" where
  "gp_sample_start = \<lparr>last_number = 0, last_price = 1, blockCache = (\<lambda>_. None)\<rparr>"

definition gp_sample_used :: "(u64 \<Rightarrow> gp_block option) estimator" where
  "gp_sample_used = gp_sample_start\<lparr>blockCache := snd (cacheBlock gp_sample_backend (gp_sample_block 1) (\<lambda>_. None))\<rparr>"

lemma gp_sample_facts:
  "lru_laws gp_sample_backend" "chain_numbered gp_sample_chain"
  "chain_view gp_sample_chain (BlockByNumber gp_sample_backend)"
  "k \<le> 2 \<Longrightarrow> \<exists>blk. BlockByNumber gp_sample_backend k = Inr (Some blk)"
  "NewEstimator (\<lambda>_ _. None) (DefaultConfig 0) = Inr gp_sample_start"
  "cache_Get gp_sample_backend (\<lambda>_. None) n = None"
  by (auto simp: lru_laws_def chain_numbered_def chain_view_def gp_sample_backend_def gp_sample_chain_def gp_sample_block_def
      NewEstimator_def gp_validate_def DefaultConfig_def gp_sample_start_def split: if_splits)

theorem SuggestGasTipCap_spec_witness:
  "fst (SuggestGasTipCap (at_head gp_sample_backend (BlockByNumber gp_sample_backend) 2)
      ((DefaultConfig 0)\<lparr>gp_Now := Some 69000000000\<rparr>) gp_sample_used) = 5"
proof -
  have st: "(est_step gp_sample_backend (DefaultConfig 0) gp_sample_chain)\<^sup>*\<^sup>* gp_sample_start gp_sample_used"
    using est_accepted [of gp_sample_chain 1 "gp_sample_block 1" gp_sample_backend "DefaultConfig 0" gp_sample_start]
    by (auto simp: gp_sample_used_def gp_sample_start_def gp_sample_chain_def)
  obtain price e' where run: "SuggestGasTipCap (at_head gp_sample_backend (BlockByNumber gp_sample_backend) 2)
      ((DefaultConfig 0)\<lparr>gp_Now := Some 69000000000\<rparr>) gp_sample_used = (price, e')" by fastforce
  have "price = suggested_price (DefaultConfig 0) 1 (recent_tips gp_sample_backend gp_sample_chain
      (BoundedSubtract 2 (SuggestedTipMaxBlocks (DefaultConfig 0)) 0)
      (word_of_int (Time_Unix (69000000000 - SuggestedTipMaxDuration (DefaultConfig 0)))) 2)"
    using SuggestGasTipCap_spec [OF gp_sample_facts(1) gp_sample_facts(6) gp_sample_facts(2,5) st gp_sample_facts(3,4) run]
    by (simp add: gp_sample_used_def gp_sample_start_def)
  also have "\<dots> = 5" by code_simp
  finally show ?thesis using run by simp
qed

section \<open>The fee history\<close>

lemma fee_loop_spec:
  assumes "lru_laws B" and "chain_numbered chain" and "chain_view chain f" and "cache_coherent B chain ch"
    and "fee_loop (at_head B f h) cancelled ps ns ch = (r, ch')"
  shows "cache_coherent B chain ch' \<and> (\<forall>rw bf gr. r = Inr (rw, bf, gr) \<longrightarrow>
     (\<forall>n\<in>set ns. \<exists>blk. chain n = Some blk)
     \<and> rw = (if ps = [] then [] else map (\<lambda>n. tipPercentiles (newBlock B (the (chain n))) ps) ns)
     \<and> bf = map (\<lambda>n. Some (gp_baseFee (newBlock B (the (chain n))))) ns
     \<and> gr = map (\<lambda>n. f64_div (f64_of_uint64 (GasUsed (eb_header (the (chain n)))))
          (f64_of_uint64 (GasLimit (eb_header (the (chain n)))))) ns)"
  using assms(4,5)
proof (induction ns arbitrary: ch r ch')
  case (Cons n ns)
  note co = getBlock_coherent(1) [where h = h and n = n, OF assms(1-3) Cons.prems(1)]
  note got = getBlock_coherent(2) [where h = h and n = n, OF assms(1-3) Cons.prems(1)]
  show ?case
  proof (cases "cancelled n")
    case False
    obtain ob c1 where g: "getBlock (at_head B f h) n ch = (ob, c1)" by fastforce
    show ?thesis
    proof (cases ob)
      case None
      then show ?thesis using False g co Cons.prems(2) by auto
    next
      case (Some b)
      obtain blk where blk: "chain n = Some blk" "b = newBlock B blk" using got g Some by fastforce
      obtain r1 c2 where l: "fee_loop (at_head B f h) cancelled ps ns c1 = (r1, c2)" by fastforce
      have "cache_coherent B chain c1" using co g by simp
      note ih = Cons.IH [OF this l]
      have hb: "gp_gasUsed b = GasUsed (eb_header blk)" "gp_gasLimit b = GasLimit (eb_header blk)"
        by (simp_all add: blk(2) newBlock_def Let_def)
      show ?thesis
      proof (cases r1)
        case (Inl err)
        then show ?thesis using False g Some l ih Cons.prems(2) by auto
      next
        case (Inr t)
        then show ?thesis using False g Some l ih Cons.prems(2) blk hb by (cases t) auto
      qed
    qed
  qed (use Cons.prems in auto)
qed auto

lemma history_first:
  fixes lastN k :: u64
  assumes "unat lastN < 2 ^ 64 - 1" and "k \<le> lastN + 1"
  shows "unat (lastN + 1 - k) + unat k = unat lastN + 1"
proof -
  have "unat (lastN + 1) = unat lastN + 1" using assms(1) by (subst unat_add_lem [THEN iffD1]) simp_all
  then show ?thesis using assms(2) unat_sub [OF assms(2)] by (simp add: word_le_nat_alt)
qed

lemma next_base_fee_spec:
  assumes "lru_laws B" and "chain_numbered chain" and "chain_view chain f" and "cache_coherent B chain ch"
    and "next_base_fee (at_head B f h) lastN ch = (Inr fee, ch')"
  shows "fee = (if lastN = h then LastAcceptedBaseFee B else Some (gp_baseFee (newBlock B (the (chain (lastN + 1))))))"
  using getBlock_coherent(2) [where h = h and n = "lastN + 1", OF assms(1-4)] assms(5)
  by (fastforce simp: next_base_fee_def split: if_splits prod.splits option.splits)

text \<open>C31: A fee history that is returned covers consecutive blocks of the chain: as many as were asked for,
  but at most the configured maximum and no more than there are up to the last requested block, which
  is within the configured depth of the accepted head. Base fee, gas ratio and reward percentiles are
  those of the chain's blocks in order, whatever the cache held, with one base fee more for the block
  after the last (the bound on it when that is the accepted head's child), and the lowest height is
  where they start. The tip state of the estimator is not touched.
\<close>

theorem FeeHistory_spec:
  assumes "lru_laws B" and "\<And>size n. cache_Get B (newCache size) n = None" and "chain_numbered chain"
    and "NewEstimator newCache c = Inr e0" and "(est_step B c chain)\<^sup>*\<^sup>* e0 e"
    and "chain_view chain f" and "ResolveBlockNumber B lastBlock = Inr lastN" and "unat lastN < 2 ^ 64 - 1"
    and "FeeHistory (at_head B f h) c cancelled blocks lastBlock ps e = (Inr fh, e')"
    and "k = min (min blocks (HistoryMaxBlocks c)) (lastN + 1)" and "ns = history_range (lastN + 1 - k) lastN"
  shows "uint h - uint (HistoryMaxBlocksFromHead c) \<le> uint lastN \<and> validatePercentiles ps = None
    \<and> length (portionFull fh) = unat k \<and> last_number e' = last_number e \<and> last_price e' = last_price e
    \<and> (if k = 0 then fh = \<lparr>lowestHeight = 0, rewards = [], baseFees = [], portionFull = []\<rparr>
       else length ns = unat k \<and> unat (lowestHeight fh) + unat k = unat lastN + 1
         \<and> rewards fh = (if ps = [] then [] else map (\<lambda>n. tipPercentiles (newBlock B (the (chain n))) ps) ns)
         \<and> baseFees fh = map (\<lambda>n. Some (gp_baseFee (newBlock B (the (chain n))))) ns
             @ [if lastN = h then LastAcceptedBaseFee B else Some (gp_baseFee (newBlock B (the (chain (lastN + 1)))))]
         \<and> portionFull fh = map (\<lambda>n. f64_div (f64_of_uint64 (GasUsed (eb_header (the (chain n)))))
             (f64_of_uint64 (GasLimit (eb_header (the (chain n)))))) ns)"
proof -
  note new = NewEstimator_inv(1) [where chain = chain, OF assms(4,2)] NewEstimator_inv(2) [OF assms(4,2)]
  have co: "cache_coherent B chain (blockCache e)" using est_steps_inv [OF assms(5,1,3) new(2,1)] by (simp add: est_inv_def)
  have depth: "\<not> lastN < BoundedSubtract h (HistoryMaxBlocksFromHead c) 0" and v: "validatePercentiles ps = None"
    using assms(7,9) by (auto simp: FeeHistory_def split: option.splits if_splits)
  have d: "uint h - uint (HistoryMaxBlocksFromHead c) \<le> uint lastN"
    using depth uint_BoundedSubtract [of h "HistoryMaxBlocksFromHead c" 0] by (simp add: word_less_def)
  note run = assms(9) [unfolded FeeHistory_def v assms(7), simplified, unfolded assms(7), simplified, unfolded Let_def if_not_P [OF depth]]
  show ?thesis
  proof (cases "k = 0")
    case True
    then show ?thesis using run assms(7,10) d v by auto
  next
    case False
    have "k \<le> lastN + 1" by (simp add: assms(10))
    note first = history_first [OF assms(8) this]
    obtain r ch where l: "fee_loop (at_head B f h) cancelled ps ns (blockCache e) = (r, ch)" by fastforce
    note lp = fee_loop_spec [OF assms(1,3,6) co l]
    obtain rw bf gr where r: "r = Inr (rw, bf, gr)" using run False l
      by (auto simp: assms(7,10,11) split: sum.splits)
    obtain q ch' where n: "next_base_fee (at_head B f h) lastN ch = (q, ch')" by fastforce
    obtain fee where q: "q = Inr fee" using run False l r n by (auto simp: assms(7,10,11) split: sum.splits)
    have fh: "fh = \<lparr>lowestHeight = lastN + 1 - k, rewards = rw, baseFees = bf @ [fee], portionFull = gr\<rparr>"
      and e': "e' = e\<lparr>blockCache := ch'\<rparr>"
      using run False l r n q by (auto simp: assms(7,10,11))
    have "length ns = unat k" using first by (simp add: assms(11) history_range_def) arith
    moreover have "fee = (if lastN = h then LastAcceptedBaseFee B else Some (gp_baseFee (newBlock B (the (chain (lastN + 1))))))"
      using next_base_fee_spec [OF assms(1,3,6) _ n [unfolded q]] lp by blast
    ultimately show ?thesis using lp r fh e' first d v False by simp
  qed
qed

theorem FeeHistory_spec_witness:
  "(\<exists>fh e'. FeeHistory (at_head gp_sample_backend (BlockByNumber gp_sample_backend) 2) (DefaultConfig 0) (\<lambda>_. False) 2 LatestBlockNumber
        [20, 50] gp_sample_used = (Inr fh, e')
      \<and> lowestHeight fh = 1 \<and> rewards fh = [[3, 5], [3, 5]] \<and> baseFees fh = [Some 7, Some 7, Some 8]
      \<and> length (portionFull fh) = 2 \<and> last_price e' = 1)"
proof -
  let ?B = "at_head gp_sample_backend (BlockByNumber gp_sample_backend) 2"
  have st: "(est_step gp_sample_backend (DefaultConfig 0) gp_sample_chain)\<^sup>*\<^sup>* gp_sample_start gp_sample_used"
    using est_accepted [of gp_sample_chain 1 "gp_sample_block 1" gp_sample_backend "DefaultConfig 0" gp_sample_start]
    by (auto simp: gp_sample_used_def gp_sample_start_def gp_sample_chain_def)
  have f: "fst (FeeHistory ?B (DefaultConfig 0) (\<lambda>_. False) 2 LatestBlockNumber [20, 50] gp_sample_used)
    = Inr \<lparr>lowestHeight = 1, rewards = [[3, 5], [3, 5]], baseFees = [Some 7, Some 7, Some 8], portionFull = [Some (1 / 2), Some (1 / 2)]\<rparr>"
    by code_simp
  then obtain e' where run: "FeeHistory ?B (DefaultConfig 0) (\<lambda>_. False) 2 LatestBlockNumber [20, 50] gp_sample_used
    = (Inr \<lparr>lowestHeight = 1, rewards = [[3, 5], [3, 5]], baseFees = [Some 7, Some 7, Some 8],
        portionFull = [Some (1 / 2), Some (1 / 2)]\<rparr>, e')" by (metis prod.collapse)
  have r: "ResolveBlockNumber gp_sample_backend LatestBlockNumber = Inr 2" by (simp add: gp_sample_backend_def)
  have "last_price e' = last_price gp_sample_used"
    using FeeHistory_spec [OF gp_sample_facts(1) gp_sample_facts(6) gp_sample_facts(2,5) st gp_sample_facts(3) r _ run refl refl] by simp
  then show ?thesis using run by (simp add: gp_sample_used_def gp_sample_start_def)
qed

end
