(* ===== verification/Rpc.thy ===== *)
theory Rpc
  imports Verify Gasprice
begin

text \<open>
  The backend of the JSON-RPC services (\<^verbatim>\<open>src/sae/rpc\<close>), on the chain that \<^verbatim>\<open>src/sae/rpc.go\<close> makes of the VM and its executor.

  The services themselves are libevm's; \<open>geth\<close> has the functions of libevm that the backend calls. Methods that only
  read are functions of the world, and methods that create blocks are programs. \<^verbatim>\<open>ConsensusCriticalBlock\<close> is \<open>critical_Load\<close>.
\<close>

section \<open>What the backend calls\<close>

record ('kv, 'db, 'm, 'j, 'bd, 'bl) geth =
  ReadBody :: "'kv \<Rightarrow> hash \<Rightarrow> u64 \<Rightarrow> 'bd option"
  BlockBody :: "eth_block \<Rightarrow> 'bd"
  ReadTransaction :: "'kv \<Rightarrow> hash \<Rightarrow> transaction option \<times> hash \<times> u64 \<times> u64"
  ReadLogs :: "'kv \<Rightarrow> hash \<Rightarrow> u64 \<Rightarrow> log_entry list list"
  TransactionToMessage :: "transaction \<Rightarrow> signer \<Rightarrow> int \<Rightarrow> 'm res"
  ReceiptBlockNumber :: "receipt \<Rightarrow> int"
  ReceiptTransactionIndex :: "receipt \<Rightarrow> nat"
  MarshalReceipt :: "receipt \<Rightarrow> hash \<Rightarrow> u64 \<Rightarrow> signer \<Rightarrow> transaction \<Rightarrow> nat \<Rightarrow> 'j"
  NewRPCTransaction :: "transaction \<Rightarrow> hash \<Rightarrow> u64 \<Rightarrow> u64 \<Rightarrow> nat \<Rightarrow> int option \<Rightarrow> 'j"
  CreateBloom :: "receipt list \<Rightarrow> 'bl"

text \<open>\<^verbatim>\<open>StateDB\<close> of the embedded executor.\<close>

definition rpc_StateDB :: "('db, 't, 'c, 'v) evm_scheme \<Rightarrow> ('kv, 'x, 't, 'c, 'z) exec_world_scheme \<Rightarrow> hash \<Rightarrow> 'db res" where
  "rpc_StateDB V w rt = OpenStateDB V rt (cache (ex_tracker w))"

section \<open>Readers (readers.go, blocks.go)\<close>

definition notFoundIsNil :: "'a option res \<Rightarrow> 'a option res" where
  "notFoundIsNil r = (case r of Inl err \<Rightarrow> if errors_Is err ErrNotFound then Inr None else Inl err | Inr x \<Rightarrow> Inr x)"

definition readByNumber :: "('kv, 'x, 'e) env_scheme \<Rightarrow> ('kv, 'x, 'z) world_scheme \<Rightarrow> rpc_number \<Rightarrow> ('kv, 'a) db_reader \<Rightarrow> 'a option res" where
  "readByNumber E w n read = notFoundIsNil (FromNumber E w n (WithNilErr read))"

definition readByHash :: "('kv, 'x, 'e) env_scheme \<Rightarrow> ('kv, 'x, 't, 'c, 'z) vm_world_scheme \<Rightarrow> hash \<Rightarrow> (ptr \<Rightarrow> 'a option)
    \<Rightarrow> ('kv, 'a) db_reader \<Rightarrow> 'a option res" where
  "readByHash E w hash fromMem fromDB = notFoundIsNil (FromHash E w (critical_Load w) hash True fromMem (WithNilErr fromDB))"

definition readByNumberOrHash :: "('kv, 'x, 'e) env_scheme \<Rightarrow> ('kv, 'x, 't, 'c, 'z) vm_world_scheme \<Rightarrow> number_or_hash \<Rightarrow> (ptr \<Rightarrow> 'a option)
    \<Rightarrow> ('kv, 'a) db_reader_err \<Rightarrow> 'a option res" where
  "readByNumberOrHash E w nh fromMem fromDB =
     notFoundIsNil (FromNumberOrHash E w (critical_Load w) (nh\<lparr>RequireCanonical := True\<rparr>) fromMem fromDB)"

definition readByNumberAndHash :: "('kv, 'x, 't, 'c, 'z) vm_world_scheme \<Rightarrow> hash \<Rightarrow> rpc_number \<Rightarrow> (ptr \<Rightarrow> 'a option)
    \<Rightarrow> ('kv, 'a) db_reader \<Rightarrow> 'a option res" where
  "readByNumberAndHash w h num fromMem fromDB = notFoundIsNil (FromNumberAndHash w (critical_Load w) h num fromMem (WithNilErr fromDB))"

definition CurrentHeader :: "('kv, 'x, 'z) world_scheme \<Rightarrow> header res" where
  "CurrentHeader w = res_bind (frontier w CellLastExecuted) (\<lambda>b. Inr (Header w b))"

definition rpc_CurrentBlock :: "('kv, 'x, 'z) world_scheme \<Rightarrow> header res" where
  "rpc_CurrentBlock w = CurrentHeader w"

definition rpc_HeaderByNumber :: "('kv, 'x, 'e) env_scheme \<Rightarrow> ('kv, 'x, 'z) world_scheme \<Rightarrow> rpc_number \<Rightarrow> header option res" where
  "rpc_HeaderByNumber E w n = readByNumber E w n (ReadHeader E)"

definition rpc_BlockByNumber :: "('kv, 'x, 'e) env_scheme \<Rightarrow> ('kv, 'x, 'z) world_scheme \<Rightarrow> rpc_number \<Rightarrow> eth_block option res" where
  "rpc_BlockByNumber E w n = readByNumber E w n (ReadBlock E)"

definition rpc_HeaderByHash :: "('kv, 'x, 'e) env_scheme \<Rightarrow> ('kv, 'x, 't, 'c, 'z) vm_world_scheme \<Rightarrow> hash \<Rightarrow> header option res" where
  "rpc_HeaderByHash E w h = readByHash E w h (\<lambda>b. Some (Header w b)) (ReadHeader E)"

definition rpc_BlockByHash :: "('kv, 'x, 'e) env_scheme \<Rightarrow> ('kv, 'x, 't, 'c, 'z) vm_world_scheme \<Rightarrow> hash \<Rightarrow> eth_block option res" where
  "rpc_BlockByHash E w h = readByHash E w h (\<lambda>b. Some (EthBlock w b)) (ReadBlock E)"

definition rpc_HeaderByNumberOrHash :: "('kv, 'x, 'e) env_scheme \<Rightarrow> ('kv, 'x, 't, 'c, 'z) vm_world_scheme \<Rightarrow> number_or_hash
    \<Rightarrow> header option res" where
  "rpc_HeaderByNumberOrHash E w nh = readByNumberOrHash E w nh (\<lambda>b. Some (Header w b)) (WithNilErr (ReadHeader E))"

definition rpc_BlockByNumberOrHash :: "('kv, 'x, 'e) env_scheme \<Rightarrow> ('kv, 'x, 't, 'c, 'z) vm_world_scheme \<Rightarrow> number_or_hash
    \<Rightarrow> eth_block option res" where
  "rpc_BlockByNumberOrHash E w nh = readByNumberOrHash E w nh (\<lambda>b. Some (EthBlock w b)) (WithNilErr (ReadBlock E))"

definition rpc_GetBody :: "('kv, 'db, 'm, 'j, 'bd, 'bl) geth \<Rightarrow> ('kv, 'x, 't, 'c, 'z) vm_world_scheme \<Rightarrow> hash \<Rightarrow> rpc_number \<Rightarrow> 'bd option res" where
  "rpc_GetBody G w hash number = readByNumberAndHash w hash number (\<lambda>b. Some (BlockBody G (EthBlock w b))) (ReadBody G)"

section \<open>State (stateful.go)\<close>

definition noEndOfBlockOps :: "('db, 'a) points_scheme \<Rightarrow> ('db, 'a) points_scheme" where
  "noEndOfBlockOps H = H\<lparr>EndOfBlockOps := (\<lambda>_. Inr [])\<rparr>"

text \<open>The header that is faked to carry the results of execution, from memory or from disk.\<close>

definition faked_header :: "('kv, 'x, 'e) env_scheme \<Rightarrow> ('kv, 'x, 't, 'c, 'z) vm_world_scheme \<Rightarrow> u64 \<Rightarrow> hash \<Rightarrow> header res" where
  "faked_header E w num hash =
     (case critical_Load w hash of
        Some bl \<Rightarrow>
          res_bind (PostExecutionStateRoot w bl) (\<lambda>rt.
          res_bind (ExecutedBaseFee w bl) (\<lambda>bf.
          Inr ((Header w bl)\<lparr>Root := rt, BaseFee := Some (uint bf)\<rparr>)))
      | None \<Rightarrow>
          (case ReadHeader E (kvdb w) hash num of
             None \<Rightarrow> Inl nil_deref
           | Some hdr \<Rightarrow>
               res_bind (persisted_PostExecutionStateRoot E (xdb w) num) (\<lambda>rt.
               res_bind (ExecutionBaseFee E (xdb w) num) (\<lambda>bf.
               Inr (hdr\<lparr>Root := rt, BaseFee := Some (uint bf)\<rparr>)))))"

definition StateAndHeaderByNumberOrHash :: "('kv, 'x, 'e) env_scheme \<Rightarrow> ('db, 't, 'c, 'v) evm_scheme \<Rightarrow> ('kv, 'x, 't, 'c, 'z) vm_world_scheme
    \<Rightarrow> number_or_hash \<Rightarrow> ('db \<times> header) res" where
  "StateAndHeaderByNumberOrHash E V w nh =
     (if nh_Number nh = Some PendingBlockNumber then Inl (ErrOther ''state not available for pending block'')
      else res_bind (ResolveRPCNumberOrHash E w (critical_Load w) (nh\<lparr>RequireCanonical := True\<rparr>)) (\<lambda>(num, hash).
           res_bind (faked_header E w num hash) (\<lambda>hdr.
           res_bind (rpc_StateDB V w (Root hdr)) (\<lambda>sdb.
           Inr (sdb, hdr)))))"

definition StateAndHeaderByNumber :: "('kv, 'x, 'e) env_scheme \<Rightarrow> ('db, 't, 'c, 'v) evm_scheme \<Rightarrow> ('kv, 'x, 't, 'c, 'z) vm_world_scheme
    \<Rightarrow> rpc_number \<Rightarrow> ('db \<times> header) res" where
  "StateAndHeaderByNumber E V w n = StateAndHeaderByNumberOrHash E V w \<lparr>nh_Number = Some n, nh_Hash = None, RequireCanonical = False\<rparr>"

definition backend_postExecutionStateRoot :: "('kv, 'x, 'e) env_scheme \<Rightarrow> ('kv, 'x, 't, 'c, 'z) vm_world_scheme \<Rightarrow> hash \<Rightarrow> u64 \<Rightarrow> hash res" where
  "backend_postExecutionStateRoot E w hash num =
     (case critical_Load w hash of
        None \<Rightarrow> persisted_PostExecutionStateRoot E (xdb w) num
      | Some bl \<Rightarrow> if Executed w bl then PostExecutionStateRoot w bl
                  else Inl (ErrOther ''post-execution state root unavailable''))"

definition StateAtBlock :: "('kv, 'x, 'e) env_scheme \<Rightarrow> ('db, 't, 'c, 'v) evm_scheme \<Rightarrow> ('kv, 'x, 't, 'c, 'z) vm_world_scheme
    \<Rightarrow> eth_block \<Rightarrow> 'db res" where
  "StateAtBlock E V w block =
     res_bind (backend_postExecutionStateRoot E w (HeaderHash E (eb_header block)) (word_of_int (Number (eb_header block)))) (\<lambda>rt.
     rpc_StateDB V w rt)"

text \<open>\<open>chainCtx\<close> is the header source of the executor, and \<open>now\<close> the time at which the replay ends.\<close>

definition StateAtTransaction :: "('kv, 'x, 'e) env_scheme \<Rightarrow> price_fun \<Rightarrow> ('db, 'a) exec_points_scheme \<Rightarrow> 'db statedb
    \<Rightarrow> ('db, 't, 'c, 'v) evm_scheme \<Rightarrow> ('kv, 'db, 'm, 'j, 'bd, 'bl) geth \<Rightarrow> (hash \<Rightarrow> u64 \<Rightarrow> header option) \<Rightarrow> gotime \<Rightarrow> eth_block \<Rightarrow> int
    \<Rightarrow> (('kv, 'x, 't, 'c, 'z) vm_world_scheme, 'm \<times> header \<times> 'db) prog" where
  "StateAtTransaction E calc H S V G headers now ethB txIndex =
     (let num = word_of_int (Number (eb_header ethB)); txs = eb_txs ethB
      in if num = 0 then mfail (ErrOther ''no transactions in genesis'')
         else if txIndex < 0 \<or> int (length txs) \<le> txIndex then mfail (ErrOther ''transaction index out of range'')
         else
     mbind (mget (\<lambda>w. deref (LastExecuted w))) (\<lambda>l.
     mbind (mlift l) (\<lambda>l.
     mbind (mget (\<lambda>w. NumberU64 w l < num - 1)) (\<lambda>early.
     mbind (mguard (\<not> early) (ErrOther ''parent of block not executed yet'')) (\<lambda>_.
     mbind (mget (\<lambda>w. ReadBlock E (kvdb w) (ParentHash (eb_header ethB)) (num - 1))) (\<lambda>parentB.
     mbind (mmap_err (\<lambda>_. ErrOther ''constructing parent block'') (blocks_New E parentB None None)) (\<lambda>parent.
     mbind (mmap_err (\<lambda>_. ErrOther ''RestoreExecutionArtefacts'') (RestoreExecutionArtefacts E parent)) (\<lambda>_.
     mbind (mmap_err (\<lambda>_. ErrOther ''constructing SAE block'') (blocks_New E (Some ethB) (Some parent) None)) (\<lambda>block.
     mbind (mget (\<lambda>w. (rpc_StateDB V w, GetHeader E V headers (recent w)))) (\<lambda>(openDB, chainCtx).
     mbind (Execute E calc (noEndOfBlockOps H) S V openDB chainCtx NullReceiptStore (Some (nat txIndex)) now block) (\<lambda>result.
     mbind (mlift (TransactionToMessage G (txs ! nat txIndex) (xr_Signer result) (uint (xr_BaseFee result)))) (\<lambda>msg.
     mreturn (msg, xr_BlockCtx result, xr_StateDB result)))))))))))))"

section \<open>Receipts (receipts.go)\<close>

text \<open>A reader whose extractor and database reader are programs.\<close>

definition read_prog :: "('w \<Rightarrow> ('w, 'a) prog option res) \<Rightarrow> ('w, 'a option) prog" where
  "read_prog f = (\<lambda>w.
     case notFoundIsNil (f w) of
       Inl err \<Rightarrow> (Inl err, w)
     | Inr None \<Rightarrow> (Inr None, w)
     | Inr (Some m) \<Rightarrow> (case m w of (r, w') \<Rightarrow> (notFoundIsNil (map_sum id Some r), w')))"

definition restored_block :: "('kv, 'x, 'e) env_scheme \<Rightarrow> hash \<Rightarrow> u64 \<Rightarrow> (('kv, 'x, 'z) world_scheme, ptr) prog" where
  "restored_block E h num =
     mbind (mget (\<lambda>w. deref (cells w CellLastExecuted))) (\<lambda>l.
     mbind (mlift l) (\<lambda>l.
     mbind (mget (\<lambda>w. Height w l < num)) (\<lambda>early.
     mbind (mguard (\<not> early) ErrNotFound) (\<lambda>_.
     mbind (mget (\<lambda>w. ReadBlock E (kvdb w) h num)) (\<lambda>eb.
     mbind (blocks_New E eb None None) (\<lambda>blk.
     mbind (RestoreExecutionArtefacts E blk) (\<lambda>_.
     mreturn blk)))))))"

definition getReceipts :: "('kv, 'x, 'e) env_scheme \<Rightarrow> number_or_hash
    \<Rightarrow> (('kv, 'x, 't, 'c, 'z) vm_world_scheme, (receipt list \<times> eth_block) option) prog" where
  "getReceipts E nh =
     mbind (read_prog (\<lambda>w. FromNumberOrHash E w (critical_Load w) (nh\<lparr>RequireCanonical := True\<rparr>)
       (\<lambda>b. Some (mreturn b)) (\<lambda>_ h num. Inr (Some (restored_block E h num))))) (\<lambda>blk.
     case blk of
       None \<Rightarrow> mreturn None
     | Some b \<Rightarrow>
         mbind (mget (\<lambda>w. (Executed w b, Receipts w b, EthBlock w b))) (\<lambda>(executed, rs, eb).
         if \<not> executed then mreturn None
         else mbind (mlift rs) (\<lambda>rs. mreturn (Some (rs, eb)))))"

text \<open>An error is reported as no receipts.\<close>

definition rpc_GetReceipts :: "('kv, 'x, 'e) env_scheme \<Rightarrow> hash \<Rightarrow> (('kv, 'x, 't, 'c, 'z) vm_world_scheme, receipt list option) prog" where
  "rpc_GetReceipts E hash = (\<lambda>w.
     case getReceipts E \<lparr>nh_Number = None, nh_Hash = Some hash, RequireCanonical = False\<rparr> w of
       (Inl err, w') \<Rightarrow> (if stops err then Inl err else Inr None, w')
     | (Inr r, w') \<Rightarrow> (Inr (map_option fst r), w'))"

text \<open>A receipt beyond the transactions is out of range; a transaction without a receipt keeps a nil entry.\<close>

definition marshal_receipts :: "('kv, 'x, 'e) env_scheme \<Rightarrow> ('kv, 'db, 'm, 'j, 'bd, 'bl) geth \<Rightarrow> eth_block \<Rightarrow> receipt list \<Rightarrow> 'j option list res" where
  "marshal_receipts E G blk receipts =
     (let hash = HeaderHash E (eb_header blk); num = word_of_int (Number (eb_header blk));
          sig = (Number (eb_header blk), hdr_Time (eb_header blk)); txs = eb_txs blk
      in if length txs < length receipts then Inl (Panic ''index out of range'')
         else Inr (map (\<lambda>i. if i < length receipts then Some (MarshalReceipt G (receipts ! i) hash num sig (txs ! i) i) else None)
                 [0..<length txs]))"

definition GetBlockReceipts :: "('kv, 'x, 'e) env_scheme \<Rightarrow> ('kv, 'db, 'm, 'j, 'bd, 'bl) geth \<Rightarrow> number_or_hash
    \<Rightarrow> (('kv, 'x, 't, 'c, 'z) vm_world_scheme, 'j option list option) prog" where
  "GetBlockReceipts E G nh = (\<lambda>w.
     case getReceipts E nh w of
       (Inl err, w') \<Rightarrow> (if stops err then Inl err else Inr None, w')
     | (Inr None, w') \<Rightarrow> (Inr None, w')
     | (Inr (Some (receipts, blk)), w') \<Rightarrow> (map_sum id Some (marshal_receipts E G blk receipts), w'))"

definition GetLogs :: "('kv, 'db, 'm, 'j, 'bd, 'bl) geth \<Rightarrow> ('kv, 'x, 'z) world_scheme \<Rightarrow> hash \<Rightarrow> u64 \<Rightarrow> log_entry list list" where
  "GetLogs G w blockHash number = ReadLogs G (kvdb w) blockHash number"

text \<open>
  \<^verbatim>\<open>immediateReceipts\<close>: the possible results; \<open>std\<close> is libevm's method of the same name, which the receipts of
  cleared transactions come from.
\<close>

definition GetTransactionReceipt :: "('kv, 'db, 'm, 'j, 'bd, 'bl) geth \<Rightarrow> (hash \<Rightarrow> 'j option res) \<Rightarrow> ('kv, 'x, 't, 'c, 'z) exec_world_scheme
    \<Rightarrow> bool \<Rightarrow> hash \<Rightarrow> 'j option res list" where
  "GetTransactionReceipt G std w ctxDone h =
     map (\<lambda>(r, ok, err).
       case err of
         Some e \<Rightarrow> Inl e
       | None \<Rightarrow>
           if \<not> ok then std h
           else case r of
             None \<Rightarrow> Inl nil_deref
           | Some r \<Rightarrow>
               let rc = tr_Receipt r
               in Inr (Some (MarshalReceipt G rc (r_BlockHash rc) (word_of_int (ReceiptBlockNumber G rc)) (tr_Signer r) (tr_Tx r)
                    (ReceiptTransactionIndex G rc))))
       (RecentReceipt w ctxDone h)"

section \<open>Gas price (gasprice.go, custom.go)\<close>

text \<open>The estimator's view of the chain. \<open>B\<close> has the transaction's tip and the cache, which are libevm's and avalanchego's.\<close>

definition estimatorBackend :: "('kv, 'x, 'e) env_scheme \<Rightarrow> price_fun \<Rightarrow> ('kv, 'x, 'z) world_scheme \<Rightarrow> ptr \<Rightarrow> ('c, 'b) gp_backend_scheme
    \<Rightarrow> ('c, 'b) gp_backend_scheme" where
  "estimatorBackend E calc w lastAccepted B = B\<lparr>ResolveBlockNumber := ResolveRPCNumber w,
     BlockByNumber := (\<lambda>n. rpc_BlockByNumber E w (BlockNumber (sint n))),
     LastAcceptedNumber := NumberU64 w lastAccepted, LastAcceptedBaseFee := accepted_base_fee calc w lastAccepted\<rparr>"

record price_option =
  GasTip :: int
  GasFee :: int

record price_options =
  Slow :: price_option
  Normal :: price_option
  Fast :: price_option

definition estimateNextBaseFee :: "price_fun \<Rightarrow> ('kv, 'x, 'z) world_scheme \<Rightarrow> int option res" where
  "estimateNextBaseFee calc w = res_bind (frontier w CellLastAccepted) (\<lambda>b. Inr (accepted_base_fee calc w b))"

definition newPrice :: "int \<Rightarrow> int \<Rightarrow> price_option" where
  "newPrice tip baseFee = \<lparr>GasTip = tip, GasFee = tip + baseFee\<rparr>"

definition minGasTip :: int where
  "minGasTip = 1"

definition slowTipPercent :: u64 where
  "slowTipPercent = 95"

definition fastTipPercent :: u64 where
  "fastTipPercent = 105"

definition price_scale :: "int \<Rightarrow> u64 \<Rightarrow> int" where
  "price_scale v percent = uint percent * v div 100"

definition NewPriceOptions :: "int \<Rightarrow> int \<Rightarrow> price_options" where
  "NewPriceOptions tip baseFee =
     (let slowTip = max (price_scale tip slowTipPercent) minGasTip;
          normalTip = max tip slowTip;
          fastTip = max (price_scale tip fastTipPercent) normalTip
      in \<lparr>Slow = newPrice slowTip baseFee, Normal = newPrice normalTip baseFee, Fast = newPrice fastTip baseFee\<rparr>)"

definition SuggestPriceOptions :: "price_fun \<Rightarrow> ('c, 'b) gp_backend_scheme \<Rightarrow> gp_config \<Rightarrow> ('kv, 'x, 'z) world_scheme \<Rightarrow> 'c estimator
    \<Rightarrow> price_options res \<times> 'c estimator" where
  "SuggestPriceOptions calc B c w e =
     (case SuggestGasTipCap B c e of (tip, e') \<Rightarrow>
        (case estimateNextBaseFee calc w of
           Inl err \<Rightarrow> (Inl err, e')
         | Inr None \<Rightarrow> (Inl nil_deref, e')
         | Inr (Some fee) \<Rightarrow> (Inr (NewPriceOptions tip (push_bit 1 fee)), e')))"

text \<open>
  \<^verbatim>\<open>CallDetailed\<close>, over the result of libevm's \<^verbatim>\<open>DoCall\<close>; \<open>revert\<close> is \<^verbatim>\<open>NewRevertError\<close> with its message and code.
\<close>

record call_result =
  cr_UsedGas :: u64
  cr_Err :: "go_error option"
  cr_ReturnData :: encoding

record detailed_result =
  dr_UsedGas :: u64
  dr_ErrCode :: int
  dr_Err :: "string option"
  dr_ReturnData :: encoding

definition CallDetailed :: "go_error \<Rightarrow> (encoding \<Rightarrow> string \<times> int) \<Rightarrow> (go_error \<Rightarrow> string) \<Rightarrow> call_result res \<Rightarrow> detailed_result res" where
  "CallDetailed errExecutionReverted revert message result =
     res_bind result (\<lambda>r.
     let reply = \<lparr>dr_UsedGas = cr_UsedGas r, dr_ErrCode = 0, dr_Err = None, dr_ReturnData = cr_ReturnData r\<rparr>
     in Inr (case cr_Err r of
          None \<Rightarrow> reply
        | Some err \<Rightarrow>
            if errors_Is err errExecutionReverted
            then (case revert (cr_ReturnData r) of (msg, code) \<Rightarrow> reply\<lparr>dr_Err := Some msg, dr_ErrCode := code\<rparr>)
            else reply\<lparr>dr_Err := Some (message err)\<rparr>))"

text \<open>
  The goroutine of \<^verbatim>\<open>NewAcceptedTransactions\<close> on a block from its channel: what it notifies of, in this order, until a
  notification fails. It goes on with the next block if none did.
\<close>

datatype 'j accepted_tx = FullTx 'j | TxHash hash

definition accepted_txs :: "('kv, 'x, 'e) env_scheme \<Rightarrow> ('kv, 'db, 'm, 'j, 'bd, 'bl) geth \<Rightarrow> ('kv, 'x, 'z) world_scheme \<Rightarrow> bool option \<Rightarrow> ptr
    \<Rightarrow> 'j accepted_tx list" where
  "accepted_txs E G w fullTx b =
     map (\<lambda>(i, tx). if fullTx = Some True
         then FullTx (NewRPCTransaction G tx (Hash E w b) (NumberU64 w b) (BuildTime w b) i (BaseFee (Header w b)))
         else TxHash (tx_Hash tx))
       (enumerate 0 (Transactions w b))"

fun notify_all :: "('d \<Rightarrow> 'n \<Rightarrow> bool \<times> 'n) \<Rightarrow> 'd list \<Rightarrow> 'n \<Rightarrow> bool \<times> 'n" where
  "notify_all Notify [] n = (True, n)"
| "notify_all Notify (d # ds) n = (case Notify d n of (ok, n') \<Rightarrow> if ok then notify_all Notify ds n' else (False, n'))"

definition NewAcceptedTransactions_block :: "('kv, 'x, 'e) env_scheme \<Rightarrow> ('kv, 'db, 'm, 'j, 'bd, 'bl) geth \<Rightarrow> ('kv, 'x, 'z) world_scheme
    \<Rightarrow> ('j accepted_tx \<Rightarrow> 'n \<Rightarrow> bool \<times> 'n) \<Rightarrow> bool option \<Rightarrow> ptr \<Rightarrow> 'n \<Rightarrow> bool \<times> 'n" where
  "NewAcceptedTransactions_block E G w Notify fullTx b n = notify_all Notify (accepted_txs E G w fullTx b) n"

section \<open>Transactions and the pool (transactions.go, mempool.go)\<close>

definition rpc_GetTransaction :: "('kv, 'db, 'm, 'j, 'bd, 'bl) geth \<Rightarrow> ('kv, 'x, 'z) world_scheme \<Rightarrow> hash
    \<Rightarrow> bool \<times> transaction option \<times> hash \<times> u64 \<times> u64" where
  "rpc_GetTransaction G w txHash =
     (case ReadTransaction G (kvdb w) txHash of
        (None, _) \<Rightarrow> (False, None, 0, 0, 0)
      | (Some tx, rest) \<Rightarrow> (True, Some tx, rest))"

text \<open>\<open>pending\<close> is \<^verbatim>\<open>Pool.Pending\<close>, in the order in which the map is iterated.\<close>

definition GetPoolTransactions :: "(address \<times> lazy_tx list) list \<Rightarrow> transaction list" where
  "GetPoolTransactions pending = concat (map (\<lambda>(_, batch). List.map_filter lt_Resolve batch) pending)"

section \<open>Indexing, subscriptions and the server (indexing.go, subscriptions.go, server.go, net.go)\<close>

definition OverrideHeaderBloom :: "('kv, 'x, 'e) env_scheme \<Rightarrow> ('kv, 'db, 'm, 'j, 'bd, 'bl) geth \<Rightarrow> ('kv, 'x, 'z) world_scheme \<Rightarrow> header \<Rightarrow> 'bl" where
  "OverrideHeaderBloom E G w hdr = CreateBloom G (ReadRawReceipts E (kvdb w) (HeaderHash E hdr) (word_of_int (Number hdr)))"

text \<open>The number of blocks in a section of the bloom index; the default is libevm's \<^verbatim>\<open>BloomBitsBlocks\<close>.\<close>

definition bloom_section_size :: "u64 \<Rightarrow> u64 \<Rightarrow> u64" where
  "bloom_section_size bloomBitsBlocks sz = (if sz = 0 \<or> 2147483647 < sz then bloomBitsBlocks else sz)"

record noop_subscription =
  once_done :: bool
  err_closed :: bool

definition newNoopSubscription :: noop_subscription where
  "newNoopSubscription = \<lparr>once_done = False, err_closed = False\<rparr>"

text \<open>Closing a closed channel panics.\<close>

definition noop_Unsubscribe :: "noop_subscription \<Rightarrow> noop_subscription res" where
  "noop_Unsubscribe s =
     (if once_done s then Inr s
      else if err_closed s then Inl (Panic ''close of closed channel'')
      else Inr \<lparr>once_done = True, err_closed = True\<rparr>)"

record rpc_config =
  EnableDBInspecting :: bool
  EnableProfiling :: bool
  DisableTracing :: bool

datatype rpc_api = Web3API | NetAPI | TxPoolAPI | EthereumAPI | BlockChainAPI | ImmediateReceiptsAPI | FilterAPI | CustomAPI
  | DebugAPI | DebugHandler | TracersAPI

definition rpc_apis :: "rpc_config \<Rightarrow> (string \<times> rpc_api) list" where
  "rpc_apis c =
     [(''web3'', Web3API), (''net'', NetAPI), (''txpool'', TxPoolAPI), (''eth'', EthereumAPI), (''eth'', BlockChainAPI),
      (''eth'', ImmediateReceiptsAPI), (''eth'', FilterAPI), (''eth'', CustomAPI)]
     @ (if EnableDBInspecting c then [(''debug'', DebugAPI)] else [])
     @ (if EnableProfiling c then [(''debug'', DebugHandler)] else [])
     @ (if \<not> DisableTracing c then [(''debug'', TracersAPI)] else [])"

fun register_all :: "(string \<Rightarrow> rpc_api \<Rightarrow> 's \<Rightarrow> go_error option \<times> 's) \<Rightarrow> (string \<times> rpc_api) list \<Rightarrow> 's \<Rightarrow> 's res" where
  "register_all RegisterName [] s = Inr s"
| "register_all RegisterName ((ns, api) # apis) s =
     (case RegisterName ns api s of (Some _, _) \<Rightarrow> Inl (ErrOther ''RegisterName'') | (None, s') \<Rightarrow> register_all RegisterName apis s')"

definition rpc_server :: "(string \<Rightarrow> rpc_api \<Rightarrow> 's \<Rightarrow> go_error option \<times> 's) \<Rightarrow> 's \<Rightarrow> rpc_config \<Rightarrow> 's res" where
  "rpc_server RegisterName s c = register_all RegisterName (rpc_apis c) s"

text \<open>The peers include the node itself.\<close>

definition PeerCount :: "int \<Rightarrow> nat" where
  "PeerCount c = (if c \<le> 0 then 0 else nat c - 1)"

section \<open>Suggested prices\<close>

lemma price_tips:
  fixes tip d :: int
  shows "d \<le> max tip 0 \<Longrightarrow> max tip (max d 1) = max tip 1"
    and "100 * d \<le> 105 * tip \<Longrightarrow> 100 * max d (max tip 1) \<le> 105 * max tip 1"
    and "d \<le> max tip 0 \<Longrightarrow> max d 1 \<le> max tip 1"
  by (auto simp: max_def split: if_splits)

text \<open>The suggested prices are ordered. The slow, normal and fast tips are at least the minimum and increase in this order;
  the normal tip is the estimator's, raised to the minimum, the slow one at most it and the fast one at most five per cent above; and
  every fee cap leaves twice the estimated base fee beside the tip. The call fails only if there is no last accepted
  block or it has no base fee to estimate from.\<close>

theorem SuggestPriceOptions_spec:
  "case SuggestPriceOptions calc B c w e of
     (Inr p, e') \<Rightarrow>
       \<exists>tip fee. SuggestGasTipCap B c e = (tip, e') \<and> estimateNextBaseFee calc w = Inr (Some fee)
         \<and> minGasTip \<le> GasTip (Slow p) \<and> GasTip (Slow p) \<le> GasTip (Normal p) \<and> GasTip (Normal p) \<le> GasTip (Fast p)
         \<and> GasTip (Normal p) = max tip minGasTip
         \<and> GasTip (Slow p) = max (95 * tip div 100) minGasTip
         \<and> 100 * GasTip (Fast p) \<le> 105 * GasTip (Normal p)
         \<and> map GasFee [Slow p, Normal p, Fast p] = map (\<lambda>o'. GasTip o' + 2 * fee) [Slow p, Normal p, Fast p]
   | (Inl err, _) \<Rightarrow> cells w CellLastAccepted = None \<or> estimateNextBaseFee calc w = Inr None"
proof (cases "estimateNextBaseFee calc w")
  case (Inl err)
  then show ?thesis
    by (auto simp: SuggestPriceOptions_def estimateNextBaseFee_def frontier_def deref_def split: prod.splits option.splits)
next
  case (Inr fee)
  show ?thesis
  proof (cases fee)
    case (Some f)
    obtain tip e' where t: "SuggestGasTipCap B c e = (tip, e')" by fastforce
    let ?p = "NewPriceOptions tip (push_bit 1 f)"
    have s: "95 * tip div 100 \<le> max tip 0" and g: "100 * (105 * tip div 100) \<le> 105 * tip" by linarith+
    have "GasTip (Slow ?p) = max (95 * tip div 100) minGasTip" "GasTip (Normal ?p) = max tip minGasTip"
      "GasTip (Fast ?p) = max (105 * tip div 100) (max tip minGasTip)"
      using price_tips(1) [OF s] by (simp_all add: NewPriceOptions_def newPrice_def price_scale_def slowTipPercent_def fastTipPercent_def minGasTip_def
          Let_def)
    moreover have "map GasFee [Slow ?p, Normal ?p, Fast ?p] = map (\<lambda>o'. GasTip o' + 2 * f) [Slow ?p, Normal ?p, Fast ?p]"
      by (simp add: NewPriceOptions_def newPrice_def Let_def push_bit_eq_mult)
    moreover have P: "SuggestPriceOptions calc B c w e = (Inr ?p, e')" using Inr Some t by (simp add: SuggestPriceOptions_def)
    ultimately show ?thesis
      unfolding P prod.case sum.case using Inr Some t price_tips(2) [OF g, folded minGasTip_def] price_tips(3) [OF s, folded minGasTip_def]
      by (intro exI [where x = tip] exI [where x = f] conjI) (auto simp only: max.cobounded1 max.cobounded2)
  qed (simp add: Inr SuggestPriceOptions_def split: prod.splits)
qed

section \<open>The chain that the estimator sees\<close>

definition canonical_block :: "('kv, 'x, 'e) env_scheme \<Rightarrow> ('kv, 'x, 'z) world_scheme \<Rightarrow> u64 \<Rightarrow> eth_block option" where
  "canonical_block E w n = ReadBlock E (kvdb w) (ReadCanonicalHash E (kvdb w) n) n"

text \<open>The estimator of the RPC backend sees the canonical chain up to the last accepted block, and nothing beyond it: a block
  that is not accepted yet is reported as missing, not as an error. So it sees a view of the chain in the sense of the
  estimator's own theorems.\<close>

lemma estimatorBackend_view:
  assumes "cells w CellLastAccepted = Some a"
  shows "chain_view (canonical_block E w) (BlockByNumber (estimatorBackend E calc w a B))"
    and "n < 2 ^ 63 \<Longrightarrow> BlockByNumber (estimatorBackend E calc w a B) n = Inr (if n \<le> NumberU64 w a then canonical_block E w n else None)"
proof -
  have h: "Height w a = NumberU64 w a" by (simp add: accessor_defs)
  have s: "word_of_int (sint n) = n" for n :: u64 by simp
  have b: "BlockByNumber (estimatorBackend E calc w a B) n =
      (if sint n < 0 then Inl (ErrOther ''block unsupported'') else Inr (if n \<le> NumberU64 w a then canonical_block E w n else None))" for n
    using assms by (auto simp: estimatorBackend_def rpc_BlockByNumber_def readByNumber_def FromNumber_def ResolveRPCNumber_def frontier_def deref_def
        WithNilErr_def notFoundIsNil_def canonical_block_def Let_def s h not_less)
  show "chain_view (canonical_block E w) (BlockByNumber (estimatorBackend E calc w a B))"
    by (auto simp: chain_view_def b split: if_splits)
  show "BlockByNumber (estimatorBackend E calc w a B) n = Inr (if n \<le> NumberU64 w a then canonical_block E w n else None)" if "n < 2 ^ 63"
  proof -
    have "unat n < 2 ^ 63" using that by (simp add: word_less_nat_alt)
    then have "sint n = int (unat n)" by (simp add: sint_u64_small)
    then show ?thesis by (simp add: b)
  qed
qed

section \<open>Results of execution, from memory or from disk\<close>

text \<open>A block that is stored under its hash and number as a canonical block, and the requests that name it.\<close>

definition on_disk :: "('kv, 'x, 'e) env_scheme \<Rightarrow> ('kv, 'x, 'z) world_scheme \<Rightarrow> ptr \<Rightarrow> bool" where
  "on_disk E w b \<longleftrightarrow>
     ReadBlock E (kvdb w) (Hash E w b) (NumberU64 w b) = Some (EthBlock w b)
   \<and> ReadHeader E (kvdb w) (Hash E w b) (NumberU64 w b) = Some (Header w b)
   \<and> ReadHeaderNumber E (kvdb w) (Hash E w b) = Some (NumberU64 w b)
   \<and> ReadCanonicalHash E (kvdb w) (NumberU64 w b) = Hash E w b"

definition names_block :: "('kv, 'x, 'e) env_scheme \<Rightarrow> ('kv, 'x, 'z) world_scheme \<Rightarrow> ptr \<Rightarrow> number_or_hash \<Rightarrow> bool" where
  "names_block E w b nh \<longleftrightarrow>
     (case (nh_Number nh, nh_Hash nh) of
        (None, Some h) \<Rightarrow> h = Hash E w b
      | (Some n, None) \<Rightarrow> ResolveRPCNumber w n = Inr (NumberU64 w b)
      | _ \<Rightarrow> False)"

lemma critical_simps [simp]:
  "kvdb (w\<lparr>critical := cr\<rparr>) = kvdb w" "xdb (w\<lparr>critical := cr\<rparr>) = xdb w" "heap (w\<lparr>critical := cr\<rparr>) = heap w"
  "cells (w\<lparr>critical := cr\<rparr>) = cells w" "ex_tracker (w\<lparr>critical := cr\<rparr>) = ex_tracker w"
  "NumberU64 (w\<lparr>critical := cr\<rparr>) b = NumberU64 w b" "Hash E (w\<lparr>critical := cr\<rparr>) b = Hash E w b"
  "Header (w\<lparr>critical := cr\<rparr>) b = Header w b" "EthBlock (w\<lparr>critical := cr\<rparr>) b = EthBlock w b"
  "Height (w\<lparr>critical := cr\<rparr>) b = Height w b"
  by (simp_all add: accessor_defs)

lemma ResolveRPCNumber_critical [simp]: "ResolveRPCNumber (w\<lparr>critical := cr\<rparr>) n = ResolveRPCNumber w n"
  by (cases n) (simp_all add: ResolveRPCNumber_def frontier_def)

lemma named_resolves:
  assumes "on_disk E w b" and "names_block E w b nh"
    and "critical_Load (w\<lparr>critical := cr\<rparr>) (Hash E w b) \<in> {None, Some b}"
  shows "ResolveRPCNumberOrHash E (w\<lparr>critical := cr\<rparr>) (critical_Load (w\<lparr>critical := cr\<rparr>)) (nh\<lparr>RequireCanonical := True\<rparr>)
    = Inr (NumberU64 w b, Hash E w b)"
proof (cases "nh_Number nh")
  case None
  then have "nh_Hash nh = Some (Hash E w b)" using assms(2) by (auto simp: names_block_def split: option.splits)
  then show ?thesis using None assms(1,3) by (auto simp: ResolveRPCNumberOrHash_def on_disk_def Let_def)
next
  case (Some n)
  then have "nh_Hash nh = None" "ResolveRPCNumber w n = Inr (NumberU64 w b)"
    using assms(2) by (auto simp: names_block_def split: option.splits)
  then show ?thesis using Some assms(1) by (simp add: ResolveRPCNumberOrHash_def on_disk_def)
qed

lemma MarkExecuted_frame:
  assumes "MarkExecuted E b g wall bf rs postRoot c w = (Inr u, w')"
  shows "eth (heap w' d) = eth (heap w d)" and "c = Some cl \<Longrightarrow> cells w' cl = Some b"
proof -
  have "eth (heap w' d) = eth (heap w d) \<and> (c = Some cl \<longrightarrow> cells w' cl = Some b)"
    using assms
  proof (cases rule: MarkExecuted_cases)
    case (run e w1)
    from run(3) show ?thesis
      by (rule markExecuted_Inr) (auto simp: executed_world_def log_only_simps [OF run(2)] upd_blk_def)
  qed simp
  then show "eth (heap w' d) = eth (heap w d)" and "c = Some cl \<Longrightarrow> cells w' cl = Some b" by blast+
qed

lemma setBaseFee_uint:
  assumes "setBaseFee (Some (uint fee)) e = Inr e'"
  shows "er_baseFee e' = fee"
  using assms by (auto simp: setBaseFee_def SetFromBig_def split: if_splits prod.splits)

text \<open>C38: The state and the header that \<open>StateAndHeaderByNumberOrHash\<close> returns for an executed block do not depend on whether the
  block is still in memory. After \<open>MarkExecuted\<close> of a canonical block, and whatever has left the set of consensus-critical
  blocks since, a request by hash or number that names the block opens the state at the post-execution root and gets the
  block's header with this root and the base fee at which the block was executed.\<close>

theorem StateAndHeader_memory_or_disk:
  fixes fee :: u256
  assumes "xdb_laws E" and "canoto_laws E"
    and run: "MarkExecuted E b g wall (Some (uint fee)) rs postRoot c w = (Inr u, w')"
    and hashes: "DeriveSha E rs < 2 ^ 256" "postRoot < 2 ^ 256"
    and disk: "on_disk E w' b" and named: "names_block E w' b nh" "nh_Number nh \<noteq> Some PendingBlockNumber"
    and crit: "critical_Load (w'\<lparr>critical := cr\<rparr>) (Hash E w' b) \<in> {None, Some b}"
  shows "StateAndHeaderByNumberOrHash E V (w'\<lparr>critical := cr\<rparr>) nh
    = res_bind (OpenStateDB V postRoot (cache (ex_tracker w'))) (\<lambda>sdb.
        Inr (sdb, (Header w' b)\<lparr>Root := postRoot, BaseFee := Some (uint fee)\<rparr>))"
proof -
  obtain e where fee: "setBaseFee (Some (uint fee)) (results_of E g wall rs postRoot) = Inr e"
    and ex: "execution (heap w' b) = Some e" "executed_closed (heap w' b)"
    and load: "loadExecutionResults E (xdb w') (NumberU64 w b) = Inr (without_ephemeral e)"
    using MarkExecuted_persists [OF assms(1,2) run hashes] .
  have e: "stateRootPost e = postRoot" "er_baseFee e = fee"
    using setBaseFee_fields [OF fee] setBaseFee_uint [OF fee] by (simp_all add: results_of_def)
  have n: "NumberU64 w' b = NumberU64 w b" by (simp add: accessor_defs MarkExecuted_frame(1) [OF run])
  have "faked_header E (w'\<lparr>critical := cr\<rparr>) (NumberU64 w' b) (Hash E w' b) = Inr ((Header w' b)\<lparr>Root := postRoot, BaseFee := Some (uint fee)\<rparr>)"
    using crit ex load e disk
    by (auto simp: faked_header_def on_disk_def n PostExecutionStateRoot_def ExecutedBaseFee_def executionArtefact_def
        persisted_PostExecutionStateRoot_def ExecutionBaseFee_def persistedExecutionArtefact_def without_ephemeral_def)
  then show ?thesis
    using named_resolves [OF disk named(1) crit] named(2) by (simp add: StateAndHeaderByNumberOrHash_def rpc_StateDB_def)
qed

lemma restored_block_run:
  assumes "cells w CellLastExecuted = Some l" and "num \<le> Height w l" and "ReadBlock E (kvdb w) h num = Some eb"
    and "loadExecutionResults E (xdb w) (word_of_int (Number (eb_header eb))) = Inr e"
    and "DeriveFields E (HeaderHash E (eb_header eb)) (word_of_int (Number (eb_header eb))) (hdr_Time (eb_header eb)) (uint (er_baseFee e))
      (eb_txs eb) (ReadRawReceipts E (kvdb w) (HeaderHash E (eb_header eb)) (word_of_int (Number (eb_header eb)))) = Inr rs"
  obtains w' where "restored_block E h num w = (Inr (fresh w), w')" and "Executed w' (fresh w)" and "Receipts w' (fresh w) = Inr rs"
    and "EthBlock w' (fresh w) = eb" and "cells w' = cells w" and "\<And>b. b \<noteq> fresh w \<Longrightarrow> heap w' b = heap w b"
proof -
  define w1 where "w1 = upd_blk (fresh w) (\<lambda>k. k\<lparr>ancestry := Some \<lparr>anc_parent = None, anc_lastSettled = None\<rparr>\<rparr>)
    (w\<lparr>heap := (heap w)(fresh w := zero_blk eb), fresh := fresh w + 1, inMemoryBlockCount := inMemoryBlockCount w + 1\<rparr>)"
  have w1: "eth (heap w1 (fresh w)) = eb" "execution (heap w1 (fresh w)) = None" "\<not> executed_closed (heap w1 (fresh w))"
    "xdb w1 = xdb w" "kvdb w1 = kvdb w" "cells w1 = cells w" "\<And>b. b \<noteq> fresh w \<Longrightarrow> heap w1 b = heap w b"
    by (simp_all add: w1_def upd_blk_def zero_blk_def)
  have acc: "NumberU64 w1 (fresh w) = word_of_int (Number (eb_header eb))" "Hash E w1 (fresh w) = HeaderHash E (eb_header eb)"
    "BuildTime w1 (fresh w) = hdr_Time (eb_header eb)" "Transactions w1 (fresh w) = eb_txs eb"
    by (simp_all add: accessor_defs w1)
  have n: "blocks_New E (Some eb) None None w = (Inr (fresh w), w1)" by (simp add: blocks_New_unlinked w1_def)
  let ?w' = "executed_world E (fresh w) (e\<lparr>er_receipts := rs\<rparr>) None (emit (EvLoad (NumberU64 w1 (fresh w))) w1)"
  have r: "RestoreExecutionArtefacts E (fresh w) w1 = (Inr (), ?w')"
    by (rule RestoreExecutionArtefacts_ok) (use assms(4,5) w1 in \<open>simp_all add: acc\<close>)
  show thesis
  proof (rule that [of ?w'])
    show "restored_block E h num w = (Inr (fresh w), ?w')"
      using assms(1,2,3) n r by (simp add: restored_block_def prog_simps deref_def not_less)
  qed (simp_all add: executed_world_def announce_def Executed_def Receipts_def executionArtefact_def EthBlock_def upd_blk_def w1)
qed


section \<open>Replay\<close>

text \<open>What the transactions of a block do to the gas pool, the gas used and the state.\<close>

fun replay :: "('db, 't, 'c, 'v) evm_scheme \<Rightarrow> (hash \<Rightarrow> u64 \<Rightarrow> header option) \<Rightarrow> header \<Rightarrow> nat \<Rightarrow> transaction list \<Rightarrow> u64 \<times> u64 \<times> 'db
    \<Rightarrow> (u64 \<times> u64 \<times> 'db) res" where
  "replay V cc hdr ti [] s = Inr s"
| "replay V cc hdr ti (tx # txs) (pool, used, db) =
     res_bind (ApplyTransaction V cc hdr tx pool used (SetTxContext V (tx_Hash tx) ti db)) (\<lambda>(r, s). replay V cc hdr (Suc ti) txs s)"

lemma replay_append:
  "replay V cc hdr ti (xs @ ys) s = res_bind (replay V cc hdr ti xs s) (\<lambda>s. replay V cc hdr (ti + length xs) ys s)"
proof (induction xs arbitrary: ti s)
  case (Cons tx xs)
  then show ?case by (cases s) (auto simp: res_bind_def split: sum.splits prod.splits)
qed simp

lemma Execute_txs_replay:
  assumes "Execute_txs E S V cc rstore b hdr bf sig ti txs lp w = (Inr (rs, lp'), w')"
  shows "replay V cc hdr ti txs (gasPool lp, blockGasConsumed lp, lp_db lp) = Inr (gasPool lp', blockGasConsumed lp', lp_db lp')"
  using assms
proof (induction txs arbitrary: ti lp w rs)
  case (Cons tx txs)
  from Cons.prems obtain r lp1 w1 rs1 where tx: "Execute_tx E S V cc rstore b hdr bf sig ti tx lp w = (Inr (r, lp1), w1)"
    and rest: "Execute_txs E S V cc rstore b hdr bf sig (Suc ti) txs lp1 w1 = (Inr (rs1, lp'), w')"
    by (auto simp: mbind_Inr mreturn_apply)
  obtain r0 where "ApplyTransaction V cc hdr tx (gasPool lp) (blockGasConsumed lp) (SetTxContext V (tx_Hash tx) ti (lp_db lp))
      = Inr (r0, gasPool lp1, blockGasConsumed lp1, lp_db lp1)"
    using tx by (auto simp: Execute_tx_def Let_def mbind_Inr mmod_apply mget_apply mlift_apply mreturn_apply mfail_apply split: sum.splits)
  then show ?case using Cons.IH [OF rest] by simp
qed (simp add: mreturn_apply)

text \<open>A run that changes nothing but one block and the trace of effects.\<close>

definition only_block :: "ptr \<Rightarrow> ('kv, 'x, 'z) world_scheme \<Rightarrow> ('kv, 'x, 'z) world_scheme \<Rightarrow> bool" where
  "only_block b w w' \<longleftrightarrow> (\<exists>k tr. w' = w\<lparr>heap := (heap w)(b := k), trace := tr\<rparr>)"

lemma only_block_refl: "only_block b w w"
  unfolding only_block_def by (rule exI [of _ "heap w b"], rule exI [of _ "trace w"]) simp

lemma only_block_trans: "only_block b w w' \<Longrightarrow> only_block b w' w'' \<Longrightarrow> only_block b w w''"
  unfolding only_block_def by (elim exE) (simp, metis)

lemma only_block_steps: "only_block b w (emit ev w)" "only_block b w (upd_blk b f w)"
  unfolding only_block_def emit_def upd_blk_def
  by (rule exI [of _ "heap w b"], rule exI [of _ "ev # trace w"], simp) (rule exI [of _ "f (heap w b)"], rule exI [of _ "trace w"], simp)

lemma preserves_only_mmod: "(\<And>v. only_block b v (f v)) \<Longrightarrow> preserves (only_block b w) (mmod f)"
  by (auto intro!: preserves_mmod elim: only_block_trans)

lemma only_log_all: "only_block b w (log_all evs w)"
proof (induction evs arbitrary: w)
  case (Cons ev evs)
  then show ?case using only_block_trans [OF only_block_steps(1) [of b w ev]] by (simp add: log_all_def)
qed (simp add: log_all_def only_block_refl)

lemma only_interim: "preserves (only_block b w) (SetInterimExecutionTime b t)"
  by (auto simp: SetInterimExecutionTime_def intro!: preserves_only_mmod only_block_steps)

lemma only_put_receipt: "preserves (only_block b w) (put_receipt NullReceiptStore h r)"
  by (auto simp: put_receipt_def ReceiptStore_Load_def intro!: preserves_only_mmod only_block_refl)

lemmas only_rules = preserves_rules only_interim only_put_receipt preserves_only_mmod only_log_all

lemma only_Execute_txs: "preserves (only_block b w) (Execute_txs E S V cc NullReceiptStore b hdr bf sig ti txs lp)"
  by (induction txs arbitrary: ti lp) (auto simp: Execute_tx_def Let_def intro!: only_rules)

lemma only_Execute_ops: "preserves (only_block b w) (Execute_ops S b i ops lp)"
  by (induction ops arbitrary: i lp) (auto intro!: only_rules)

lemma only_Execute: "preserves (only_block b w) (Execute E calc H S V openDB cc NullReceiptStore m now b)"
  unfolding Execute_def Let_def by (intro only_rules only_Execute_txs only_Execute_ops)

lemma only_Restore: "preserves (only_block b w) (RestoreExecutionArtefacts E b)"
  unfolding RestoreExecutionArtefacts_def markExecutedAfterDiskArtefacts_def
  by (intro only_rules only_block_steps only_block_trans [OF only_block_steps(2) only_block_steps(1)]) simp_all

lemma Execute_some_ok:
  fixes w :: "('kv, 'x, 't, 'c, 'z) exec_world_scheme" and out :: "'d execution_outputs"
  assumes "Execute E calc H S V openDB cc rs m now b w = (Inr out, w')" and "ParentBlock w b = Some p"
  obtains rt db0 db1 rcpts lp1 ops lp2 clk sig w1 w2 where "PostExecutionStateRoot w p = Inr rt" and "openDB rt = Inr db0"
    and "BeforeExecutingBlock H (EthBlock w b) db0 = (None, db1)"
    and "Execute_txs E S V cc rs b (xr_BlockCtx out) (uint (xr_BaseFee out)) (xr_Signer out) 0
      (case m of None \<Rightarrow> eb_txs (EthBlock w b) | Some k \<Rightarrow> take k (eb_txs (EthBlock w b)))
      \<lparr>lp_db = db1, gasPool = MaxUint64, blockGasConsumed = 0, perTxClock = clk\<rparr> w1 = (Inr (rcpts, lp1), w2)"
    and "EndOfBlockOps H (EthBlock w b) = Inr ops" and "Execute_ops S b (length (eb_txs (EthBlock w b))) ops lp1 w2 = (Inr lp2, w')"
    and "AfterExecutingBlock H (EthBlock w b) rcpts (lp_db lp2) = (None, xr_StateDB out)"
    and "xr_BlockCtx out = (eb_header (EthBlock w b))\<lparr>BaseFee := Some (uint (xr_BaseFee out))\<rparr>" and "xr_Signer out = Signer w b"
proof -
  have sig: "Signer (log_all evs w) b = Signer w b" for evs by (simp add: Signer_def accessor_defs)
  have opt: "(case err of None \<Rightarrow> mreturn y | Some e \<Rightarrow> mfail (Wrap [e])) v = (Inr z, v') \<longleftrightarrow> err = None \<and> y = z \<and> v = v'"
    for err and y z :: "'d execution_outputs" and v v' :: "('kv, 'x, 't, 'c, 'z) exec_world_scheme"
    by (cases err) (auto simp: mfail_apply mreturn_apply)
  have hook: "hook_err r err = Inr db \<longleftrightarrow> r = (None, db)" for r err and db :: 'd
    by (auto simp: hook_err_def split: prod.splits option.splits)
  show thesis
    using assms(1) unfolding Execute_def
    apply (clarsimp simp: mbind_Inr mget_apply mlift_apply mmod_apply mmap_err_Inr assms(2) deref_def Let_def sig hook opt)
    apply (rule that; (assumption | simp)+)
    done
qed

lemma Restore_ok:
  assumes "RestoreExecutionArtefacts E b w = (Inr u, w')"
  obtains e where "loadExecutionResults E (xdb w) (NumberU64 w b) = Inr e" and "PostExecutionStateRoot w' b = Inr (stateRootPost e)"
    and "eth (heap w' b) = eth (heap w b)" and "only_block b w w'"
proof -
  have only: "only_block b w w'" by (rule preservesD [OF only_Restore only_block_refl assms])
  from assms show thesis
  proof (cases rule: RestoreExecutionArtefacts_cases)
    case (run e rs)
    from run(3) show thesis
      by (cases rule: markExecutedAfterDiskArtefacts_cases)
        (use run(1,3) only that in \<open>auto simp: executed_world_def announce_def PostExecutionStateRoot_def executionArtefact_def upd_blk_def
          markExecutedAfterDiskArtefacts_def prog_simps\<close>)
  qed simp_all
qed

lemma blocks_New_root:
  assumes "blocks_New E ethB None None w = (Inr b, w')"
  shows "b = fresh w" and "\<exists>k. w' = w\<lparr>heap := (heap w)(fresh w := k), fresh := fresh w + 1, inMemoryBlockCount := inMemoryBlockCount w + 1\<rparr>"
proof -
  obtain eb where eb: "ethB = Some eb" using assms by (cases ethB) (auto simp: blocks_New_def mfail_apply)
  show "b = fresh w" using assms by (simp add: eb blocks_New_unlinked)
  show "\<exists>k. w' = w\<lparr>heap := (heap w)(fresh w := k), fresh := fresh w + 1, inMemoryBlockCount := inMemoryBlockCount w + 1\<rparr>"
    using assms by (intro exI [of _ "(zero_blk eb)\<lparr>ancestry := Some \<lparr>anc_parent = None, anc_lastSettled = None\<rparr>\<rparr>"], cases w)
      (auto simp: eb blocks_New_unlinked upd_blk_def)
qed

lemma blocks_New_child:
  assumes "blocks_New E (Some eb) (Some p) ls w = (Inr b, w')" and "p < fresh w"
  shows "b = fresh w" and "EthBlock w' b = eb" and "ParentBlock w' b = Some p" and "heap w' p = heap w p"
    and "Block_Number w p = Number (eb_header eb) - 1"
    and "\<exists>k. w' = w\<lparr>heap := (heap w)(b := k), fresh := fresh w + 1, inMemoryBlockCount := inMemoryBlockCount w + 1\<rparr>"
proof -
  define w0 where "w0 = w\<lparr>heap := (heap w)(fresh w := zero_blk eb), fresh := fresh w + 1, inMemoryBlockCount := inMemoryBlockCount w + 1\<rparr>"
  have x: "SetAncestors_check E (fresh w) (Some p) w0 = None" "b = fresh w"
    "w' = upd_blk b (\<lambda>k. k\<lparr>ancestry := Some \<lparr>anc_parent = Some p, anc_lastSettled = ls\<rparr>\<rparr>) w0"
    using assms(1) by (auto simp: blocks_New_def SetAncestors_def prog_simps w0_def split: option.splits)
  show "b = fresh w" by (rule x)
  show "EthBlock w' b = eb" "ParentBlock w' b = Some p" "heap w' p = heap w p"
    using x(2,3) assms(2) by (simp_all add: EthBlock_def ParentBlock_def ancestor_def w0_def upd_blk_def zero_blk_def)
  show "Block_Number w p = Number (eb_header eb) - 1"
    using x(1) assms(2) by (simp add: SetAncestors_check_def w0_def accessor_defs zero_blk_def split: if_splits)
  show "\<exists>k. w' = w\<lparr>heap := (heap w)(b := k), fresh := fresh w + 1, inMemoryBlockCount := inMemoryBlockCount w + 1\<rparr>"
    unfolding x(3) w0_def x(2)
    by (rule exI [of _ "(zero_blk eb)\<lparr>ancestry := Some \<lparr>anc_parent = Some p, anc_lastSettled = ls\<rparr>\<rparr>"], cases w) (simp add: upd_blk_def)
qed

text \<open>C37: Replay for tracing. When \<open>StateAtTransaction\<close> succeeds, it has opened the state at the root that the parent's persisted
  results have, run the before-block hook and replayed exactly the transactions before the target, in the order and with
  the block context in which the executor runs them, so that executing the whole block continues from that state; no
  end-of-block operation is applied. The state that is returned, however, is the one after the after-block hook, called with the
  receipts of the replayed transactions only. Nothing is changed but two blocks that the call creates: no block that
  exists, no frontier, no receipt buffer and no database.\<close>

theorem StateAtTransaction_replays:
  assumes "StateAtTransaction E calc H S V G headers now eb i w = (Inr (msg, hdr, db), w')"
  shows "\<exists>e db0 db1 pool used db2 rs.
     0 \<le> i \<and> nat i < length (eb_txs eb)
   \<and> loadExecutionResults E (xdb w) (word_of_int (Number (eb_header eb)) - 1) = Inr e
   \<and> OpenStateDB V (stateRootPost e) (cache (ex_tracker w)) = Inr db0
   \<and> BeforeExecutingBlock H eb db0 = (None, db1)
   \<and> replay V (GetHeader E V headers (recent w)) hdr 0 (take (nat i) (eb_txs eb)) (MaxUint64, 0, db1) = Inr (pool, used, db2)
   \<and> replay V (GetHeader E V headers (recent w)) hdr 0 (eb_txs eb) (MaxUint64, 0, db1)
      = replay V (GetHeader E V headers (recent w)) hdr (nat i) (drop (nat i) (eb_txs eb)) (pool, used, db2)
   \<and> AfterExecutingBlock H eb rs db2 = (None, db)
   \<and> TransactionToMessage G (eb_txs eb ! nat i) (Number (eb_header eb), hdr_Time (eb_header eb)) (the (BaseFee hdr)) = Inr msg
   \<and> (\<exists>k k' tr n. w' = w\<lparr>heap := (heap w)(fresh w := k, Suc (fresh w) := k'), fresh := fresh w + 2, inMemoryBlockCount := n, trace := tr\<rparr>)"
proof -
  let ?num = "word_of_int (Number (eb_header eb)) :: u64"
  from assms obtain parent wp u wr block wb out where i: "0 \<le> i" "nat i < length (eb_txs eb)"
    and new1: "blocks_New E (ReadBlock E (kvdb w) (ParentHash (eb_header eb)) (?num - 1)) None None w = (Inr parent, wp)"
    and rst: "RestoreExecutionArtefacts E parent wp = (Inr u, wr)"
    and new2: "blocks_New E (Some eb) (Some parent) None wr = (Inr block, wb)"
    and exe: "Execute E calc (noEndOfBlockOps H) S V (rpc_StateDB V wb) (GetHeader E V headers (recent wb)) NullReceiptStore
      (Some (nat i)) now block wb = (Inr out, w')"
    and msg: "TransactionToMessage G (eb_txs eb ! nat i) (xr_Signer out) (uint (xr_BaseFee out)) = Inr msg"
    and out: "hdr = xr_BlockCtx out" "db = xr_StateDB out"
    unfolding StateAtTransaction_def Let_def
    by (auto simp: mbind_Inr mget_apply mlift_apply mguard_def mreturn_apply mfail_apply mmap_err_Inr split: if_splits)
  note pb = blocks_New_root [OF new1]
  obtain k0 where wp: "wp = w\<lparr>heap := (heap w)(fresh w := k0), fresh := fresh w + 1, inMemoryBlockCount := inMemoryBlockCount w + 1\<rparr>"
    using pb(2) by blast
  obtain e where load: "loadExecutionResults E (xdb wp) (NumberU64 wp parent) = Inr e"
    and root: "PostExecutionStateRoot wr parent = Inr (stateRootPost e)" and eth: "eth (heap wr parent) = eth (heap wp parent)"
    and only: "only_block parent wp wr" by (rule Restore_ok [OF rst])
  obtain k1 tr1 where wr: "wr = wp\<lparr>heap := (heap wp)(parent := k1), trace := tr1\<rparr>" using only by (auto simp: only_block_def)
  have lt: "parent < fresh wr" by (simp add: wr wp pb(1))
  note child = blocks_New_child [OF new2 lt]
  obtain k2 where wb: "wb = wr\<lparr>heap := (heap wr)(block := k2), fresh := fresh wr + 1, inMemoryBlockCount := inMemoryBlockCount wr + 1\<rparr>"
    using child(6) by blast
  have "NumberU64 wp parent = ?num - 1" using child(5) eth by (simp add: accessor_defs)
  then have load': "loadExecutionResults E (xdb w) (?num - 1) = Inr e" using load by (simp add: wp)
  obtain rt db0 db1 rcpts lp1 ops lp2 clk w1 w2 where x: "PostExecutionStateRoot wb parent = Inr rt" "rpc_StateDB V wb rt = Inr db0"
    "BeforeExecutingBlock (noEndOfBlockOps H) (EthBlock wb block) db0 = (None, db1)"
    "Execute_txs E S V (GetHeader E V headers (recent wb)) NullReceiptStore block (xr_BlockCtx out) (uint (xr_BaseFee out)) (xr_Signer out) 0
      (take (nat i) (eb_txs eb)) \<lparr>lp_db = db1, gasPool = MaxUint64, blockGasConsumed = 0, perTxClock = clk\<rparr> w1 = (Inr (rcpts, lp1), w2)"
    "EndOfBlockOps (noEndOfBlockOps H) (EthBlock wb block) = Inr ops"
    "Execute_ops S block (length (eb_txs (EthBlock wb block))) ops lp1 w2 = (Inr lp2, w')"
    "AfterExecutingBlock (noEndOfBlockOps H) (EthBlock wb block) rcpts (lp_db lp2) = (None, xr_StateDB out)"
    "xr_BlockCtx out = (eb_header (EthBlock wb block))\<lparr>BaseFee := Some (uint (xr_BaseFee out))\<rparr>" "xr_Signer out = Signer wb block"
    by (rule Execute_some_ok [OF exe child(3), unfolded child(2) option.case])
      (simp add: child(2))
  have "PostExecutionStateRoot wb parent = PostExecutionStateRoot wr parent" by (simp add: PostExecutionStateRoot_def executionArtefact_def child(4))
  then have rt: "OpenStateDB V (stateRootPost e) (cache (ex_tracker w)) = Inr db0" using x(1,2) root by (simp add: rpc_StateDB_def wb wr wp)
  have lp: "lp2 = lp1" using x(5,6) by (auto simp: noEndOfBlockOps_def mreturn_apply)
  have r: "replay V (GetHeader E V headers (recent w)) hdr 0 (take (nat i) (eb_txs eb)) (MaxUint64, 0, db1)
      = Inr (gasPool lp1, blockGasConsumed lp1, lp_db lp1)"
    using Execute_txs_replay [OF x(4)] by (simp add: out wb wr wp)
  have r2: "replay V (GetHeader E V headers (recent w)) hdr 0 (eb_txs eb) (MaxUint64, 0, db1)
      = replay V (GetHeader E V headers (recent w)) hdr (nat i) (drop (nat i) (eb_txs eb)) (gasPool lp1, blockGasConsumed lp1, lp_db lp1)"
    using replay_append [of V "GetHeader E V headers (recent w)" hdr 0 "take (nat i) (eb_txs eb)" "drop (nat i) (eb_txs eb)"] r i(2) by simp
  have sig: "xr_Signer out = (Number (eb_header eb), hdr_Time (eb_header eb))" "the (BaseFee hdr) = uint (xr_BaseFee out)"
    using x(8,9) child(2) by (simp_all add: out Signer_def accessor_defs)
  have "only_block block wb w'" by (rule preservesD [OF only_Execute only_block_refl exe])
  then obtain k3 tr3 where "w' = wb\<lparr>heap := (heap wb)(block := k3), trace := tr3\<rparr>" by (auto simp: only_block_def)
  then have "w' = w\<lparr>heap := (heap w)(fresh w := k1, Suc (fresh w) := k3), fresh := fresh w + 2,
      inMemoryBlockCount := inMemoryBlockCount w + 2, trace := tr3\<rparr>"
    using child(1) by (simp add: wb wr wp pb(1))
  then show ?thesis
    using i load' rt x(3,7) r r2 msg sig lp out
    by (intro exI conjI) (assumption | simp add: noEndOfBlockOps_def child(2) | blast)+
qed

section \<open>A concrete backend\<close>

text \<open>Blocks 2 and 3 are accepted and not executed; block 2 is then executed.\<close>

definition sample_backend :: "(db_write list, (u64 \<times> encoding) list, hash \<Rightarrow> nat, unit) vm_world" where
  "sample_backend = sample_vm\<lparr>fresh := 4, cells := (\<lambda>c. if c = CellLastAccepted then Some 3 else Some 1),
     kvdb := [WriteBlock (sample_eth 2), WriteCanonicalHash 3 2, WriteBlock (sample_eth 3), WriteCanonicalHash 4 3],
     critical := [(1, 0), (2, 1), (3, 2), (4, 3)]\<rparr>"

definition sample_served :: "(db_write list, (u64 \<times> encoding) list, hash \<Rightarrow> nat, unit) vm_world" where
  "sample_served = snd (MarkExecuted sample_env 2 sample_gtime 7 (Some (uint (3 :: u256))) [] 9 (Some CellLastExecuted) sample_backend)"

abbreviation by_hash :: "hash \<Rightarrow> number_or_hash" where
  "by_hash h \<equiv> \<lparr>nh_Number = None, nh_Hash = Some h, RequireCanonical = False\<rparr>"

lemma sample_served_run:
  "MarkExecuted sample_env 2 sample_gtime 7 (Some (uint (3 :: u256))) [] 9 (Some CellLastExecuted) sample_backend = (Inr (), sample_served)"
  unfolding sample_served_def by (rule prod_eqI) (simp, code_simp, simp)

lemma sample_served_eth: "EthBlock sample_served b = sample_eth b"
  using MarkExecuted_frame(1) [OF sample_served_run, of b]
  by (simp add: EthBlock_def sample_backend_def sample_vm_def sample_vm_blk_def zero_blk_def init_world_def world.defs exec_world.defs)

lemma sample_served_read1: "ReadBlock sample_env (kvdb sample_served) 3 2 = Some (sample_eth 2)" by code_simp
lemma sample_served_read2: "ReadBlock sample_env (kvdb sample_served) 4 3 = Some (sample_eth 3)" by code_simp
lemma sample_served_read3: "ReadHeader sample_env (kvdb sample_served) 3 2 = Some (eb_header (sample_eth 2))" by code_simp
lemma sample_served_read4: "ReadHeader sample_env (kvdb sample_served) 4 3 = Some (eb_header (sample_eth 3))" by code_simp
lemma sample_served_read5: "ReadHeaderNumber sample_env (kvdb sample_served) 3 = Some 2" by code_simp
lemma sample_served_read6: "ReadHeaderNumber sample_env (kvdb sample_served) 4 = Some 3" by code_simp
lemma sample_served_read7: "ReadCanonicalHash sample_env (kvdb sample_served) 2 = 3" by code_simp
lemma sample_served_read8: "ReadCanonicalHash sample_env (kvdb sample_served) 3 = 4" by code_simp
lemma sample_served_read9: "ReadRawReceipts sample_env (kvdb sample_served) 3 2 = []" by code_simp
lemma sample_served_read10: "critical_Load sample_served 3 = Some 2" by code_simp
lemma sample_served_read11: "critical_Load sample_served 4 = Some 3" by code_simp
lemma sample_served_read12: "\<not> Executed sample_served 3" by code_simp

lemmas sample_served_reads = sample_served_read1 sample_served_read2 sample_served_read3 sample_served_read4 sample_served_read5 sample_served_read6 sample_served_read7 sample_served_read8 sample_served_read9 sample_served_read10 sample_served_read11 sample_served_read12

lemma sample_served_accessors:
  "Hash sample_env sample_served 2 = 3" "Hash sample_env sample_served 3 = 4" "NumberU64 sample_served 2 = 2" "NumberU64 sample_served 3 = 3"
  "Header sample_served b = eb_header (sample_eth b)" "Transactions sample_served 2 = []"
  using sample_served_eth
  by (simp_all add: accessor_defs EthBlock_def) (simp_all add: sample_env_def sample_eth_def)

lemma sample_served_facts:
  "on_disk sample_env sample_served 2" "names_block sample_env sample_served 2 (by_hash 3)"
  "on_disk sample_env sample_served 3" "names_block sample_env sample_served 3 (by_hash 4)"
  "critical_Load sample_served (Hash sample_env sample_served 3) = Some 3"
  by (simp_all add: on_disk_def names_block_def sample_served_accessors sample_served_reads sample_served_eth)

lemma sample_served_critical:
  "critical_Load (sample_served\<lparr>critical := []\<rparr>) (Hash sample_env sample_served 2) \<in> {None, Some 2}"
  by (simp add: critical_Load_def critical_map_def sm_Load_def)

lemma sample_served_hashes: "DeriveSha sample_env [] < 2 ^ 256" "(9 :: hash) < 2 ^ 256"
  by (simp_all add: sample_env_def)

theorem StateAndHeader_memory_or_disk_witness:
  "StateAndHeaderByNumberOrHash sample_env sample_evm (sample_served\<lparr>critical := []\<rparr>) (by_hash 3)
     = Inr (((\<lambda>_. 1000000000), (\<lambda>_. 0)), (eb_header (sample_eth 2))\<lparr>Root := 9, BaseFee := Some 3\<rparr>)"
  using StateAndHeader_memory_or_disk [OF sample_env_xdb sample_env_canoto sample_served_run sample_served_hashes sample_served_facts(1,2) _
      sample_served_critical, of sample_evm]
  by (simp add: sample_evm_def sample_served_accessors)


text \<open>A replay of the first of two transactions, with an after-block hook that changes every balance.\<close>

definition sample_pair :: eth_block where
  "sample_pair = (sample_eth 2)\<lparr>eb_txs := [sample_tx, sample_tx]\<rparr>"

definition sample_replay_points :: "((address \<Rightarrow> u256) \<times> (address \<Rightarrow> u64)) exec_points" where
  "sample_replay_points = sample_exec_points\<lparr>AfterExecutingBlock := (\<lambda>_ _ db. (None, ((\<lambda>_. 7), snd db)))\<rparr>"

definition sample_geth :: "(db_write list, (address \<Rightarrow> u256) \<times> (address \<Rightarrow> u64), hash, nat, unit, nat) geth" where
  "sample_geth = \<lparr>ReadBody = (\<lambda>_ _ _. None), BlockBody = (\<lambda>_. ()), ReadTransaction = (\<lambda>_ _. (None, 0, 0, 0)), ReadLogs = (\<lambda>_ _ _. []),
     TransactionToMessage = (\<lambda>tx _ _. Inr (tx_Hash tx)), ReceiptBlockNumber = (\<lambda>_. 0), ReceiptTransactionIndex = (\<lambda>_. 0),
     MarshalReceipt = (\<lambda>_ _ _ _ _ _. 0), NewRPCTransaction = (\<lambda>_ _ _ _ _ _. 0), CreateBloom = (\<lambda>_. 0)\<rparr>"

definition sample_traced :: "(db_write list, (u64 \<times> encoding) list, hash \<Rightarrow> nat, unit) vm_world" where
  "sample_traced = sample_vm\<lparr>fresh := 3, cells := (\<lambda>_. Some 1), kvdb := [WriteBlock (sample_eth 1), WriteCanonicalHash 2 1],
     xdb := [(1, list_results \<lparr>byGas = sample_gtime, er_baseFee = 1, receiptRoot = 0, stateRootPost = 5, byWall = 0, er_receipts = []\<rparr>)]\<rparr>"

definition sample_traced1 :: "(db_write list, (u64 \<times> encoding) list, hash \<Rightarrow> nat, unit) vm_world" where
  "sample_traced1 = snd (blocks_New sample_env (Some (sample_eth 1)) None None sample_traced)"

definition sample_traced2 :: "(db_write list, (u64 \<times> encoding) list, hash \<Rightarrow> nat, unit) vm_world" where
  "sample_traced2 = snd (RestoreExecutionArtefacts sample_env 3 sample_traced1)"

definition sample_traced3 :: "(db_write list, (u64 \<times> encoding) list, hash \<Rightarrow> nat, unit) vm_world" where
  "sample_traced3 = snd (blocks_New sample_env (Some sample_pair) (Some 3) None sample_traced2)"

lemma sample_traced_steps:
  "ReadBlock sample_env (kvdb sample_traced) 2 1 = Some (sample_eth 1)" "NumberU64 sample_traced 1 = 1"
  "fst (blocks_New sample_env (Some (sample_eth 1)) None None sample_traced) = Inr 3"
  "fst (RestoreExecutionArtefacts sample_env 3 sample_traced1) = Inr ()"
  "fst (blocks_New sample_env (Some sample_pair) (Some 3) None sample_traced2) = Inr 4"
  "ParentBlock sample_traced3 4 = Some 3" "PostExecutionStateRoot sample_traced3 3 = Inr 5" "bounds (heap sample_traced3 4) = None"
  by code_simp+

lemma sample_traced_eth: "EthBlock sample_traced3 4 = sample_pair"
  by code_simp

lemma sample_traced_clock: "ExecutedByGasTime sample_traced3 3 = Inr sample_gtime"
  by code_simp

lemma sample_replay_Execute:
  "\<exists>out w'. Execute sample_env (\<lambda>m x k. max m x) (noEndOfBlockOps sample_replay_points) flat_statedb sample_evm
     (rpc_StateDB sample_evm sample_traced3) (GetHeader sample_env sample_evm (\<lambda>_ _. None) ()) NullReceiptStore
     (Some 1) 0 4 sample_traced3 = (Inr out, w') \<and> xr_StateDB out = ((\<lambda>_. 7), (\<lambda>_. 0))"
proof -
  let ?H = "noEndOfBlockOps sample_replay_points" and ?calc = "\<lambda>m x k :: u64. max m x" and ?hdr = "eb_header sample_pair"
  have H: "hooks_subsecond ?H" "GasConfigAfter ?H = GasConfigAfter flat_points" "EndOfBlockOps ?H eb = Inr []"
    "BeforeExecutingBlock ?H eb d = (None, d)" "AfterExecutingBlock ?H eb r d = (None, ((\<lambda>_. 7), snd d))" for eb d r
    by (simp_all add: noEndOfBlockOps_def sample_replay_points_def sample_exec_points_def flat_points_def points.defs hooks_subsecond_def
        time_Second_def)
  have "unat (hdr_Time ?hdr) < 2 ^ 62 - 1" by (simp add: sample_pair_def sample_eth_def sample_header_def)
  then obtain clk where clk: "BeforeBlock ?H sample_gtime ?hdr = Inr clk" "gtime_inv clk" "in_range clk"
    using BeforeBlock_in_range [OF sample_gtime_inv H(1)] by blast
  obtain clk1 where clk1: "proxytime_Tick (gt_time clk) 21000 = Inr clk1"
    using Tick_never_panics [of "gt_time clk" 21000] clk(2) by (auto simp: gtime_inv_def)
  have "GasPriceConfig_Validate (snd (GasConfigAfter ?H ?hdr)) = None"
    by (simp add: H flat_points_def DefaultGasPriceConfig_def GasPriceConfig_Validate_def)
  then obtain g' where "after_clock ?calc ?H ?hdr 21000 clk = Inr g'" using after_clock_defined [OF clk(2,3)] by blast
  then have g': "AfterBlock ?calc ?H clk 21000 ?hdr = Inr (g', None)"
    by (auto simp: after_clock_def res_bind_eq_Inr split: option.splits prod.splits)
  have tx: "take (Suc 0) (eb_txs sample_pair) = [sample_tx]" "tx_Gas sample_tx = 21000" by (simp_all add: sample_pair_def sample_tx_def)
  show ?thesis
    by (simp add: Execute_def prog_simps sample_traced_steps sample_traced_eth sample_traced_clock deref_def clk(1) H hook_err_def Let_def
        Execute_tx_def tx sample_evm_def rpc_StateDB_def proxytime_Clone_id clk1 g' SetInterimExecutionTime_def put_receipt_def)
qed

lemma sample_replay:
  "\<exists>msg hdr w'. StateAtTransaction sample_env (\<lambda>m x k. max m x) sample_replay_points flat_statedb sample_evm sample_geth (\<lambda>_ _. None) 0
     sample_pair 1 sample_traced = (Inr (msg, hdr, ((\<lambda>_. 7), (\<lambda>_. 0))), w')"
proof -
  have new1: "blocks_New sample_env (Some (sample_eth 1)) None None sample_traced = (Inr 3, sample_traced1)"
    unfolding sample_traced1_def by (rule prod_eqI) (simp_all only: fst_conv snd_conv sample_traced_steps)
  have rst: "RestoreExecutionArtefacts sample_env 3 sample_traced1 = (Inr (), sample_traced2)"
    unfolding sample_traced2_def by (rule prod_eqI) (simp_all only: fst_conv snd_conv sample_traced_steps)
  have new2: "blocks_New sample_env (Some sample_pair) (Some 3) None sample_traced2 = (Inr 4, sample_traced3)"
    unfolding sample_traced3_def by (rule prod_eqI) (simp_all only: fst_conv snd_conv sample_traced_steps)
  have b: "Number (eb_header sample_pair) = 2" "ParentHash (eb_header sample_pair) = 2" "length (eb_txs sample_pair) = 2"
    by (simp_all add: sample_pair_def sample_eth_def)
  have l: "LastExecuted sample_traced = Some 1" by (simp add: LastExecuted_def sample_traced_def)
  obtain out w' where x: "Execute sample_env (\<lambda>m x k. max m x) (noEndOfBlockOps sample_replay_points) flat_statedb sample_evm
     (rpc_StateDB sample_evm sample_traced3) (GetHeader sample_env sample_evm (\<lambda>_ _. None) ()) NullReceiptStore
     (Some 1) 0 4 sample_traced3 = (Inr out, w')" "xr_StateDB out = ((\<lambda>_. 7), (\<lambda>_. 0))"
    using sample_replay_Execute by blast
  then show ?thesis
    using sample_traced_steps(1,2) [unfolded One_nat_def]
    by (simp add: StateAtTransaction_def Let_def b prog_simps l deref_def new1 [unfolded One_nat_def] rst new2 x(1) [unfolded One_nat_def] sample_geth_def)
qed

theorem StateAtTransaction_replays_witness:
  "\<exists>msg hdr w' db2 pool used. StateAtTransaction sample_env (\<lambda>m x k. max m x) sample_replay_points flat_statedb sample_evm sample_geth (\<lambda>_ _. None) 0
      sample_pair 1 sample_traced = (Inr (msg, hdr, ((\<lambda>_. 7), (\<lambda>_. 0))), w')
    \<and> replay sample_evm (GetHeader sample_env sample_evm (\<lambda>_ _. None) ()) hdr 0 [sample_tx] (MaxUint64, 0, ((\<lambda>_. 1000000000), (\<lambda>_. 0)))
      = Inr (pool, used, db2)
    \<and> fst db2 = (\<lambda>_. 1000000000) \<and> cells w' = cells sample_traced \<and> heap w' 1 = heap sample_traced 1"
proof -
  obtain msg hdr w' where x: "StateAtTransaction sample_env (\<lambda>m x k. max m x) sample_replay_points flat_statedb sample_evm sample_geth (\<lambda>_ _. None) 0
     sample_pair 1 sample_traced = (Inr (msg, hdr, ((\<lambda>_. 7), (\<lambda>_. 0))), w')" using sample_replay by blast
  have tx: "take (nat 1) (eb_txs sample_pair) = [sample_tx]" by (simp add: sample_pair_def)
  have f: "fresh sample_traced = 3" by (simp add: sample_traced_def)
  obtain db0 db1 pool used db2 where y: "OpenStateDB sample_evm rt (cache (ex_tracker sample_traced)) = Inr db0"
    "BeforeExecutingBlock sample_replay_points sample_pair db0 = (None, db1)"
    "replay sample_evm (GetHeader sample_env sample_evm (\<lambda>_ _. None) (recent sample_traced)) hdr 0 [sample_tx] (MaxUint64, 0, db1) = Inr (pool, used, db2)"
    "cells w' = cells sample_traced" "heap w' 1 = heap sample_traced 1" for rt
    using StateAtTransaction_replays [OF x, unfolded tx] f by (auto simp: sample_evm_def)
  have "db1 = ((\<lambda>_. 1000000000), (\<lambda>_. 0))" using y(1) y(2)
    by (simp add: sample_evm_def sample_replay_points_def sample_exec_points_def points.defs)
  then show ?thesis using x y(3-5) by (auto simp: sample_evm_def)
qed

end
