(* ===== verification/Spec2Isabelle.thy ===== *)
theory Spec2Isabelle
  imports Startup Adaptor Txgossip Canoto Rpc
begin

text \<open>
  A verification development of Streaming Asynchronous Execution (SAE, ACP-194) for the EVM.

  \<^bold>\<open>The program.\<close> Consensus orders blocks without executing them. A block is built or verified
  against bounds on the worst case of the blocks still in the queue, accepted, put on a FIFO queue,
  executed in the background, and settled by a later block once its execution has finished at least
  five seconds (of gas time) before that block. The parts, bottom up, with the theory that models
  each and the sources under \<^verbatim>\<open>src/\<close>:

  \<^item> \<open>Prelude\<close>, \<open>StateRes\<close>: Go's integers as words, errors as a datatype with \<^verbatim>\<open>errors.Is\<close>, and programs
    that change state and may fail. \<open>Environment\<close>: what the sources call outside the repository.
  \<^item> \<open>Intmath\<close> (\<^verbatim>\<open>intmath\<close>), \<open>Proxytime\<close> (\<^verbatim>\<open>proxytime\<close>): bounded arithmetic, and clocks that count in
    units of a rate. The exact rational instant of a clock is its abstraction: \<open>Tick\<close>,
    \<open>FastForwardTo\<close>, \<open>SetRate\<close> and \<open>Compare\<close> are proved against it at the width of the machine.
  \<^item> \<open>Hooks\<close> (\<^verbatim>\<open>hook\<close>), \<open>Gastime\<close> (\<^verbatim>\<open>gastime\<close>): operations on accounts, and the gas clock with its
    excess and price, which refines an ACP-194 clock on unbounded numbers. Run on no more gas, it never
    prices a block higher (locale \<open>clock_dominance\<close>).
  \<^item> \<open>Blocks\<close>, \<open>Lifecycle\<close>, \<open>Settlement\<close>, \<open>Access\<close> (\<^verbatim>\<open>blocks\<close>): blocks on an explicit heap, with every
    operation of their life cycle on every branch. The invariant of a block and the ordering
    guarantees of \<^verbatim>\<open>docs/invariants.md\<close>, on a trace of effects, hold in every reachable state; the walks
    over ancestors return and return what they promise.
  \<^item> \<open>Canoto\<close> (\<^verbatim>\<open>*.canoto.go\<close>): the generated codec of what execution leaves on disk. It loses nothing, and it
    accepts nothing but the one encoding of a value.
  \<^item> \<open>Worstcase\<close> (\<^verbatim>\<open>worstcase\<close>): the bounds under which a block is built; they never overflow and cover
    what execution will charge.
  \<^item> \<open>Saedb\<close> (\<^verbatim>\<open>saedb\<close>), \<open>SyncMap\<close> (\<^verbatim>\<open>saexec/receipts.go\<close>, \<^verbatim>\<open>sae/sae.go\<close>): references to state roots and
    commits (locale \<open>root_tracking\<close>), and the two concurrent maps (locale \<open>kv_store\<close>).
  \<^item> \<open>Saexec\<close> (\<^verbatim>\<open>saexec\<close>): the executor. Its queue, loop and shutdown are a step relation, interleaved
    with the work of consensus: execution is in the order of acceptance, each block once. \<open>Liveness\<close>: the
    executor works the queue off in one iteration per block.
  \<^item> \<open>BlockBuilder\<close> (\<^verbatim>\<open>sae/block_builder.go\<close>), \<open>Consensus\<close> (\<^verbatim>\<open>sae/blocks.go\<close>, \<^verbatim>\<open>sae/consensus.go\<close>,
    \<^verbatim>\<open>sae/vm.go\<close>), \<open>Verify\<close>: building, rebuilding, verifying, accepting, rejecting and fetching blocks. What
    is built can be rebuilt, and is verified; what is verified was rebuilt; acceptance settles exactly
    what the block settles.
  \<^item> \<open>Recovery\<close> (\<^verbatim>\<open>sae/recovery.go\<close>): re-execution after a restart, and the blocks that consensus still
    needs.
  \<^item> \<open>Startup\<close> (\<^verbatim>\<open>NewVM\<close> and \<^verbatim>\<open>WaitForEvent\<close> in \<^verbatim>\<open>sae/vm.go\<close>): the construction of a VM, from the last synchronous block through
    recovery to the services, with the release of what was opened when it fails. A VM that is returned has lost no
    accepted block. No wake-up of the engine is lost.
  \<^item> \<open>Adaptor\<close> (\<^verbatim>\<open>adaptor\<close>): the VM as avalanchego's consensus sees it.
  \<^item> \<open>Float64\<close>, \<open>Gasprice\<close> (\<^verbatim>\<open>gasprice\<close>): tip suggestions and fee history, with the floats they use; what
    they return depends on the chain and not on what the cache holds.
  \<^item> \<open>GoSort\<close>, \<open>Txgossip\<close> (\<^verbatim>\<open>txgossip\<close>): the mempool by priority, through the standard library's stable
    sort (locale \<open>comparison_sort\<close>), and the transactions that reach a block.
  \<^item> \<open>Rpc\<close> (\<^verbatim>\<open>sae/rpc\<close>): the backend of the JSON-RPC services. What it serves of an executed block is the same from
    memory and from disk, and a replay for tracing touches nothing that exists.

  \<^bold>\<open>How Go is modelled.\<close> A \<^verbatim>\<open>uint64\<close> or \<^verbatim>\<open>uint256\<close> is a word of its width, a \<^verbatim>\<open>big.Int\<close> an integer, a
  struct a record, an error an \<open>Inl\<close>. Panics and blocked calls are errors of their own (\<open>Panic\<close>,
  \<open>Blocked\<close>), which no handler turns into an ordinary error. Blocks are shared by pointers, so that they
  live in a heap; the atomic pointers of the frontiers are cells. A call that fails leaves the effects it
  had. Effects that other goroutines or the disk can observe are appended to a trace, on which ordering is
  stated. A Go map that is iterated is an association list in the order of the iteration, and results
  hold for every order. Code that runs concurrently is cut at its atomic actions into steps of an
  inductive relation.

  \<^bold>\<open>Outside the repository.\<close> Databases, the EVM, the trie database, hashing, signatures, the primitives
  of the canoto library, the hooks of the chain, avalanchego's price function, the LRU caches and the
  transaction pool are arguments: records of functions, with what is relied on stated as predicates
  (\<open>kv_laws\<close>, \<open>xdb_laws\<close>, \<open>canoto_lib\<close>, \<open>statedb_laws\<close>, \<open>triedb_laws\<close>, \<open>evm_laws\<close>, \<open>rebuilder_laws\<close>,
  \<open>block_db_laws\<close>, \<open>block_number_laws\<close>, \<open>lru_laws\<close>). Each has an instance in the concrete environment that
  the witnesses run in. The codec of execution results is an argument of the block life cycle, with the law
  \<open>canoto_laws\<close>, which \<open>Canoto\<close> proves of the generated code.

  \<^bold>\<open>Loops.\<close> Loops are recursive functions with termination proofs where a measure exists. The walk of
  \<open>LastToSettleAt\<close> and the loop that untracks recovered roots follow pointers and may not end on a cyclic
  heap: they are partial functions, proved to return on the heaps that occur. The loop of the recovery that
  extends the chain gets the height of its first block and two as fuel, and \<open>extend_returns\<close> shows that the
  fuel does not run out.

  \<^bold>\<open>Concurrency at the start.\<close> While \<^verbatim>\<open>NewVM\<close> waits, the executor runs; what it does in this time is the argument \<open>run\<close>, and
  results hold for every sequence of its iterations.

  \<^bold>\<open>Not modelled.\<close> The JSON-RPC services themselves, which are libevm's, and their construction; the constructors of the other
  services, of which \<open>NewVM\<close> has the errors only; HTTP and peer-to-peer plumbing; logging and metrics, apart from the log entries
  in the trace; and test support.
\<close>

end
